(* ===== verification/Prelude.thy ===== *)
theory Prelude
  imports Main "HOL-Library.Word"
begin

text \<open>
  Shared vocabulary of the development: C integers and their memory representation on hosts of
  either byte order, C strings in fixed-size buffers, the ways the program can leave the defined
  part of C++ (process exit, an uncaught exception, undefined behaviour) as the error side of a
  sum type, and the rule collections the component theories fill.
\<close>

section \<open>Types and rule collections\<close>

text \<open>
  \<^verbatim>\<open>int\<close> is a 32-bit two's-complement word: equality and wrap-around are those of
  \<^typ>\<open>32 word\<close>, order is that of \<open>sint\<close>. \<^verbatim>\<open>char\<close> buffers are lists of characters, one
  character per byte.
\<close>

type_synonym cint = "32 word"
type_synonym buffer = string

named_theorems codec_simps "encoding followed by decoding"
named_theorems sock_simps "behaviour of socket calls"
named_theorems rm_simps "frame and effect rules of the resource manager"

section \<open>Errors as values\<close>

text \<open>
  \<open>ExitProcess\<close> is a call of \<^verbatim>\<open>exit(1)\<close>, \<open>Terminate\<close> an exception that leaves a thread
  (\<^verbatim>\<open>std::terminate\<close>), \<open>StackOverflow\<close> recursion that exceeds the stack, \<open>Undefined\<close> undefined behaviour (a read past the end of a buffer or a
  vector, a non-void function that ends without a return).
\<close>

datatype crash = ExitProcess | Terminate | StackOverflow | Undefined

fun bindE :: "'e + 'a \<Rightarrow> ('a \<Rightarrow> 'e + 'b) \<Rightarrow> 'e + 'b" where
  "bindE (Inl e) f = Inl e"
| "bindE (Inr x) f = f x"

lemma bindE_eq_Inr [simp]: "bindE m f = Inr y \<longleftrightarrow> (\<exists>x. m = Inr x \<and> f x = Inr y)"
  by (cases m) auto

lemma bindE_eq_Inl: "bindE m f = Inl e \<longleftrightarrow> m = Inl e \<or> (\<exists>x. m = Inr x \<and> f x = Inl e)"
  by (cases m) auto

lemma bindE_cong [fundef_cong]:
  "m = m' \<Longrightarrow> (\<And>x. m' = Inr x \<Longrightarrow> f x = f' x) \<Longrightarrow> bindE m f = bindE m' f'"
  by (cases m') auto

text \<open>A counting loop whose body may fail.\<close>

fun for_loop :: "('i \<Rightarrow> 's \<Rightarrow> 'e + 's) \<Rightarrow> 'i list \<Rightarrow> 's \<Rightarrow> 'e + 's" where
  "for_loop f [] s = Inr s"
| "for_loop f (i # is) s = bindE (f i s) (for_loop f is)"

text \<open>Rule of the loop: what every round keeps, the loop keeps.\<close>

lemma for_loop_invariant:
  assumes "for_loop f is s = Inr s'" and "P s"
    and "\<And>i s s'. i \<in> set is \<Longrightarrow> P s \<Longrightarrow> f i s = Inr s' \<Longrightarrow> P s'"
  shows "P s'"
  using assms by (induction "is" arbitrary: s) auto

lemma for_loop_total:
  assumes "P s" and "\<And>i s. i \<in> set is \<Longrightarrow> P s \<Longrightarrow> \<exists>s'. f i s = Inr s' \<and> P s'"
  shows "\<exists>s'. for_loop f is s = Inr s' \<and> P s'"
  using assms
proof (induction "is" arbitrary: s)
  case Nil
  then show ?case by simp
next
  case (Cons i "is")
  then obtain s1 where "f i s = Inr s1" "P s1" by force
  then show ?case using Cons.IH [of s1] Cons.prems by auto
qed

section \<open>Memory representation of integers\<close>

datatype endian = LittleEndian | BigEndian

fun le_bytes :: "nat \<Rightarrow> nat \<Rightarrow> buffer" where
  "le_bytes 0 n = []"
| "le_bytes (Suc k) n = char_of (n mod 256) # le_bytes k (n div 256)"

fun le_nat :: "buffer \<Rightarrow> nat" where
  "le_nat [] = 0"
| "le_nat (c # cs) = of_char c + 256 * le_nat cs"

lemma length_le_bytes [simp]: "length (le_bytes k n) = k"
  by (induction k arbitrary: n) auto

lemma le_nat_le_bytes: "le_nat (le_bytes k n) = n mod 256 ^ k"
proof (induction k arbitrary: n)
  case 0
  then show ?case by simp
next
  case (Suc k)
  have "n mod 256 + 256 * (n div 256 mod 256 ^ k) = n mod (256 * 256 ^ k)"
    by (simp add: mod_mult2_eq)
  then show ?case by (simp add: Suc.IH)
qed

lemma le_bytes_le_nat: "le_bytes (length bs) (le_nat bs) = bs"
  by (induction bs) simp_all

lemma le_nat_less: "le_nat bs < 256 ^ length bs"
proof (induction bs)
  case Nil
  then show ?case by simp
next
  case (Cons c bs)
  have "of_char c + 256 * le_nat bs < 256 + 256 * le_nat bs"
    using nat_of_char_less_256 [of c] by simp
  also have "\<dots> \<le> 256 * 256 ^ length bs"
    using Cons.IH by simp
  finally show ?case by simp
qed

text \<open>The four bytes of an \<^verbatim>\<open>int\<close> in memory, and the \<^verbatim>\<open>int\<close> that four bytes hold.\<close>

fun mem_bytes :: "endian \<Rightarrow> cint \<Rightarrow> buffer" where
  "mem_bytes LittleEndian w = le_bytes 4 (unat w)"
| "mem_bytes BigEndian w = rev (le_bytes 4 (unat w))"

fun mem_word :: "endian \<Rightarrow> buffer \<Rightarrow> cint" where
  "mem_word LittleEndian bs = of_nat (le_nat bs)"
| "mem_word BigEndian bs = of_nat (le_nat (rev bs))"

lemma length_mem_bytes [simp]: "length (mem_bytes e w) = 4"
  by (cases e) auto

lemma unat_mod_32 [simp]: "unat (w :: cint) mod 4294967296 = unat w"
  using unsigned_less [of w, where 'a = nat] by simp

lemma mem_word_mem_bytes [simp, codec_simps]: "mem_word e (mem_bytes e w) = w"
  by (cases e) (simp_all add: le_nat_le_bytes del: le_bytes.simps)

lemma mem_bytes_mem_word: "length bs = 4 \<Longrightarrow> mem_bytes e (mem_word e bs) = bs"
proof -
  assume len: "length bs = 4"
  have bound: "le_nat xs < 4294967296" if "length xs = 4" for xs
    using le_nat_less [of xs] that by simp
  have key: "le_bytes 4 (unat (of_nat (le_nat xs) :: cint)) = xs" if "length xs = 4" for xs
    using le_bytes_le_nat [of xs] bound [OF that] that
    by (simp add: unat_of_nat del: le_bytes.simps)
  show ?thesis
    by (cases e) (simp_all add: key len del: le_bytes.simps)
qed

text \<open>
  \<^verbatim>\<open>htonl\<close> and \<^verbatim>\<open>ntohl\<close> exchange the host's byte order and the network's (big-endian): on a
  little-endian host they reverse the four bytes, on a big-endian one they do nothing.
\<close>

fun htonl :: "endian \<Rightarrow> cint \<Rightarrow> cint" where
  "htonl LittleEndian w = mem_word LittleEndian (rev (mem_bytes LittleEndian w))"
| "htonl BigEndian w = w"

definition ntohl :: "endian \<Rightarrow> cint \<Rightarrow> cint" where
  "ntohl e w = htonl e w"

lemma mem_bytes_htonl: "mem_bytes e (htonl e w) = mem_bytes BigEndian w"
  by (cases e) (simp_all add: mem_bytes_mem_word del: mem_bytes.simps(1) mem_word.simps,
    simp)

lemma ntohl_mem_word: "length bs = 4 \<Longrightarrow> ntohl e (mem_word e bs) = mem_word BigEndian bs"
proof -
  assume len: "length bs = 4"
  have "mem_word LittleEndian (rev bs) = mem_word BigEndian bs"
    by simp
  then show ?thesis
    using len by (cases e) (simp_all add: ntohl_def mem_bytes_mem_word
        del: mem_bytes.simps mem_word.simps)
qed

lemma ntohl_mem_word_net [simp, codec_simps]: "ntohl e (mem_word e (mem_bytes BigEndian w)) = w"
  by (simp add: ntohl_mem_word del: mem_bytes.simps mem_word.simps)

text \<open>An \<^verbatim>\<open>int\<close> as it goes over the wire after \<^verbatim>\<open>htonl\<close>, whatever the host's byte order.\<close>

abbreviation net_bytes :: "cint \<Rightarrow> buffer" where
  "net_bytes w \<equiv> mem_bytes BigEndian w"

declare mem_bytes.simps [simp del] mem_word.simps [simp del] htonl.simps [simp del]

text \<open>
  \<open>read_int e off buf\<close> is \<^verbatim>\<open>memcpy(&net, buffer + off, 4); ntohl(net)\<close>; \<open>None\<close> when the four
  bytes are not inside the buffer. \<open>read_raw\<close> is the same without \<^verbatim>\<open>ntohl\<close>.
\<close>

definition read_raw :: "endian \<Rightarrow> nat \<Rightarrow> buffer \<Rightarrow> cint option" where
  "read_raw e off buf =
     (if off + 4 \<le> length buf then Some (mem_word e (take 4 (drop off buf))) else None)"

definition read_net :: "endian \<Rightarrow> nat \<Rightarrow> buffer \<Rightarrow> cint option" where
  "read_net e off buf = map_option (ntohl e) (read_raw e off buf)"

lemma read_raw_at [codec_simps]:
  "length pre = off \<Longrightarrow> read_raw e off (pre @ mem_bytes e w @ rest) = Some w"
  by (simp add: read_raw_def)

lemma read_net_at [codec_simps]:
  "length pre = off \<Longrightarrow> read_net e off (pre @ net_bytes w @ rest) = Some w"
  by (simp add: read_net_def read_raw_def)

lemma read_net_at_0 [codec_simps]: "read_net e 0 (net_bytes w @ rest) = Some w"
  using read_net_at [of "[]"] by simp

section \<open>C strings in buffers\<close>

abbreviation NUL :: char where
  "NUL \<equiv> CHR 0x00"

text \<open>\<^verbatim>\<open>std::string(buf)\<close>: the characters before the first NUL.\<close>

definition c_string :: "buffer \<Rightarrow> string" where
  "c_string buf = takeWhile (\<lambda>c. c \<noteq> NUL) buf"

lemma c_string_terminated: "NUL \<notin> set s \<Longrightarrow> c_string (s @ NUL # rest) = s"
  by (induction s) (auto simp: c_string_def)

lemma c_string_take:
  "NUL \<notin> set s \<Longrightarrow> length s < n \<Longrightarrow> c_string (take n (s @ NUL # rest) @ more) = s"
proof -
  assume s: "NUL \<notin> set s" "length s < n"
  then have "take n (s @ NUL # rest) = s @ NUL # take (n - length s - 1) rest"
    by (cases "n - length s") auto
  then show ?thesis using c_string_terminated [OF s(1)] by simp
qed

lemma c_string_no_NUL: "NUL \<notin> set s \<Longrightarrow> c_string (s @ more) = s @ c_string more"
  by (induction s) (auto simp: c_string_def)

section \<open>Lists\<close>

lemma concat_length_zero: "sum_list (map length xss) = 0 \<longleftrightarrow> concat xss = []"
  by (induction xss) auto

lemma fold_append_snoc: "fold (\<lambda>x acc. acc @ [f x]) xs acc = acc @ map f xs"
  by (induction xs arbitrary: acc) auto

end
