(* ===== verification/StdMap.thy ===== *)
theory StdMap
  imports Prelude
begin

text \<open>
  \<^verbatim>\<open>std::map<int, V>\<close> as the program uses it: \<^verbatim>\<open>find\<close>, \<^verbatim>\<open>insert\<close> (which leaves an existing key
  alone), \<^verbatim>\<open>operator[]=\<close> (which overwrites) and iteration in key order. The model is an association
  list sorted by the signed value of the keys. The locale \<open>int_map\<close> is the interface the other
  components rely on; its lemmas about sequences of writes are proved from the laws alone.
\<close>

type_synonym 'v imap = "(cint \<times> 'v) list"

fun map_find :: "cint \<Rightarrow> 'v imap \<Rightarrow> 'v option" where
  "map_find k [] = None"
| "map_find k ((k', v) # m) = (if k = k' then Some v else map_find k m)"

fun map_insert :: "cint \<Rightarrow> 'v \<Rightarrow> 'v imap \<Rightarrow> 'v imap" where
  "map_insert k v [] = [(k, v)]"
| "map_insert k v ((k', v') # m) =
     (if k = k' then (k', v') # m
      else if sint k < sint k' then (k, v) # (k', v') # m
      else (k', v') # map_insert k v m)"

fun map_assign :: "cint \<Rightarrow> 'v \<Rightarrow> 'v imap \<Rightarrow> 'v imap" where
  "map_assign k v [] = [(k, v)]"
| "map_assign k v ((k', v') # m) =
     (if k = k' then (k, v) # m
      else if sint k < sint k' then (k, v) # (k', v') # m
      else (k', v') # map_assign k v m)"

definition map_ok :: "'v imap \<Rightarrow> bool" where
  "map_ok m \<longleftrightarrow> sorted_wrt (\<lambda>a b. sint (fst a) < sint (fst b)) m"

section \<open>The interface\<close>

locale int_map =
  fixes find :: "cint \<Rightarrow> 'm \<Rightarrow> 'v option"
    and insert :: "cint \<Rightarrow> 'v \<Rightarrow> 'm \<Rightarrow> 'm"
    and assign :: "cint \<Rightarrow> 'v \<Rightarrow> 'm \<Rightarrow> 'm"
    and empty :: "'m"
    and entries :: "'m \<Rightarrow> (cint \<times> 'v) list"
    and ok :: "'m \<Rightarrow> bool"
  assumes ok_empty: "ok empty"
    and find_empty: "find k empty = None"
    and ok_insert: "ok m \<Longrightarrow> ok (insert k v m)"
    and ok_assign: "ok m \<Longrightarrow> ok (assign k v m)"
    and find_insert: "ok m \<Longrightarrow> find k' (insert k v m) =
      (if k' = k \<and> find k m = None then Some v else find k' m)"
    and find_assign: "ok m \<Longrightarrow> find k' (assign k v m) = (if k' = k then Some v else find k' m)"
    and find_entries: "ok m \<Longrightarrow> find k m = map_of (entries m) k"
    and distinct_entries: "ok m \<Longrightarrow> distinct (map fst (entries m))"
    and ext: "ok m \<Longrightarrow> ok m' \<Longrightarrow> (\<And>k. find k m = find k m') \<Longrightarrow> m = m'"
begin

definition write_all :: "(cint \<times> 'v) list \<Rightarrow> 'm \<Rightarrow> 'm" where
  "write_all ws m = fold (\<lambda>(k, v). assign k v) ws m"

definition insert_all :: "(cint \<times> 'v) list \<Rightarrow> 'm \<Rightarrow> 'm" where
  "insert_all ws m = fold (\<lambda>(k, v). insert k v) ws m"

lemma ok_write_all: "ok m \<Longrightarrow> ok (write_all ws m)"
  by (induction ws arbitrary: m) (auto simp: write_all_def intro: ok_assign)

lemma ok_insert_all: "ok m \<Longrightarrow> ok (insert_all ws m)"
  by (induction ws arbitrary: m) (auto simp: insert_all_def intro: ok_insert)

text \<open>A sequence of writes: the last write to a key wins.\<close>

lemma find_write_all:
  "ok m \<Longrightarrow> find k (write_all ws m) =
     (case map_of (rev ws) k of Some v \<Rightarrow> Some v | None \<Rightarrow> find k m)"
proof (induction ws arbitrary: m)
  case Nil
  then show ?case by (simp add: write_all_def)
next
  case (Cons w ws)
  obtain k' v where w: "w = (k', v)" by force
  have "find k (write_all ws (assign k' v m)) =
      (case map_of (rev ws) k of Some v \<Rightarrow> Some v | None \<Rightarrow> find k (assign k' v m))"
    using Cons.IH [OF ok_assign [OF Cons.prems]] .
  then show ?case
    using find_assign [OF Cons.prems]
    by (simp add: w write_all_def map_of_append map_add_def split: option.splits)
qed

text \<open>A sequence of inserts: the first one wins.\<close>

lemma find_insert_all:
  "ok m \<Longrightarrow> find k (insert_all ws m) =
     (case find k m of Some v \<Rightarrow> Some v | None \<Rightarrow> map_of ws k)"
proof (induction ws arbitrary: m)
  case Nil
  then show ?case by (simp add: insert_all_def split: option.splits)
next
  case (Cons w ws)
  obtain k' v where w: "w = (k', v)" by force
  have "find k (insert_all ws (insert k' v m)) =
      (case find k (insert k' v m) of Some v \<Rightarrow> Some v | None \<Rightarrow> map_of ws k)"
    using Cons.IH [OF ok_insert [OF Cons.prems]] .
  then show ?case
    using find_insert [OF Cons.prems] by (auto simp: w insert_all_def split: option.splits)
qed

text \<open>Inserting the entries of a map into an empty one gives the map back.\<close>

lemma insert_all_entries: "ok m \<Longrightarrow> insert_all (entries m) empty = m"
  by (rule ext) (simp_all add: ok_insert_all ok_empty find_insert_all find_empty
      find_entries [symmetric])

lemma assign_same: "ok m \<Longrightarrow> find k m = Some v \<Longrightarrow> assign k v m = m"
  by (rule ext) (auto simp: ok_assign find_assign)

lemma write_all_append: "write_all (xs @ ys) m = write_all ys (write_all xs m)"
  by (simp add: write_all_def)

end

section \<open>The model satisfies the interface\<close>

lemma map_find_map_of: "map_find k m = map_of m k"
  by (induction k m rule: map_find.induct) auto

lemma map_find_less: "\<forall>(k', v) \<in> set m. sint k < sint k' \<Longrightarrow> map_find k m = None"
  by (induction k m rule: map_find.induct) auto

lemma set_map_insert: "fst ` set (map_insert k v m) = insert k (fst ` set m)"
  by (induction k v m rule: map_insert.induct) auto

lemma set_map_assign: "fst ` set (map_assign k v m) = insert k (fst ` set m)"
  by (induction k v m rule: map_assign.induct) auto

lemma sint_neq_less: "k \<noteq> k' \<Longrightarrow> \<not> sint k < sint (k' :: cint) \<Longrightarrow> sint k' < sint k"
  by (metis linorder_neqE signed_word_eqI)

lemma map_ok_Cons:
  "map_ok (kv # m) \<longleftrightarrow> (\<forall>k \<in> fst ` set m. sint (fst kv) < sint k) \<and> map_ok m"
  by (auto simp: map_ok_def)

lemma map_ok_insert: "map_ok m \<Longrightarrow> map_ok (map_insert k v m)"
proof (induction k v m rule: map_insert.induct)
  case (1 k v)
  then show ?case by (simp add: map_ok_def)
next
  case (2 k v k' v' m)
  then show ?case
    using sint_neq_less [of k k']
    by (cases "k = k'"; cases "sint k < sint k'") (auto simp: map_ok_Cons set_map_insert)
qed

lemma map_ok_assign: "map_ok m \<Longrightarrow> map_ok (map_assign k v m)"
proof (induction k v m rule: map_assign.induct)
  case (1 k v)
  then show ?case by (simp add: map_ok_def)
next
  case (2 k v k' v' m)
  then show ?case
    using sint_neq_less [of k k']
    by (cases "k = k'"; cases "sint k < sint k'") (auto simp: map_ok_Cons set_map_assign)
qed

lemma map_find_notin: "k \<notin> fst ` set m \<Longrightarrow> map_find k m = None"
  by (induction k m rule: map_find.induct) auto

lemma map_find_insert:
  "map_ok m \<Longrightarrow> map_find k' (map_insert k v m) =
     (if k' = k \<and> map_find k m = None then Some v else map_find k' m)"
proof (induction k v m rule: map_insert.induct)
  case (1 k v)
  then show ?case by simp
next
  case (2 k v k1 v1 m)
  have "map_find k m = None" if "sint k < sint k1"
    using that 2(2) by (intro map_find_notin) (auto simp: map_ok_Cons)
  then show ?case
    using 2 by (auto simp: map_ok_Cons)
qed

lemma map_find_assign:
  "map_find k' (map_assign k v m) = (if k' = k then Some v else map_find k' m)"
  by (induction k v m rule: map_assign.induct) auto

lemma map_ok_distinct: "map_ok m \<Longrightarrow> distinct (map fst m)"
  by (induction m) (auto simp: map_ok_Cons)

text \<open>
  Two sorted lists with the same lookups are the same list: the first keys must agree, as each is
  found in the other list and is smaller than everything behind it.
\<close>

lemma map_ok_ext:
  "map_ok m \<Longrightarrow> map_ok m' \<Longrightarrow> (\<And>k. map_find k m = map_find k m') \<Longrightarrow> m = m'"
proof (induction m arbitrary: m')
  case Nil
  show ?case
  proof (cases m')
    case (Cons kv m2)
    then show ?thesis using Nil.prems(3) [of "fst kv"] by (cases kv) simp
  qed simp
next
  case (Cons kv m)
  obtain k v where kv: "kv = (k, v)" by force
  obtain k' v' m2 where m': "m' = (k', v') # m2"
    using Cons.prems(3) [of k] kv by (cases m') (auto split: if_splits)
  have in_m: "map_find x m = Some y \<Longrightarrow> sint k < sint x" for x y
    using Cons.prems(1) map_find_notin [of x m] by (cases "x \<in> fst ` set m") (auto simp: kv map_ok_Cons)
  have in_m2: "map_find x m2 = Some y \<Longrightarrow> sint k' < sint x" for x y
    using Cons.prems(2) map_find_notin [of x m2] by (cases "x \<in> fst ` set m2") (auto simp: m' map_ok_Cons)
  have kk: "k = k'"
  proof (rule ccontr)
    assume neq: "k \<noteq> k'"
    have "map_find k m2 = Some v" "map_find k' m = Some v'"
      using Cons.prems(3) [of k] Cons.prems(3) [of k'] neq by (simp_all add: kv m')
    then show False using in_m in_m2 by fastforce
  qed
  have vv: "v = v'"
    using Cons.prems(3) [of k] by (simp add: kv m' kk)
  have "map_find x m = map_find x m2" for x
    using Cons.prems(3) [of x] in_m [of k'] in_m2 [of k']
    by (cases "map_find k' m"; cases "map_find k' m2"; cases "x = k'") (auto simp: kv m' kk)
  then have "m = m2"
    using Cons.prems(1,2) by (intro Cons.IH) (auto simp: map_ok_Cons kv m')
  then show ?case by (simp add: kv m' kk vv)
qed

interpretation imap: int_map map_find map_insert map_assign "[]" "\<lambda>m. m" map_ok
proof unfold_locales
  fix m m' :: "'a imap"
  show "map_find k m = map_of m k" for k by (rule map_find_map_of)
  show "map_ok m \<Longrightarrow> map_ok m' \<Longrightarrow> (\<And>k. map_find k m = map_find k m') \<Longrightarrow> m = m'"
    by (rule map_ok_ext)
qed (auto simp: map_ok_insert map_ok_assign map_find_insert map_find_assign map_ok_distinct
      map_ok_def [of "[]"])

lemmas map_rules = imap.ok_empty imap.ok_insert imap.ok_assign imap.find_insert imap.find_assign
  imap.find_empty imap.ok_write_all imap.ok_insert_all

end
