(* ===== verification/TextIO.thy ===== *)
theory TextIO
  imports Prelude
begin

text \<open>
  Formatted text of the two files the resource manager keeps: \<^verbatim>\<open>file << n\<close> and \<^verbatim>\<open>fin >> n\<close> of
  an \<^verbatim>\<open>int\<close> in the default decimal format. Reading skips white space, takes an optional sign and
  the longest run of digits, and fails (sets \<^verbatim>\<open>failbit\<close>) when there is no digit or the value does
  not fit an \<^verbatim>\<open>int\<close>. Main lemma: what \<^verbatim>\<open><<\<close> wrote, \<^verbatim>\<open>>>\<close> reads back.
\<close>

section \<open>Digits\<close>

definition is_digit :: "char \<Rightarrow> bool" where
  "is_digit c \<longleftrightarrow> 48 \<le> (of_char c :: nat) \<and> (of_char c :: nat) \<le> 57"

definition digit_char :: "nat \<Rightarrow> char" where
  "digit_char d = char_of (48 + d)"

definition digit_val :: "char \<Rightarrow> nat" where
  "digit_val c = of_char c - 48"

lemma of_char_digit: "d < 10 \<Longrightarrow> (of_char (digit_char d) :: nat) = 48 + d"
  by (simp add: digit_char_def)

lemma is_digit_digit_char: "d < 10 \<Longrightarrow> is_digit (digit_char d)"
  by (simp add: is_digit_def of_char_digit)

lemma digit_val_digit_char: "d < 10 \<Longrightarrow> digit_val (digit_char d) = d"
  by (simp add: digit_val_def of_char_digit)

definition is_space :: "char \<Rightarrow> bool" where
  "is_space c \<longleftrightarrow> c \<in> {CHR '' '', CHR 0x09, CHR 0x0A, CHR 0x0B, CHR 0x0C, CHR 0x0D}"

lemma digit_not_space: "is_digit c \<Longrightarrow> \<not> is_space c"
  by (auto simp: is_digit_def is_space_def)

lemma digit_not_sign: "is_digit c \<Longrightarrow> c \<noteq> CHR ''-'' \<and> c \<noteq> CHR ''+''"
  by (auto simp: is_digit_def)

section \<open>Writing and reading a number\<close>

fun show_nat :: "nat \<Rightarrow> string" where
  "show_nat n = (if n < 10 then [digit_char n] else show_nat (n div 10) @ [digit_char (n mod 10)])"

declare show_nat.simps [simp del]

definition read_nat :: "string \<Rightarrow> nat" where
  "read_nat ds = foldl (\<lambda>acc c. 10 * acc + digit_val c) 0 ds"

lemma show_nat_digits: "\<forall>c \<in> set (show_nat n). is_digit c"
proof (induction n rule: show_nat.induct)
  case (1 n)
  then show ?case
    by (cases "n < 10") (simp_all add: show_nat.simps [of n] is_digit_digit_char)
qed

lemma show_nat_nonempty: "show_nat n \<noteq> []"
  by (subst show_nat.simps) simp

lemma read_nat_show_nat: "read_nat (show_nat n) = n"
proof (induction n rule: show_nat.induct)
  case (1 n)
  then show ?case
    by (cases "n < 10")
      (simp_all add: show_nat.simps [of n] read_nat_def digit_val_digit_char)
qed

definition show_int :: "cint \<Rightarrow> string" where
  "show_int w = (if sint w < 0 then CHR ''-'' # show_nat (nat (- sint w)) else show_nat (nat (sint w)))"

definition in_int_range :: "int \<Rightarrow> bool" where
  "in_int_range v \<longleftrightarrow> - (2 ^ 31) \<le> v \<and> v < 2 ^ 31"

definition read_sign :: "string \<Rightarrow> bool \<times> string" where
  "read_sign s = (case s of [] \<Rightarrow> (False, [])
     | c # r \<Rightarrow> if c = CHR ''-'' then (True, r) else if c = CHR ''+'' then (False, r) else (False, s))"

definition read_cint :: "string \<Rightarrow> (cint \<times> string) option" where
  "read_cint s =
     (let (neg, s') = read_sign (dropWhile is_space s);
          ds = takeWhile is_digit s';
          v = (if neg then - int (read_nat ds) else int (read_nat ds))
      in if ds = [] \<or> \<not> in_int_range v then None
         else Some (word_of_int v, dropWhile is_digit s'))"

text \<open>The text after a number does not extend it when it does not start with a digit.\<close>

definition no_digit_next :: "string \<Rightarrow> bool" where
  "no_digit_next r \<longleftrightarrow> (case r of [] \<Rightarrow> True | c # _ \<Rightarrow> \<not> is_digit c)"

lemma take_drop_digits:
  assumes "\<forall>c \<in> set ds. is_digit c" and "no_digit_next r"
  shows "takeWhile is_digit (ds @ r) = ds" and "dropWhile is_digit (ds @ r) = r"
  using assms by (auto simp: no_digit_next_def takeWhile_append2 dropWhile_append2 split: list.splits)

lemma drop_spaces: "\<forall>c \<in> set ws. is_space c \<Longrightarrow> dropWhile is_space (ws @ s) = dropWhile is_space s"
  by (rule dropWhile_append2) auto

lemma sint_in_range: "in_int_range (sint (w :: cint))"
  using sint_range_size [of w] by (simp add: in_int_range_def word_size)

lemma show_nat_start:
  "dropWhile is_space (show_nat n @ r) = show_nat n @ r"
  "read_sign (show_nat n @ r) = (False, show_nat n @ r)"
proof -
  obtain c cs where c: "show_nat n = c # cs"
    using show_nat_nonempty by (cases "show_nat n") auto
  then have "is_digit c" using show_nat_digits [of n] by auto
  then show "dropWhile is_space (show_nat n @ r) = show_nat n @ r"
    "read_sign (show_nat n @ r) = (False, show_nat n @ r)"
    using digit_not_space digit_not_sign by (auto simp: c read_sign_def)
qed

lemma read_cint_show_int:
  assumes "\<forall>c \<in> set ws. is_space c" and "no_digit_next r"
  shows "read_cint (ws @ show_int w @ r) = Some (w, r)"
proof (cases "sint w < 0")
  case True
  let ?ds = "show_nat (nat (- sint w))"
  have minus: "\<not> is_space (CHR ''-'')" "read_sign (CHR ''-'' # ?ds @ r) = (True, ?ds @ r)"
    by (simp_all add: read_sign_def is_space_def)
  show ?thesis
    using True sint_in_range [of w] show_nat_nonempty
    by (simp add: read_cint_def show_int_def drop_spaces assms minus
        take_drop_digits [OF show_nat_digits assms(2)] read_nat_show_nat)
next
  case False
  then show ?thesis
    using sint_in_range [of w] show_nat_nonempty
    by (simp add: read_cint_def show_int_def drop_spaces assms show_nat_start
        take_drop_digits [OF show_nat_digits assms(2)] read_nat_show_nat)
qed

text \<open>At the end of the text, or in front of nothing but white space, reading fails.\<close>

lemma read_cint_spaces: "\<forall>c \<in> set ws. is_space c \<Longrightarrow> read_cint ws = None"
proof -
  assume "\<forall>c \<in> set ws. is_space c"
  then have none: "dropWhile is_space ws = []" by simp
  show ?thesis unfolding read_cint_def none by (simp add: read_sign_def)
qed

text \<open>A successful read consumes at least one character.\<close>

lemma length_read_sign: "length (snd (read_sign s)) \<le> length s"
  by (auto simp: read_sign_def split: list.splits)

lemma read_cint_shorter: "read_cint s = Some (w, r) \<Longrightarrow> length r < length s"
proof -
  assume r: "read_cint s = Some (w, r)"
  obtain neg s' where s': "read_sign (dropWhile is_space s) = (neg, s')" by force
  have le: "length s' \<le> length s"
    using length_read_sign [of "dropWhile is_space s"] length_dropWhile_le [of is_space s]
    by (simp add: s')
  have ne: "takeWhile is_digit s' \<noteq> []" and rr: "r = dropWhile is_digit s'"
    using r by (auto simp: read_cint_def s' Let_def split: if_splits)
  have "length (takeWhile is_digit s') + length r = length s'"
    by (simp add: rr flip: length_append)
  then show ?thesis using le ne by (cases "takeWhile is_digit s'") auto
qed

section \<open>A line of numbers\<close>

text \<open>\<^verbatim>\<open>file << a << ' ' << b << ' ' << ... << "\n"\<close>\<close>

fun show_line :: "cint list \<Rightarrow> string" where
  "show_line [] = [CHR 0x0A]"
| "show_line [w] = show_int w @ [CHR 0x0A]"
| "show_line (w # ws) = show_int w @ CHR '' '' # show_line ws"

text \<open>\<^verbatim>\<open>fin >> a >> b >> ...\<close>: the values, or a failed stream.\<close>

fun read_ints :: "nat \<Rightarrow> string \<Rightarrow> (cint list \<times> string) option" where
  "read_ints 0 s = Some ([], s)"
| "read_ints (Suc n) s = (case read_cint s of None \<Rightarrow> None
     | Some (w, r) \<Rightarrow> (case read_ints n r of None \<Rightarrow> None
         | Some (ws, r') \<Rightarrow> Some (w # ws, r')))"

lemma read_ints_shorter: "read_ints n s = Some (ws, r) \<Longrightarrow> 0 < n \<Longrightarrow> length r < length s"
proof (induction n arbitrary: s ws)
  case 0
  then show ?case by simp
next
  case (Suc n)
  then obtain w s' ws' where s': "read_cint s = Some (w, s')" "read_ints n s' = Some (ws', r)"
    by (auto split: option.splits)
  show ?case
  proof (cases n)
    case 0
    then show ?thesis using s' read_cint_shorter by auto
  next
    case (Suc m)
    then have "length r < length s'" using Suc.IH s'(2) by auto
    then show ?thesis using read_cint_shorter [OF s'(1)] by linarith
  qed
qed

lemma no_digit_next_simps [simp]:
  "no_digit_next []" "no_digit_next (CHR '' '' # r)" "no_digit_next (CHR 0x0A # r)"
  by (auto simp: no_digit_next_def is_digit_def)

text \<open>Reading as many numbers as a line holds gives the line's numbers and leaves its newline.\<close>

lemma read_ints_show_line:
  "ws \<noteq> [] \<Longrightarrow> \<forall>c \<in> set sp. is_space c \<Longrightarrow>
   read_ints (length ws) (sp @ show_line ws @ rest) = Some (ws, CHR 0x0A # rest)"
proof (induction ws arbitrary: sp rule: show_line.induct)
  case 1
  then show ?case by simp
next
  case (2 w)
  then show ?case using read_cint_show_int [of sp "CHR 0x0A # rest"] by simp
next
  case (3 w w2 ws)
  have sp: "read_cint (sp @ show_int w @ CHR '' '' # show_line (w2 # ws) @ rest)
      = Some (w, CHR '' '' # show_line (w2 # ws) @ rest)"
    using 3 by (intro read_cint_show_int) auto
  have rest: "read_ints (length (w2 # ws)) ([CHR '' ''] @ show_line (w2 # ws) @ rest)
      = Some (w2 # ws, CHR 0x0A # rest)"
    by (rule "3.IH") (auto simp: is_space_def)
  show ?case
    using sp rest by simp
qed

end
