(* ===== verification/Persistence.thy ===== *)
theory Persistence
  imports StdMap TextIO
begin

text \<open>
  The two files a resource manager keeps beside itself, \<^verbatim>\<open>custRecFile.txt\<close> and \<^verbatim>\<open>logFile.txt\<close>, as
  text; how \<^verbatim>\<open>ServerThread.cpp\<close> writes, appends and reads them; and the log of transaction records
  grouped by transaction id. Main lemmas: reading back a written customer file gives the map, reading
  back a log file gives its records grouped by transaction.
\<close>

record TxnLogRequest =
  tl_txn_id :: cint
  tl_txn_operation :: cint
  tl_customer_id :: cint
  tl_last_order_num :: cint
  tl_customer_opr :: cint

definition mk_TxnLogRequest :: "cint \<Rightarrow> cint \<Rightarrow> cint \<Rightarrow> cint \<Rightarrow> cint \<Rightarrow> TxnLogRequest" where
  "mk_TxnLogRequest t oper cid num cop = \<lparr>tl_txn_id = t, tl_txn_operation = oper,
     tl_customer_id = cid, tl_last_order_num = num, tl_customer_opr = cop\<rparr>"

text \<open>A missing file is \<open>None\<close>; the flags say whether \<^verbatim>\<open>ofstream::open\<close> succeeds.\<close>

record disk =
  custRecFile :: "string option"
  logFile :: "string option"
  cust_writable :: bool
  log_writable :: bool

section \<open>The grouped log\<close>

text \<open>\<^verbatim>\<open>update_value\<close>: append to the transaction's vector, or start one (result 1 or 2).\<close>

definition update_value ::
  "TxnLogRequest list imap \<Rightarrow> cint \<Rightarrow> TxnLogRequest \<Rightarrow> cint \<times> TxnLogRequest list imap" where
  "update_value d key new_val =
     (case map_find key d of
        Some v \<Rightarrow> (1, map_assign key (v @ [new_val]) d)
      | None \<Rightarrow> (2, map_insert key [new_val] d))"

definition add_to_log :: "TxnLogRequest \<Rightarrow> TxnLogRequest list imap \<Rightarrow> TxnLogRequest list imap" where
  "add_to_log rec d = snd (update_value d (tl_txn_id rec) rec)"

lemma map_ok_update_value: "map_ok d \<Longrightarrow> map_ok (snd (update_value d k r))"
  by (auto simp: update_value_def map_rules split: option.splits)

lemma find_update_value:
  "map_ok d \<Longrightarrow> map_find k' (snd (update_value d k r)) =
     (if k' = k then Some ((case map_find k d of Some v \<Rightarrow> v | None \<Rightarrow> []) @ [r])
      else map_find k' d)"
  by (auto simp: update_value_def map_rules split: option.splits)

section \<open>Files\<close>

definition cust_text :: "cint imap \<Rightarrow> string" where
  "cust_text m = concat (map (\<lambda>(k, v). show_line [k, v]) m)"

definition write_cust_file :: "cint imap \<Rightarrow> disk \<Rightarrow> crash + disk" where
  "write_cust_file m d =
     (if \<not> cust_writable d then Inl ExitProcess
      else Inr (d\<lparr>custRecFile := Some (cust_text m)\<rparr>))"

definition log_text :: "TxnLogRequest list \<Rightarrow> string" where
  "log_text recs = concat (map (\<lambda>rec. show_line [tl_txn_id rec, tl_txn_operation rec,
     tl_customer_id rec, tl_last_order_num rec, tl_customer_opr rec]) recs)"

text \<open>\<^verbatim>\<open>ios_base::app\<close> creates the file when it does not exist.\<close>

definition append_log_file :: "TxnLogRequest list \<Rightarrow> disk \<Rightarrow> crash + disk" where
  "append_log_file recs d =
     (if \<not> log_writable d then Inl ExitProcess
      else Inr (d\<lparr>logFile := Some ((case logFile d of None \<Rightarrow> [] | Some t \<Rightarrow> t) @ log_text recs)\<rparr>))"

definition truncate_log_file :: "disk \<Rightarrow> disk" where
  "truncate_log_file d = (if log_writable d then d\<lparr>logFile := Some []\<rparr> else d)"

text \<open>The reading loops run until the stream fails.\<close>

function read_cust_lines :: "string \<Rightarrow> cint imap \<Rightarrow> cint imap" where
  "read_cust_lines s m =
     (case read_ints 2 s of
        Some ([cust_id, last_order], r) \<Rightarrow> read_cust_lines r (map_insert cust_id last_order m)
      | _ \<Rightarrow> m)"
  by pat_completeness auto
termination
  by (relation "measure (\<lambda>(s, m). length s)") (auto dest: read_ints_shorter)

function read_log_lines :: "string \<Rightarrow> TxnLogRequest list imap \<Rightarrow> TxnLogRequest list imap" where
  "read_log_lines s d =
     (case read_ints 5 s of
        Some ([t, oper, cid, num, cop], r) \<Rightarrow>
          read_log_lines r (add_to_log (mk_TxnLogRequest t oper cid num cop) d)
      | _ \<Rightarrow> d)"
  by pat_completeness auto
termination
  by (relation "measure (\<lambda>(s, d). length s)") (auto dest: read_ints_shorter)

declare read_cust_lines.simps [simp del] read_log_lines.simps [simp del]

section \<open>Reading back what was written\<close>

text \<open>
  The loop over a text that is the concatenation of written lines, in general: one line is read per
  round and the newline it leaves behind is skipped by the next one.
\<close>

lemma read_ints_spaces: "\<forall>c \<in> set sp. is_space c \<Longrightarrow> 0 < n \<Longrightarrow> read_ints n sp = None"
  by (cases n) (simp_all add: read_cint_spaces)

lemma read_cust_text:
  "\<forall>c \<in> set sp. is_space c \<Longrightarrow> read_cust_lines (sp @ cust_text m) d = imap.insert_all m d"
proof (induction m arbitrary: sp d)
  case Nil
  then show ?case
    by (simp add: cust_text_def read_cust_lines.simps [of sp] read_ints_spaces imap.insert_all_def)
next
  case (Cons kv m)
  obtain k v where kv: "kv = (k, v)" by force
  have shape: "sp @ cust_text (kv # m) = sp @ show_line [k, v] @ cust_text m"
    by (simp add: cust_text_def kv)
  have line: "read_ints 2 (sp @ show_line [k, v] @ cust_text m)
      = Some ([k, v], [CHR 0x0A] @ cust_text m)"
    using read_ints_show_line [of "[k, v]" sp "cust_text m"] Cons.prems
    by (simp add: numeral_2_eq_2)
  have "read_cust_lines ([CHR 0x0A] @ cust_text m) (map_insert k v d)
      = imap.insert_all m (map_insert k v d)"
    by (rule Cons.IH) (simp add: is_space_def)
  then show ?case
    unfolding shape
    by (subst read_cust_lines.simps) (simp add: line kv imap.insert_all_def del: show_line.simps)
qed

lemma read_log_text:
  "\<forall>c \<in> set sp. is_space c \<Longrightarrow> read_log_lines (sp @ log_text recs) d = fold add_to_log recs d"
proof (induction recs arbitrary: sp d)
  case Nil
  then show ?case
    by (simp add: log_text_def read_log_lines.simps [of sp] read_ints_spaces)
next
  case (Cons rec recs)
  let ?ws = "[tl_txn_id rec, tl_txn_operation rec, tl_customer_id rec, tl_last_order_num rec,
    tl_customer_opr rec]"
  have shape: "sp @ log_text (rec # recs) = sp @ show_line ?ws @ log_text recs"
    by (simp add: log_text_def)
  have five: "length ?ws = 5" by simp
  have line: "read_ints 5 (sp @ show_line ?ws @ log_text recs)
      = Some (?ws, [CHR 0x0A] @ log_text recs)"
    using read_ints_show_line [of ?ws sp "log_text recs"] Cons.prems
    unfolding five by simp
  have rec: "mk_TxnLogRequest (tl_txn_id rec) (tl_txn_operation rec) (tl_customer_id rec)
      (tl_last_order_num rec) (tl_customer_opr rec) = rec"
    by (cases rec) (simp add: mk_TxnLogRequest_def)
  have "read_log_lines ([CHR 0x0A] @ log_text recs) (add_to_log rec d)
      = fold add_to_log recs (add_to_log rec d)"
    by (rule Cons.IH) (simp add: is_space_def)
  then show ?case
    unfolding shape by (subst read_log_lines.simps) (simp add: line rec del: show_line.simps)
qed

lemma log_text_append: "log_text (xs @ ys) = log_text xs @ log_text ys"
  by (simp add: log_text_def)

lemma map_ok_fold_add: "map_ok d \<Longrightarrow> map_ok (fold add_to_log recs d)"
  by (induction recs arbitrary: d) (auto simp: add_to_log_def map_ok_update_value)

text \<open>Grouping: a transaction's vector holds its records in the order they were logged.\<close>

lemma find_fold_add:
  "map_ok d \<Longrightarrow> map_find t (fold add_to_log recs d) =
     (let new = filter (\<lambda>r. tl_txn_id r = t) recs in
      case map_find t d of
        Some old \<Rightarrow> Some (old @ new)
      | None \<Rightarrow> if new = [] then None else Some new)"
proof (induction recs arbitrary: d)
  case Nil
  then show ?case by (simp split: option.splits)
next
  case (Cons r recs)
  have "map_ok (add_to_log r d)"
    using Cons.prems by (simp add: add_to_log_def map_ok_update_value)
  from Cons.IH [OF this] show ?case
    using Cons.prems
    by (auto simp: Let_def add_to_log_def find_update_value split: option.splits)
qed

end
