(* ===== verification/Messages.thy ===== *)
theory Messages
  imports Prelude
begin

text \<open>
  The message types of \<^verbatim>\<open>Messages.h\<close> and their operations from \<^verbatim>\<open>Messages.cpp\<close>: the records,
  constructors, setters and validity checks, the wire format written by \<^verbatim>\<open>Marshal\<close> (network byte
  order) and the raw memory image the stubs send for the other structures (host byte order). The
  getters are the record selectors. Record fields carry a short prefix, as several classes use the
  same field names.
\<close>

section \<open>CustomerOrder\<close>

record CustomerOrder =
  co_customer_id :: cint
  co_order_number :: cint
  co_request_type :: cint

definition new_CustomerOrder :: CustomerOrder where
  "new_CustomerOrder = \<lparr>co_customer_id = -1, co_order_number = -1, co_request_type = -1\<rparr>"

definition assign_CustomerOrder :: "CustomerOrder \<Rightarrow> CustomerOrder \<Rightarrow> CustomerOrder" where
  "assign_CustomerOrder order this =
     this\<lparr>co_customer_id := co_customer_id order, co_order_number := co_order_number order,
       co_request_type := co_request_type order\<rparr>"

lemma assign_CustomerOrder_eq [simp]: "assign_CustomerOrder order this = order"
  by (simp add: assign_CustomerOrder_def)

definition SetOrder :: "cint \<Rightarrow> cint \<Rightarrow> cint \<Rightarrow> CustomerOrder \<Rightarrow> CustomerOrder" where
  "SetOrder cid order_num rtype order =
     order\<lparr>co_customer_id := cid, co_order_number := order_num, co_request_type := rtype\<rparr>"

definition CustomerOrder_IsValid :: "CustomerOrder \<Rightarrow> bool" where
  "CustomerOrder_IsValid order \<longleftrightarrow> co_customer_id order \<noteq> -1"

definition CustomerOrder_Size :: "CustomerOrder \<Rightarrow> nat" where
  "CustomerOrder_Size order = 4 + 4 + 4"

definition CustomerOrder_Marshal :: "endian \<Rightarrow> CustomerOrder \<Rightarrow> buffer" where
  "CustomerOrder_Marshal e order =
     (let net_customer_id = htonl e (co_customer_id order);
          net_order_number = htonl e (co_order_number order);
          net_request_type = htonl e (co_request_type order)
      in mem_bytes e net_customer_id @ mem_bytes e net_order_number @ mem_bytes e net_request_type)"

definition CustomerOrder_Unmarshal :: "endian \<Rightarrow> buffer \<Rightarrow> CustomerOrder option" where
  "CustomerOrder_Unmarshal e buf =
     (case (read_net e 0 buf, read_net e 4 buf, read_net e 8 buf) of
        (Some c, Some n, Some t) \<Rightarrow>
          Some \<lparr>co_customer_id = c, co_order_number = n, co_request_type = t\<rparr>
      | _ \<Rightarrow> None)"

section \<open>LaptopInfo\<close>

record LaptopInfo =
  li_customer_id :: cint
  li_order_number :: cint
  li_request_type :: cint
  li_engineer_id :: cint
  li_admin_id :: cint

definition new_LaptopInfo :: LaptopInfo where
  "new_LaptopInfo = \<lparr>li_customer_id = -1, li_order_number = -1, li_request_type = -1,
     li_engineer_id = -1, li_admin_id = -1\<rparr>"

definition assign_LaptopInfo :: "LaptopInfo \<Rightarrow> LaptopInfo \<Rightarrow> LaptopInfo" where
  "assign_LaptopInfo info this =
     this\<lparr>li_customer_id := li_customer_id info, li_order_number := li_order_number info,
       li_request_type := li_request_type info, li_engineer_id := li_engineer_id info,
       li_admin_id := li_admin_id info\<rparr>"

lemma assign_LaptopInfo_eq [simp]: "assign_LaptopInfo info this = info"
  by (simp add: assign_LaptopInfo_def)

definition SetInfo ::
  "cint \<Rightarrow> cint \<Rightarrow> cint \<Rightarrow> cint \<Rightarrow> cint \<Rightarrow> LaptopInfo \<Rightarrow> LaptopInfo" where
  "SetInfo cid order_num rtype engid expid info =
     info\<lparr>li_customer_id := cid, li_order_number := order_num, li_request_type := rtype,
       li_engineer_id := engid, li_admin_id := expid\<rparr>"

definition CopyOrder :: "CustomerOrder \<Rightarrow> LaptopInfo \<Rightarrow> LaptopInfo" where
  "CopyOrder order info =
     info\<lparr>li_customer_id := co_customer_id order, li_order_number := co_order_number order,
       li_request_type := co_request_type order\<rparr>"

definition SetEngineerId :: "cint \<Rightarrow> LaptopInfo \<Rightarrow> LaptopInfo" where
  "SetEngineerId i info = info\<lparr>li_engineer_id := i\<rparr>"

definition SetAdminId :: "cint \<Rightarrow> LaptopInfo \<Rightarrow> LaptopInfo" where
  "SetAdminId i info = info\<lparr>li_admin_id := i\<rparr>"

definition LaptopInfo_IsValid :: "LaptopInfo \<Rightarrow> bool" where
  "LaptopInfo_IsValid info \<longleftrightarrow> li_customer_id info \<noteq> -1"

definition LaptopInfo_Size :: "LaptopInfo \<Rightarrow> nat" where
  "LaptopInfo_Size info = 4 + 4 + 4 + 4 + 4"

definition LaptopInfo_Marshal :: "endian \<Rightarrow> LaptopInfo \<Rightarrow> buffer" where
  "LaptopInfo_Marshal e info =
     (let net_customer_id = htonl e (li_customer_id info);
          net_order_number = htonl e (li_order_number info);
          net_request_type = htonl e (li_request_type info);
          net_engineer_id = htonl e (li_engineer_id info);
          net_admin_id = htonl e (li_admin_id info)
      in mem_bytes e net_customer_id @ mem_bytes e net_order_number @ mem_bytes e net_request_type
         @ mem_bytes e net_engineer_id @ mem_bytes e net_admin_id)"

definition LaptopInfo_Unmarshal :: "endian \<Rightarrow> buffer \<Rightarrow> LaptopInfo option" where
  "LaptopInfo_Unmarshal e buf =
     (case (read_net e 0 buf, read_net e 4 buf, read_net e 8 buf, read_net e 12 buf,
            read_net e 16 buf) of
        (Some c, Some n, Some t, Some g, Some a) \<Rightarrow>
          Some \<lparr>li_customer_id = c, li_order_number = n, li_request_type = t,
                li_engineer_id = g, li_admin_id = a\<rparr>
      | _ \<Rightarrow> None)"

section \<open>CustomerRecord, MapOp, ReplicationRequest, peer descriptions\<close>

record CustomerRecord =
  cr_customer_id :: cint
  cr_last_order :: cint

definition new_CustomerRecord :: CustomerRecord where
  "new_CustomerRecord = \<lparr>cr_customer_id = -1, cr_last_order = -1\<rparr>"

definition mk_CustomerRecord :: "cint \<Rightarrow> cint \<Rightarrow> CustomerRecord" where
  [simp]: "mk_CustomerRecord cid lo = \<lparr>cr_customer_id = cid, cr_last_order = lo\<rparr>"

definition setCustomerId :: "cint \<Rightarrow> CustomerRecord \<Rightarrow> CustomerRecord" where
  "setCustomerId cid r = r\<lparr>cr_customer_id := cid\<rparr>"

definition setLastOrder :: "cint \<Rightarrow> CustomerRecord \<Rightarrow> CustomerRecord" where
  "setLastOrder num r = r\<lparr>cr_last_order := num\<rparr>"

definition CustomerRecord_Size :: "CustomerRecord \<Rightarrow> nat" where
  "CustomerRecord_Size r = 4 + 4"

record MapOp =
  opcode :: cint
  arg1 :: cint
  arg2 :: cint

record ReplicationRequest =
  rr_factory_id :: cint
  rr_committed_index :: cint
  rr_last_index :: cint
  rr_oprn :: MapOp

text \<open>The default constructor leaves \<^verbatim>\<open>oprn\<close> uninitialised: it is a parameter.\<close>

definition new_ReplicationRequest :: "MapOp \<Rightarrow> ReplicationRequest" where
  "new_ReplicationRequest uninit =
     \<lparr>rr_factory_id = -1, rr_committed_index = -1, rr_last_index = -1, rr_oprn = uninit\<rparr>"

definition mk_ReplicationRequest :: "cint \<Rightarrow> cint \<Rightarrow> cint \<Rightarrow> MapOp \<Rightarrow> ReplicationRequest" where
  "mk_ReplicationRequest fid cidx lidx op1 =
     \<lparr>rr_factory_id = fid, rr_committed_index = cidx, rr_last_index = lidx, rr_oprn = op1\<rparr>"

record peer_servers_info =
  peer_id :: cint
  peer_ip :: string
  peer_port :: cint
  peer_backup_ip :: string
  peer_backup_port :: cint

section \<open>Transaction\<close>

record Transaction =
  txn_id :: cint
  lenReadRecords :: cint
  lenWriteRecords :: cint
  readRecords :: "CustomerRecord list"
  writeRecords :: "CustomerOrder list"

text \<open>
  Neither constructor initialises the three integers; they are a parameter \<open>(id, lenR, lenW)\<close>.
\<close>

definition new_Transaction ::
  "cint \<times> cint \<times> cint \<Rightarrow> CustomerRecord list \<Rightarrow> CustomerOrder list \<Rightarrow> Transaction" where
  "new_Transaction uninit reads writes =
     \<lparr>txn_id = fst uninit, lenReadRecords = fst (snd uninit), lenWriteRecords = snd (snd uninit),
      readRecords = reads, writeRecords = writes\<rparr>"

definition setTxnId :: "cint \<Rightarrow> Transaction \<Rightarrow> Transaction" where
  "setTxnId i t = t\<lparr>txn_id := i\<rparr>"

definition setLenReadRecords :: "cint \<Rightarrow> Transaction \<Rightarrow> Transaction" where
  "setLenReadRecords n t = t\<lparr>lenReadRecords := n\<rparr>"

definition setLenWriteRecords :: "cint \<Rightarrow> Transaction \<Rightarrow> Transaction" where
  "setLenWriteRecords n t = t\<lparr>lenWriteRecords := n\<rparr>"

text \<open>
  \<^verbatim>\<open>Size\<close> adds and multiplies in \<^verbatim>\<open>size_t\<close> (64 bit), the lengths sign-extended, and returns the
  low 32 bits as an \<^verbatim>\<open>int\<close>.
\<close>

definition Transaction_Size :: "Transaction \<Rightarrow> cint" where
  "Transaction_Size t =
     ucast (4 + 4 + 4 + 8 * (scast (lenReadRecords t) :: 64 word)
       + 12 * (scast (lenWriteRecords t) :: 64 word))"

definition marshal_record :: "endian \<Rightarrow> CustomerRecord \<Rightarrow> buffer" where
  "marshal_record e r =
     mem_bytes e (htonl e (cr_customer_id r)) @ mem_bytes e (htonl e (cr_last_order r))"

definition marshal_order :: "endian \<Rightarrow> CustomerOrder \<Rightarrow> buffer" where
  "marshal_order e r =
     mem_bytes e (htonl e (co_customer_id r)) @ mem_bytes e (htonl e (co_order_number r))
     @ mem_bytes e (htonl e (co_request_type r))"

definition Transaction_Marshal :: "endian \<Rightarrow> Transaction \<Rightarrow> buffer" where
  "Transaction_Marshal e t =
     mem_bytes e (htonl e (txn_id t)) @ mem_bytes e (htonl e (lenReadRecords t))
     @ mem_bytes e (htonl e (lenWriteRecords t))
     @ concat (map (marshal_record e) (readRecords t))
     @ concat (map (marshal_order e) (writeRecords t))"

text \<open>
  The two loops of \<^verbatim>\<open>Unmarshal\<close>: they start at a given offset, run as often as the (signed)
  count says, and \<^verbatim>\<open>push_back\<close> to the vector. \<open>None\<close>: a read outside the buffer.
\<close>

fun unmarshal_records ::
  "endian \<Rightarrow> nat \<Rightarrow> nat \<Rightarrow> buffer \<Rightarrow> CustomerRecord list \<Rightarrow> (CustomerRecord list \<times> nat) option" where
  "unmarshal_records e 0 off buf acc = Some (acc, off)"
| "unmarshal_records e (Suc n) off buf acc =
     (case (read_net e off buf, read_net e (off + 4) buf) of
        (Some c, Some l) \<Rightarrow>
          unmarshal_records e n (off + 8) buf (acc @ [mk_CustomerRecord c l])
      | _ \<Rightarrow> None)"

fun unmarshal_orders ::
  "endian \<Rightarrow> nat \<Rightarrow> nat \<Rightarrow> buffer \<Rightarrow> CustomerOrder list \<Rightarrow> (CustomerOrder list \<times> nat) option" where
  "unmarshal_orders e 0 off buf acc = Some (acc, off)"
| "unmarshal_orders e (Suc n) off buf acc =
     (case (read_net e off buf, read_net e (off + 4) buf, read_net e (off + 8) buf) of
        (Some c, Some m, Some t) \<Rightarrow>
          unmarshal_orders e n (off + 12) buf (acc @ [SetOrder c m t new_CustomerOrder])
      | _ \<Rightarrow> None)"

definition Transaction_Unmarshal :: "endian \<Rightarrow> buffer \<Rightarrow> Transaction \<Rightarrow> Transaction option" where
  "Transaction_Unmarshal e buf t =
     (case (read_net e 0 buf, read_net e 4 buf, read_net e 8 buf) of
        (Some i, Some lr, Some lw) \<Rightarrow>
          (case unmarshal_records e (nat (sint lr)) 12 buf (readRecords t) of
             None \<Rightarrow> None
           | Some (rs, off) \<Rightarrow>
             (case unmarshal_orders e (nat (sint lw)) off buf (writeRecords t) of
                None \<Rightarrow> None
              | Some (ws, _) \<Rightarrow>
                Some (t\<lparr>txn_id := i, lenReadRecords := lr, lenWriteRecords := lw,
                        readRecords := rs, writeRecords := ws\<rparr>)))
      | _ \<Rightarrow> None)"

section \<open>Raw memory images\<close>

text \<open>
  \<^verbatim>\<open>CustomerOrder\<close>, \<^verbatim>\<open>CustomerRecord\<close>, \<^verbatim>\<open>LaptopInfo\<close> and \<^verbatim>\<open>ReplicationRequest\<close> are also sent as
  they lie in memory: \<^verbatim>\<open>void *p = &order; Send(p, sizeof(CustomerOrder))\<close>. They consist of
  \<^verbatim>\<open>int\<close>s only, so there is no padding. The casts back read a buffer of exactly that size.
\<close>

definition raw_order :: "endian \<Rightarrow> CustomerOrder \<Rightarrow> buffer" where
  "raw_order e r = mem_bytes e (co_customer_id r) @ mem_bytes e (co_order_number r)
     @ mem_bytes e (co_request_type r)"

definition unraw_order :: "endian \<Rightarrow> buffer \<Rightarrow> CustomerOrder" where
  "unraw_order e b = \<lparr>co_customer_id = mem_word e (take 4 b),
     co_order_number = mem_word e (take 4 (drop 4 b)),
     co_request_type = mem_word e (take 4 (drop 8 b))\<rparr>"

definition raw_record :: "endian \<Rightarrow> CustomerRecord \<Rightarrow> buffer" where
  "raw_record e r = mem_bytes e (cr_customer_id r) @ mem_bytes e (cr_last_order r)"

definition unraw_record :: "endian \<Rightarrow> buffer \<Rightarrow> CustomerRecord" where
  "unraw_record e b = \<lparr>cr_customer_id = mem_word e (take 4 b),
     cr_last_order = mem_word e (take 4 (drop 4 b))\<rparr>"

definition raw_laptop :: "endian \<Rightarrow> LaptopInfo \<Rightarrow> buffer" where
  "raw_laptop e r = mem_bytes e (li_customer_id r) @ mem_bytes e (li_order_number r)
     @ mem_bytes e (li_request_type r) @ mem_bytes e (li_engineer_id r)
     @ mem_bytes e (li_admin_id r)"

definition unraw_laptop :: "endian \<Rightarrow> buffer \<Rightarrow> LaptopInfo" where
  "unraw_laptop e b = \<lparr>li_customer_id = mem_word e (take 4 b),
     li_order_number = mem_word e (take 4 (drop 4 b)),
     li_request_type = mem_word e (take 4 (drop 8 b)),
     li_engineer_id = mem_word e (take 4 (drop 12 b)),
     li_admin_id = mem_word e (take 4 (drop 16 b))\<rparr>"

definition raw_replication :: "endian \<Rightarrow> ReplicationRequest \<Rightarrow> buffer" where
  "raw_replication e r = mem_bytes e (rr_factory_id r) @ mem_bytes e (rr_committed_index r)
     @ mem_bytes e (rr_last_index r) @ mem_bytes e (opcode (rr_oprn r))
     @ mem_bytes e (arg1 (rr_oprn r)) @ mem_bytes e (arg2 (rr_oprn r))"

definition unraw_replication :: "endian \<Rightarrow> buffer \<Rightarrow> ReplicationRequest" where
  "unraw_replication e b = \<lparr>rr_factory_id = mem_word e (take 4 b),
     rr_committed_index = mem_word e (take 4 (drop 4 b)),
     rr_last_index = mem_word e (take 4 (drop 8 b)),
     rr_oprn = \<lparr>opcode = mem_word e (take 4 (drop 12 b)),
       arg1 = mem_word e (take 4 (drop 16 b)), arg2 = mem_word e (take 4 (drop 20 b))\<rparr>\<rparr>"

section \<open>Codecs\<close>

text \<open>
  The interface the stubs rely on: a structure has an encoding of a fixed number of bytes, and the
  decoder reads it back from the front of a buffer.
\<close>

locale fixed_codec =
  fixes enc :: "'a \<Rightarrow> buffer" and dec :: "buffer \<Rightarrow> 'a" and size_of :: nat
  assumes length_enc [simp]: "length (enc x) = size_of"
    and dec_enc [simp]: "dec (enc x @ rest) = x"
    and size_pos: "0 < size_of"
begin

lemma dec_enc_exact [simp]: "dec (enc x) = x"
  using dec_enc [of x "[]"] by simp

lemma dec_take: "size_of \<le> n \<Longrightarrow> dec (take n (enc x @ rest)) = x"
  by simp

lemma enc_inj: "enc x = enc y \<Longrightarrow> x = y"
  by (metis dec_enc_exact)

lemma enc_nonempty [simp]: "enc x \<noteq> []"
  using length_enc [of x] size_pos by (metis list.size(3) less_numeral_extra(3))

text \<open>A stream of encoded values splits back into the values.\<close>

lemma dec_stream: "i < length xs \<Longrightarrow> dec (drop (i * size_of) (concat (map enc xs) @ rest)) = xs ! i"
proof (induction xs arbitrary: i)
  case Nil
  then show ?case by simp
next
  case (Cons x xs)
  then show ?case by (cases i) auto
qed

end

lemma take_mem_bytes [simp]: "take 4 (mem_bytes e w @ rest) = mem_bytes e w"
  by simp

lemma drop_mem_bytes: "4 \<le> n \<Longrightarrow> drop n (mem_bytes e w @ rest) = drop (n - 4) rest"
  by simp

interpretation raw_order: fixed_codec "raw_order e" "unraw_order e" 12 for e
  by unfold_locales (simp_all add: raw_order_def unraw_order_def)

interpretation raw_record: fixed_codec "raw_record e" "unraw_record e" 8 for e
  by unfold_locales (simp_all add: raw_record_def unraw_record_def)

interpretation raw_laptop: fixed_codec "raw_laptop e" "unraw_laptop e" 20 for e
  by unfold_locales (simp_all add: raw_laptop_def unraw_laptop_def)

interpretation raw_replication: fixed_codec "raw_replication e" "unraw_replication e" 24 for e
  by unfold_locales (simp_all add: raw_replication_def unraw_replication_def)

section \<open>Marshalling round trips\<close>

lemmas net_encoding = mem_bytes_htonl read_net_at_0

lemma read_net_skip [codec_simps]:
  "4 \<le> off \<Longrightarrow> read_net e off (net_bytes w @ rest) = read_net e (off - 4) rest"
  by (auto simp: read_net_def read_raw_def)

lemma read_net_last [codec_simps]: "read_net e 0 (net_bytes w) = Some w"
  using read_net_at_0 [of e w "[]"] by simp

text \<open>
  Orders and laptops in the marshalled form: the sender's and the receiver's byte order do not matter, and
  the number of bytes is what \<^verbatim>\<open>Size\<close> says.
\<close>

lemma CustomerOrder_Unmarshal_Marshal:
  "CustomerOrder_Unmarshal e' (CustomerOrder_Marshal e order @ rest) = Some order"
  by (simp add: CustomerOrder_Unmarshal_def CustomerOrder_Marshal_def Let_def mem_bytes_htonl
      read_net_skip read_net_at_0 read_net_last)

lemma LaptopInfo_Unmarshal_Marshal:
  "LaptopInfo_Unmarshal e' (LaptopInfo_Marshal e info @ rest) = Some info"
  by (simp add: LaptopInfo_Unmarshal_def LaptopInfo_Marshal_def Let_def mem_bytes_htonl
      read_net_skip read_net_at_0 read_net_last)

interpretation net_order: fixed_codec "CustomerOrder_Marshal e" "\<lambda>b. the (CustomerOrder_Unmarshal e' b)"
  "CustomerOrder_Size order" for e e' order
  by unfold_locales (simp_all add: CustomerOrder_Unmarshal_Marshal,
    simp_all add: CustomerOrder_Marshal_def CustomerOrder_Size_def Let_def)

interpretation net_laptop: fixed_codec "LaptopInfo_Marshal e" "\<lambda>b. the (LaptopInfo_Unmarshal e' b)"
  "LaptopInfo_Size info" for e e' info
  by unfold_locales (simp_all add: LaptopInfo_Unmarshal_Marshal,
    simp_all add: LaptopInfo_Marshal_def LaptopInfo_Size_def Let_def)

lemma read_net_prefix: "length pre = off \<Longrightarrow> read_net e (off + k) (pre @ buf) = read_net e k buf"
  by (auto simp: read_net_def read_raw_def)

lemma read_net_prefix0: "length pre = off \<Longrightarrow> read_net e off (pre @ buf) = read_net e 0 buf"
  using read_net_prefix [of pre off e 0 buf] by simp

lemma SetOrder_fields [simp]:
  "SetOrder (co_customer_id r) (co_order_number r) (co_request_type r) x = r"
  by (cases r; cases x) (simp add: SetOrder_def)

lemma record_fields [simp]:
  "\<lparr>cr_customer_id = cr_customer_id r, cr_last_order = cr_last_order r\<rparr> = r"
  by (cases r) simp

lemma length_marshal [simp]:
  "length (marshal_record e r) = 8" "length (marshal_order e w) = 12"
  by (simp_all add: marshal_record_def marshal_order_def)

lemma length_concat_const: "(\<And>x. length (f x) = n) \<Longrightarrow> length (concat (map f xs)) = n * length xs"
  by (induction xs) auto

lemma unmarshal_records_marshal:
  "length pre = off \<Longrightarrow>
   unmarshal_records e (length rs) off (pre @ concat (map (marshal_record e') rs) @ rest) acc
     = Some (acc @ rs, off + 8 * length rs)"
proof (induction rs arbitrary: pre off acc)
  case Nil
  then show ?case by simp
next
  case (Cons r rs)
  have "unmarshal_records e (length rs) (off + 8)
      ((pre @ marshal_record e' r) @ concat (map (marshal_record e') rs) @ rest) (acc @ [r])
      = Some ((acc @ [r]) @ rs, (off + 8) + 8 * length rs)"
    by (rule Cons.IH) (simp add: Cons.prems)
  then show ?case
    by (simp add: marshal_record_def [of e' r] net_encoding read_net_prefix [OF Cons.prems]
        read_net_prefix0 [OF Cons.prems] read_net_skip add.assoc)
qed

lemma unmarshal_orders_marshal:
  "length pre = off \<Longrightarrow>
   unmarshal_orders e (length rs) off (pre @ concat (map (marshal_order e') rs) @ rest) acc
     = Some (acc @ rs, off + 12 * length rs)"
proof (induction rs arbitrary: pre off acc)
  case Nil
  then show ?case by simp
next
  case (Cons r rs)
  have "unmarshal_orders e (length rs) (off + 12)
      ((pre @ marshal_order e' r) @ concat (map (marshal_order e') rs) @ rest) (acc @ [r])
      = Some ((acc @ [r]) @ rs, (off + 12) + 12 * length rs)"
    by (rule Cons.IH) (simp add: Cons.prems)
  then show ?case
    by (simp add: marshal_order_def [of e' r] net_encoding read_net_prefix [OF Cons.prems]
        read_net_prefix0 [OF Cons.prems] read_net_skip add.assoc)
qed

lemma length_Transaction_Marshal:
  "length (Transaction_Marshal e t) = 12 + 8 * length (readRecords t) + 12 * length (writeRecords t)"
  by (simp add: Transaction_Marshal_def length_concat_const)

text \<open>A transaction whose length fields are those of its vectors, as \<^verbatim>\<open>main\<close> of the client sets them.\<close>

definition lengths_ok :: "Transaction \<Rightarrow> bool" where
  "lengths_ok t \<longleftrightarrow> sint (lenReadRecords t) = int (length (readRecords t))
     \<and> sint (lenWriteRecords t) = int (length (writeRecords t))"

lemma Transaction_Unmarshal_Marshal:
  assumes "lengths_ok t" and "readRecords t0 = []" and "writeRecords t0 = []"
  shows "Transaction_Unmarshal e' (Transaction_Marshal e t @ rest) t0 = Some t"
proof -
  let ?hdr = "net_bytes (txn_id t) @ net_bytes (lenReadRecords t) @ net_bytes (lenWriteRecords t)"
  let ?rs = "concat (map (marshal_record e) (readRecords t))"
  let ?ws = "concat (map (marshal_order e) (writeRecords t))"
  have n: "nat (sint (lenReadRecords t)) = length (readRecords t)"
    "nat (sint (lenWriteRecords t)) = length (writeRecords t)"
    using assms(1) by (simp_all add: lengths_ok_def)
  have buf: "Transaction_Marshal e t @ rest = ?hdr @ ?rs @ ?ws @ rest"
    by (simp add: Transaction_Marshal_def mem_bytes_htonl)
  have rs: "unmarshal_records e' (length (readRecords t)) 12 (?hdr @ ?rs @ ?ws @ rest) []
      = Some (readRecords t, 12 + 8 * length (readRecords t))"
    using unmarshal_records_marshal [of ?hdr 12 e' "readRecords t" e "?ws @ rest" "[]"] by simp
  have ws: "unmarshal_orders e' (length (writeRecords t)) (12 + 8 * length (readRecords t))
      (?hdr @ ?rs @ ?ws @ rest) [] = Some (writeRecords t,
        12 + 8 * length (readRecords t) + 12 * length (writeRecords t))"
    using unmarshal_orders_marshal [of "?hdr @ ?rs" "12 + 8 * length (readRecords t)" e'
        "writeRecords t" e rest "[]"]
    by (simp add: length_concat_const)
  have hdr: "read_net e' 0 (?hdr @ ?rs @ ?ws @ rest) = Some (txn_id t)"
    "read_net e' 4 (?hdr @ ?rs @ ?ws @ rest) = Some (lenReadRecords t)"
    "read_net e' 8 (?hdr @ ?rs @ ?ws @ rest) = Some (lenWriteRecords t)"
    by (simp_all add: codec_simps)
  show ?thesis
    unfolding buf Transaction_Unmarshal_def hdr option.case prod.case n assms(2,3) rs ws
    by simp
qed

end
