(* ===== verification/Sockets.thy ===== *)
theory Sockets
  imports Prelude
begin

text \<open>
  \<^verbatim>\<open>Socket.cpp\<close>, \<^verbatim>\<open>ClientSocket.cpp\<close> and \<^verbatim>\<open>ServerSocket.cpp\<close>. The kernel is outside the
  repository: what it will do is a script held in the socket's state. \<open>rx\<close> is what the following
  \<^verbatim>\<open>recv\<close> calls deliver (a segment of the byte stream, cut to the size asked for, or an error; the
  end of the script is the peer's orderly close), \<open>tx\<close> how many bytes each \<^verbatim>\<open>send\<close> takes (once the
  script is used up, all of them), \<open>dials\<close> how each \<^verbatim>\<open>connect\<close> ends. \<open>sent\<close> is the stream of bytes
  handed to the kernel. Theorems quantify over the scripts, so they hold for every segmentation and
  every failure. One \<^verbatim>\<open>recv\<close> returns bytes of one segment only, and no script is a connection that stays open
  without sending: there \<^verbatim>\<open>recv\<close> would not return. Memory the program reads without having written it is \<open>junk\<close>; \<open>mem_ok\<close> says
  whether \<^verbatim>\<open>malloc\<close> succeeds. A write to a broken connection is the error return \<open>-1\<close>; the signal
  SIGPIPE is not modelled. The descriptor itself is not modelled: a closed or never opened one is
  \<open>is_initialized = False\<close>, and system calls on it fail.
\<close>

datatype rx_event = Segment buffer | RecvError
datatype tx_event = Accept nat | SendError
datatype dial = NoSocket | Refused | Established "rx_event list" "tx_event list"

record Socket =
  host :: endian
  mem_ok :: bool
  junk :: buffer
  is_initialized :: bool
  nagle :: cint
  rx :: "rx_event list"
  tx :: "tx_event list"
  sent :: buffer

definition NAGLE_ON :: cint where
  "NAGLE_ON = 0"

definition NAGLE_OFF :: cint where
  "NAGLE_OFF = 1"

text \<open>The constructor, on a machine with byte order \<open>e\<close>.\<close>

definition new_Socket :: "endian \<Rightarrow> bool \<Rightarrow> buffer \<Rightarrow> Socket" where
  "new_Socket e m j = \<lparr>host = e, mem_ok = m, junk = j, is_initialized = False, nagle = NAGLE_ON,
     rx = [], tx = [], sent = []\<rparr>"

text \<open>Fresh, unwritten memory of \<open>n\<close> bytes, and a buffer whose front has been overwritten.\<close>

definition fresh :: "nat \<Rightarrow> ('a) Socket_scheme \<Rightarrow> buffer" where
  "fresh n s = take n (junk s @ replicate n NUL)"

definition overlay :: "buffer \<Rightarrow> buffer \<Rightarrow> buffer" where
  "overlay got buf = got @ drop (length got) buf"

lemma length_fresh [simp]: "length (fresh n s) = n"
  by (simp add: fresh_def)

lemma overlay_full: "length got = length buf \<Longrightarrow> overlay got buf = got"
  by (simp add: overlay_def)

section \<open>System calls\<close>

definition sys_recv :: "nat \<Rightarrow> ('a) Socket_scheme \<Rightarrow> int \<times> buffer \<times> ('a) Socket_scheme" where
  "sys_recv n s =
     (if \<not> is_initialized s then (-1, [], s)
      else case rx s of
        [] \<Rightarrow> (0, [], s)
      | RecvError # r \<Rightarrow> (-1, [], s\<lparr>rx := r\<rparr>)
      | Segment c # r \<Rightarrow>
          if length c \<le> n then (int (length c), c, s\<lparr>rx := r\<rparr>)
          else (int n, take n c, s\<lparr>rx := Segment (drop n c) # r\<rparr>))"

definition sys_send :: "buffer \<Rightarrow> ('a) Socket_scheme \<Rightarrow> int \<times> ('a) Socket_scheme" where
  "sys_send data s =
     (if \<not> is_initialized s then (-1, s)
      else case tx s of
        [] \<Rightarrow> (int (length data), s\<lparr>sent := sent s @ data\<rparr>)
      | SendError # t \<Rightarrow> (-1, s\<lparr>tx := t\<rparr>)
      | Accept k # t \<Rightarrow>
          (int (length (take k data)), s\<lparr>tx := t, sent := sent s @ take k data\<rparr>))"

section \<open>Socket\<close>

definition Close :: "('a) Socket_scheme \<Rightarrow> ('a) Socket_scheme" where
  "Close s = s\<lparr>is_initialized := False\<rparr>"

definition destroy_Socket :: "('a) Socket_scheme \<Rightarrow> ('a) Socket_scheme" where
  "destroy_Socket s = (if is_initialized s then Close s else s)"

definition getIsInitialized :: "('a) Socket_scheme \<Rightarrow> bool" where
  "getIsInitialized s = is_initialized s"

lemma sys_send_progress:
  "sys_send data s = (r, s') \<Longrightarrow> data \<noteq> [] \<Longrightarrow> \<not> r < 0 \<Longrightarrow>
     length (drop (nat r) data) + length (tx s') < length data + length (tx s)"
  by (auto simp: sys_send_def split: if_splits list.splits tx_event.splits)

text \<open>
  \<^verbatim>\<open>int Send(char *buffer, int size, int flags)\<close>: the loop over \<^verbatim>\<open>send\<close>. \<open>data\<close> is what is left
  of the buffer.
\<close>

function Send :: "buffer \<Rightarrow> ('a) Socket_scheme \<Rightarrow> int \<times> ('a) Socket_scheme" where
  "Send data s =
     (if data = [] then (1, s)
      else case sys_send data s of (bytes_written, s') \<Rightarrow>
        if bytes_written < 0 then (0, Close s')
        else Send (drop (nat bytes_written) data) s')"
  by pat_completeness auto
termination
  by (relation "measure (\<lambda>(data, s). length data + length (tx s))")
    (auto dest: sys_send_progress [OF sym])

declare Send.simps [simp del]

lemma Send_Nil [simp]: "Send [] s = (1, s)"
  by (simp add: Send.simps)

text \<open>\<^verbatim>\<open>int Send(void *buffer, int size)\<close>: one call of \<^verbatim>\<open>send\<close>.\<close>

definition Send_once :: "buffer \<Rightarrow> ('a) Socket_scheme \<Rightarrow> int \<times> ('a) Socket_scheme" where
  "Send_once data s =
     (case sys_send data s of (bytes_written, s') \<Rightarrow>
        (bytes_written, if bytes_written < 0 then Close s' else s'))"

lemma sys_recv_progress:
  "sys_recv n s = (r, got, s') \<Longrightarrow> \<not> r \<le> 0 \<Longrightarrow> 0 < nat r \<and> nat r \<le> n"
  by (auto simp: sys_recv_def split: if_splits list.splits rx_event.splits)

text \<open>
  \<^verbatim>\<open>int Recv(char *buffer, int size, int flags)\<close>: the loop over \<^verbatim>\<open>recv\<close>; \<open>acc\<close> is what has been
  written to the buffer so far, \<open>n\<close> the size still to come.
\<close>

function Recv :: "nat \<Rightarrow> buffer \<Rightarrow> ('a) Socket_scheme \<Rightarrow> int \<times> buffer \<times> ('a) Socket_scheme" where
  "Recv n acc s =
     (if n = 0 then (1, acc, s)
      else case sys_recv n s of (bytes_read, got, s') \<Rightarrow>
        if bytes_read \<le> 0 then (0, acc, Close s')
        else Recv (n - nat bytes_read) (acc @ got) s')"
  by pat_completeness auto
termination
  by (relation "measure (\<lambda>(n, acc, s). n)") (auto dest!: sys_recv_progress [OF sym])

declare Recv.simps [simp del]

lemma Recv_0 [simp]: "Recv 0 acc s = (1, acc, s)"
  by (simp add: Recv.simps)

text \<open>\<^verbatim>\<open>int Recv(void *buffer, int size)\<close>: one call of \<^verbatim>\<open>recv\<close>.\<close>

definition Recv_once :: "nat \<Rightarrow> ('a) Socket_scheme \<Rightarrow> int \<times> buffer \<times> ('a) Socket_scheme" where
  "Recv_once n s =
     (case sys_recv n s of (bytes_read, got, s') \<Rightarrow>
        (bytes_read, got, if bytes_read \<le> 0 then Close s' else s'))"

text \<open>\<^verbatim>\<open>NagleOn\<close> stores the option; \<open>ok\<close> is the outcome of \<^verbatim>\<open>setsockopt\<close>.\<close>

definition NagleOn :: "bool \<Rightarrow> bool \<Rightarrow> ('a) Socket_scheme \<Rightarrow> cint \<times> ('a) Socket_scheme" where
  "NagleOn on_off ok s =
     (if ok then 1 else 0, s\<lparr>nagle := (if on_off then NAGLE_ON else NAGLE_OFF)\<rparr>)"

definition IsNagleOn :: "('a) Socket_scheme \<Rightarrow> bool" where
  "IsNagleOn s \<longleftrightarrow> nagle s = NAGLE_ON"

definition writeInt :: "cint \<Rightarrow> ('a) Socket_scheme \<Rightarrow> int \<times> ('a) Socket_scheme" where
  "writeInt number s = sys_send (mem_bytes (host s) (htonl (host s) number)) s"

text \<open>
  \<^verbatim>\<open>readInt\<close> has no return on its error path: \<open>Inl Undefined\<close>. The variable it reads into starts
  as 0, so the bytes of a short read are completed with zero bytes.
\<close>

definition readInt :: "('a) Socket_scheme \<Rightarrow> crash + cint \<times> ('a) Socket_scheme" where
  "readInt s =
     (case sys_recv 4 s of (return_status, got, s') \<Rightarrow>
        if return_status > 0
        then Inr (ntohl (host s) (mem_word (host s) (overlay got (mem_bytes (host s) 0))), s')
        else Inl Undefined)"

section \<open>ClientSocket\<close>

record ClientSocket = Socket +
  dials :: "dial list"
  target :: "string \<times> cint"

definition new_ClientSocket :: "endian \<Rightarrow> bool \<Rightarrow> buffer \<Rightarrow> dial list \<Rightarrow> ClientSocket" where
  "new_ClientSocket e m j d = Socket.extend (new_Socket e m j) (ClientSocket.fields d ([], 0))"

text \<open>An exhausted script of connection attempts is a refused connection.\<close>

definition ClientSocket_Init :: "string \<Rightarrow> cint \<Rightarrow> ClientSocket \<Rightarrow> cint \<times> ClientSocket" where
  "ClientSocket_Init ip port s =
     (if is_initialized s then (0, s)
      else case dials s of
        [] \<Rightarrow> (0, s)
      | NoSocket # d \<Rightarrow> (0, s\<lparr>dials := d\<rparr>)
      | Refused # d \<Rightarrow> (0, s\<lparr>dials := d\<rparr>)
      | Established r t # d \<Rightarrow>
          (1, s\<lparr>is_initialized := True, rx := r, tx := t, sent := [], dials := d,
                target := (ip, port)\<rparr>))"

section \<open>ServerSocket\<close>

text \<open>
  A listening socket: \<open>backlog\<close> scripts the results of \<^verbatim>\<open>accept\<close> (a failed call is \<open>None\<close>), and
  \<open>socket_ok\<close>, \<open>bind_ok\<close> those of \<^verbatim>\<open>socket\<close> and \<^verbatim>\<open>bind\<close>. A connected one leaves them unused.
\<close>

record ServerSocket = Socket +
  socket_ok :: bool
  bind_ok :: bool
  backlog :: "(rx_event list \<times> tx_event list) option list"

definition ServerSocket_Init :: "cint \<Rightarrow> ServerSocket \<Rightarrow> bool \<times> ServerSocket" where
  "ServerSocket_Init port s =
     (if is_initialized s then (True, s)
      else if \<not> socket_ok s then (False, s)
      else if \<not> bind_ok s then (False, s)
      else (True, s\<lparr>is_initialized := True\<rparr>))"

text \<open>\<^verbatim>\<open>ServerSocket(int fd, bool nagle_on)\<close> for an accepted connection.\<close>

definition new_ServerSocket ::
  "endian \<Rightarrow> bool \<Rightarrow> buffer \<Rightarrow> rx_event list \<times> tx_event list \<Rightarrow> bool \<Rightarrow> ServerSocket" where
  "new_ServerSocket e m j conn nagle_on =
     snd (NagleOn nagle_on True
       (Socket.extend ((new_Socket e m j)\<lparr>is_initialized := True, rx := fst conn, tx := snd conn\<rparr>)
         (ServerSocket.fields True True [])))"

definition Accept_conn :: "ServerSocket \<Rightarrow> ServerSocket option \<times> ServerSocket" where
  "Accept_conn s =
     (case backlog s of
        [] \<Rightarrow> (None, s)
      | None # b \<Rightarrow> (None, s\<lparr>backlog := b\<rparr>)
      | Some conn # b \<Rightarrow>
          (Some (new_ServerSocket (host s) (mem_ok s) (junk s) conn (IsNagleOn s)),
           s\<lparr>backlog := b\<rparr>))"

section \<open>What the loops deliver\<close>

text \<open>The bytes that arrive before the end of the stream or the first error.\<close>

fun pending :: "rx_event list \<Rightarrow> buffer" where
  "pending [] = []"
| "pending (RecvError # r) = []"
| "pending (Segment c # r) = (if c = [] then [] else c @ pending r)"

lemma sys_recv_pending:
  assumes "is_initialized s" and "pending (rx s) \<noteq> []" and "0 < n"
  obtains k r' where "0 < k" "k \<le> n" "k \<le> length (pending (rx s))"
    "sys_recv n s = (int k, take k (pending (rx s)), s\<lparr>rx := r'\<rparr>)"
    "pending r' = drop k (pending (rx s))"
proof -
  from assms(2) obtain c r where c: "rx s = Segment c # r" "c \<noteq> []"
    by (cases "rx s" rule: pending.cases) (auto split: if_splits)
  show ?thesis
  proof (cases "length c \<le> n")
    case True
    then show ?thesis
      using c assms(1) by (intro that [of "length c" r]) (auto simp: sys_recv_def)
  next
    case False
    then show ?thesis
      using c assms(1,3)
      by (intro that [of n "Segment (drop n c) # r"]) (auto simp: sys_recv_def)
  qed
qed

lemma sys_recv_drained:
  assumes "is_initialized s" and "pending (rx s) = []"
  obtains v s' where "sys_recv n s = (v, [], s')" "v \<le> 0"
    "s' = s\<lparr>rx := rx s'\<rparr>"
proof (cases "rx s" rule: pending.cases)
  case 1
  then show ?thesis using assms that [of 0 s] by (simp add: sys_recv_def)
next
  case (2 r)
  then show ?thesis using assms that [of "-1" "s\<lparr>rx := r\<rparr>"] by (simp add: sys_recv_def)
next
  case (3 c r)
  then show ?thesis
    using assms that [of 0 "s\<lparr>rx := r\<rparr>"] by (auto simp: sys_recv_def split: if_splits)
qed

text \<open>Enough bytes on the way: the loop returns exactly the first \<open>n\<close>, however they are cut.\<close>

lemma Recv_enough:
  "is_initialized s \<Longrightarrow> n \<le> length (pending (rx s)) \<Longrightarrow>
   \<exists>r'. Recv n acc s = (1, acc @ take n (pending (rx s)), s\<lparr>rx := r'\<rparr>)
      \<and> pending r' = drop n (pending (rx s))"
proof (induction n acc s rule: Recv.induct)
  case (1 n acc s)
  show ?case
  proof (cases "n = 0")
    case True
    then show ?thesis by (intro exI [of _ "rx s"]) simp
  next
    case False
    with "1.prems" have "pending (rx s) \<noteq> []" by auto
    then obtain k r1 where k: "0 < k" "k \<le> n" "k \<le> length (pending (rx s))"
      "sys_recv n s = (int k, take k (pending (rx s)), s\<lparr>rx := r1\<rparr>)"
      "pending r1 = drop k (pending (rx s))"
      using sys_recv_pending [OF "1.prems"(1), of n] False by blast
    have tk: "take k (pending (rx s)) @ drop k (take n (pending (rx s))) = take n (pending (rx s))"
      using append_take_drop_id [of k "take n (pending (rx s))"] k(2) by (simp add: min_absorb1)
    have "\<exists>r'. Recv (n - nat (int k)) (acc @ take k (pending (rx s))) (s\<lparr>rx := r1\<rparr>) =
        (1, (acc @ take k (pending (rx s))) @ take (n - nat (int k)) (pending (rx (s\<lparr>rx := r1\<rparr>))),
          (s\<lparr>rx := r1\<rparr>)\<lparr>rx := r'\<rparr>)
        \<and> pending r' = drop (n - nat (int k)) (pending (rx (s\<lparr>rx := r1\<rparr>)))"
      by (rule "1.IH" [OF False k(4) [symmetric] refl]) (use k "1.prems" in auto)
    then obtain r' where "Recv (n - k) (acc @ take k (pending (rx s))) (s\<lparr>rx := r1\<rparr>) =
        (1, acc @ take n (pending (rx s)), s\<lparr>rx := r'\<rparr>)" "pending r' = drop n (pending (rx s))"
      using k by (auto simp: take_drop tk)
    then show ?thesis
      using False k by (intro exI [of _ r']) (simp add: Recv.simps [of n acc s])
  qed
qed

text \<open>Too few bytes: the loop keeps what came, closes the socket and reports 0.\<close>

lemma Recv_short:
  "is_initialized s \<Longrightarrow> length (pending (rx s)) < n \<Longrightarrow>
   \<exists>s'. Recv n acc s = (0, acc @ pending (rx s), s') \<and> \<not> is_initialized s' \<and> sent s' = sent s"
proof (induction n acc s rule: Recv.induct)
  case (1 n acc s)
  then have n: "n \<noteq> 0" by auto
  show ?case
  proof (cases "pending (rx s) = []")
    case True
    obtain v s' where v: "sys_recv n s = (v, [], s')" "v \<le> 0" "s' = s\<lparr>rx := rx s'\<rparr>"
      by (rule sys_recv_drained [OF "1.prems"(1) True])
    then have "sent s' = sent s" by (metis Socket.select_convs(8) Socket.update_convs(6) Socket.surjective)
    then show ?thesis
      using n v True by (simp add: Recv.simps [of n acc s] Close_def)
  next
    case False
    then obtain k r1 where k: "0 < k" "k \<le> n" "k \<le> length (pending (rx s))"
      "sys_recv n s = (int k, take k (pending (rx s)), s\<lparr>rx := r1\<rparr>)"
      "pending r1 = drop k (pending (rx s))"
      using sys_recv_pending [OF "1.prems"(1), of n] n by blast
    have "\<exists>s'. Recv (n - nat (int k)) (acc @ take k (pending (rx s))) (s\<lparr>rx := r1\<rparr>) =
        (0, (acc @ take k (pending (rx s))) @ pending (rx (s\<lparr>rx := r1\<rparr>)), s')
        \<and> \<not> is_initialized s' \<and> sent s' = sent (s\<lparr>rx := r1\<rparr>)"
      by (rule "1.IH" [OF n k(4) [symmetric] refl]) (use k "1.prems" in auto)
    then show ?thesis
      using n k by (auto simp: Recv.simps [of n acc s])
  qed
qed

lemma Recv_closed: "\<not> is_initialized s \<Longrightarrow> 0 < n \<Longrightarrow> Recv n acc s = (0, acc, Close s)"
  by (simp add: Recv.simps sys_recv_def)

text \<open>No send error in the script: the whole buffer goes out, in however many pieces.\<close>

lemma Send_all:
  "is_initialized s \<Longrightarrow> SendError \<notin> set (tx s) \<Longrightarrow>
   \<exists>t'. Send data s = (1, s\<lparr>tx := t', sent := sent s @ data\<rparr>) \<and> SendError \<notin> set t'"
proof (induction data s rule: Send.induct)
  case (1 data s)
  show ?case
  proof (cases "data = []")
    case True
    then show ?thesis
      using "1.prems" by (intro exI [of _ "tx s"]) simp
  next
    case False
    obtain r s' where rs: "sys_send data s = (r, s')" by force
    have r: "0 \<le> r" "s' = s\<lparr>tx := tx s', sent := sent s @ take (nat r) data\<rparr>"
      "SendError \<notin> set (tx s')"
      using rs "1.prems"
      by (auto simp: sys_send_def min_def split: list.splits tx_event.splits)
    have "\<exists>t'. Send (drop (nat r) data) s' =
        (1, s'\<lparr>tx := t', sent := sent s' @ drop (nat r) data\<rparr>) \<and> SendError \<notin> set t'"
      by (rule "1.IH" [OF False rs [symmetric]])
        (use r "1.prems" in \<open>auto, metis Socket.select_convs(4) Socket.surjective
            Socket.update_convs(7,8)\<close>)
    then obtain t' where t': "Send (drop (nat r) data) s' =
        (1, s'\<lparr>tx := t', sent := sent s' @ drop (nat r) data\<rparr>)" "SendError \<notin> set t'" by blast
    have "sent s' @ drop (nat r) data = sent s @ data"
      by (subst r(2)) simp
    then have "s'\<lparr>tx := t', sent := sent s' @ drop (nat r) data\<rparr> = s\<lparr>tx := t', sent := sent s @ data\<rparr>"
      by (subst r(2)) simp
    then show ?thesis
      using False rs r(1) t' by (auto simp: Send.simps [of data s])
  qed
qed

lemma Send_idle: "is_initialized s \<Longrightarrow> tx s = [] \<Longrightarrow> Send data s = (1, s\<lparr>sent := sent s @ data\<rparr>)"
  by (cases "data = []") (simp_all add: Send.simps [of data s] sys_send_def)

lemma Send_closed: "\<not> is_initialized s \<Longrightarrow> data \<noteq> [] \<Longrightarrow> Send data s = (0, Close s)"
  by (simp add: Send.simps sys_send_def)

text \<open>A segment that fits is what a single \<^verbatim>\<open>recv\<close> returns.\<close>

lemma Recv_once_segment:
  "is_initialized s \<Longrightarrow> rx s = Segment c # r \<Longrightarrow> c \<noteq> [] \<Longrightarrow> length c \<le> n \<Longrightarrow>
   Recv_once n s = (int (length c), c, s\<lparr>rx := r\<rparr>)"
  by (simp add: Recv_once_def sys_recv_def)

lemma Recv_once_closed: "\<not> is_initialized s \<Longrightarrow> Recv_once n s = (-1, [], Close s)"
  by (simp add: Recv_once_def sys_recv_def)

lemma Recv_once_eof: "is_initialized s \<Longrightarrow> rx s = [] \<Longrightarrow> Recv_once n s = (0, [], Close s)"
  by (simp add: Recv_once_def sys_recv_def)

lemma Send_once_idle:
  "is_initialized s \<Longrightarrow> tx s = [] \<Longrightarrow>
   Send_once data s = (int (length data), s\<lparr>sent := sent s @ data\<rparr>)"
  by (simp add: Send_once_def sys_send_def)

text \<open>The integer that \<^verbatim>\<open>writeInt\<close> puts on the wire is the one \<^verbatim>\<open>readInt\<close> takes off it.\<close>

lemma readInt_segment:
  "is_initialized s \<Longrightarrow> rx s = Segment (net_bytes w) # r \<Longrightarrow> readInt s = Inr (w, s\<lparr>rx := r\<rparr>)"
  by (simp add: readInt_def sys_recv_def overlay_def)

lemma writeInt_idle:
  "is_initialized s \<Longrightarrow> tx s = [] \<Longrightarrow> writeInt w s = (4, s\<lparr>sent := sent s @ net_bytes w\<rparr>)"
  by (simp add: writeInt_def sys_send_def mem_bytes_htonl)

lemmas sock_rules = Send_idle Send_closed Recv_closed Recv_once_segment Recv_once_closed
  Recv_once_eof Send_once_idle readInt_segment writeInt_idle

end
