(* ===== verification/Stubs.thy ===== *)
theory Stubs
  imports Messages Sockets
begin

text \<open>
  \<^verbatim>\<open>ClientStub.cpp\<close> and \<^verbatim>\<open>ServerStub.cpp\<close>: one function per method, over the scripted sockets.
  \<^verbatim>\<open>if (socket.Send(...))\<close> tests the return value against 0, so the \<open>-1\<close> of a failed single
  \<^verbatim>\<open>send\<close> or \<^verbatim>\<open>recv\<close> counts as success there; the model keeps that. The lemmas say what each side
  sees when the other side is the program's own stub.
\<close>

type_synonym ClientStub = ClientSocket
type_synonym ServerStub = ServerSocket

text \<open>
  \<^verbatim>\<open>std::string(buf)\<close> of a buffer. Without a NUL in it the constructor reads on behind the buffer, which C++
  leaves undefined; here it finds the unspecified bytes \<open>junk\<close>, over which the theorems quantify.
\<close>

definition read_string :: "buffer \<Rightarrow> ('a) Socket_scheme \<Rightarrow> string" where
  "read_string buf s = c_string (buf @ junk s)"

text \<open>
  The \<open>n\<close> bytes that start at a C string: the string, its NUL, and whatever lies behind it. When the string is
  shorter this reads behind the literal, again taken as unspecified bytes.
\<close>

definition msg_bytes :: "nat \<Rightarrow> string \<Rightarrow> ('a) Socket_scheme \<Rightarrow> buffer" where
  "msg_bytes n msg s = take n (msg @ NUL # fresh n s)"

section \<open>ClientStub\<close>

definition ClientStub_Init :: "string \<Rightarrow> cint \<Rightarrow> ClientStub \<Rightarrow> cint \<times> ClientStub" where
  "ClientStub_Init ip port s = ClientSocket_Init ip port s"

definition Order :: "CustomerOrder \<Rightarrow> ClientStub \<Rightarrow> LaptopInfo \<times> ClientStub" where
  "Order order s =
     (case Send_once (raw_order (host s) order) s of (sr, s1) \<Rightarrow>
        if sr \<noteq> 0 then
          (case Recv_once 20 s1 of (rr, got, s2) \<Rightarrow>
             if rr \<noteq> 0 then
               (assign_LaptopInfo (unraw_laptop (host s) (overlay got (fresh 20 s))) new_LaptopInfo, s2)
             else (new_LaptopInfo, s2))
        else (new_LaptopInfo, s1))"

definition ReadRecord :: "CustomerOrder \<Rightarrow> ClientStub \<Rightarrow> CustomerRecord \<times> ClientStub" where
  "ReadRecord order s =
     (case Send_once (raw_order (host s) order) s of (sr, s1) \<Rightarrow>
        if sr \<noteq> 0 then
          (case Recv_once 8 s1 of (rr, got, s2) \<Rightarrow>
             if rr \<noteq> 0 then (unraw_record (host s) (overlay got (fresh 8 s)), s2)
             else (new_CustomerRecord, s2))
        else (new_CustomerRecord, s1))"

definition SendIDMsg :: "string \<Rightarrow> ClientStub \<Rightarrow> int \<times> ClientStub" where
  "SendIDMsg message s = Send (msg_bytes 10 message s) s"

definition SendReplicationReq :: "ReplicationRequest \<Rightarrow> ClientStub \<Rightarrow> string \<times> ClientStub" where
  "SendReplicationReq req s =
     (if getIsInitialized s then
        (case Send_once (raw_replication (host s) req) s of (sr, s1) \<Rightarrow>
           if sr \<noteq> 0 then
             (case Recv 10 [] s1 of (rr, buf, s2) \<Rightarrow>
                if rr \<noteq> 0 then (read_string buf s2, s2) else (''FAILED'', s2))
           else (''FAILED'', s1))
      else (''FAILED'', s))"

text \<open>
  The marshalled transaction is written to a block of 200000 bytes, of which \<^verbatim>\<open>req.Size()\<close> are
  sent; a transaction that does not fit overruns the block.
\<close>

definition SendTxnPrepareRequest :: "Transaction \<Rightarrow> ClientStub \<Rightarrow> crash + string \<times> ClientStub" where
  "SendTxnPrepareRequest req s =
     (if \<not> mem_ok s then Inr (''malloc failed'', s)
      else if \<not> getIsInitialized s then Inr (''error'', s)
      else if 200000 < length (Transaction_Marshal (host s) req) then Inl Undefined
      else
        (let marshalledReq = overlay (Transaction_Marshal (host s) req) (fresh 200000 s);
             n = nat (sint (Transaction_Size req))
         in if 200000 < n then Inl Undefined
            else case Send (take n marshalledReq) s of (sr, s1) \<Rightarrow>
              if sr \<noteq> 0 then
                (case Recv_once 10 s1 of (rr, got, s2) \<Rightarrow>
                   if rr \<noteq> 0 then Inr (read_string (overlay got (fresh 10 s)) s2, s2)
                   else Inr (''ErrorNo'', s2))
              else Inr (''ErrorNo'', s1)))"

text \<open>No return on the error paths.\<close>

definition SendTxnId :: "cint \<Rightarrow> ClientStub \<Rightarrow> crash + string \<times> ClientStub" where
  "SendTxnId i s =
     (case writeInt i s of (wr, s1) \<Rightarrow>
        if wr \<noteq> 0 then
          (case Recv_once 10 s1 of (rr, got, s2) \<Rightarrow>
             if rr \<noteq> 0 then Inr (read_string (overlay got (fresh 10 s)) s2, s2)
             else Inl Undefined)
        else Inl Undefined)"

section \<open>ServerStub\<close>

definition ReceiveRequest :: "ServerStub \<Rightarrow> CustomerOrder \<times> ServerStub" where
  "ReceiveRequest s =
     (case Recv_once 12 s of (r, got, s1) \<Rightarrow>
        if r > 0 then (unraw_order (host s) (overlay got (fresh 12 s)), s1)
        else (new_CustomerOrder, s1))"

definition SendLaptop :: "LaptopInfo \<Rightarrow> ServerStub \<Rightarrow> int \<times> ServerStub" where
  "SendLaptop info s = Send_once (raw_laptop (host s) info) s"

definition ReturnRecord :: "CustomerRecord \<Rightarrow> ServerStub \<Rightarrow> int \<times> ServerStub" where
  "ReturnRecord rec s = Send_once (raw_record (host s) rec) s"

definition IdentificationMsg :: "ServerStub \<Rightarrow> string \<times> ServerStub" where
  "IdentificationMsg s =
     (case Recv 10 [] s of (_, got, s1) \<Rightarrow> (read_string (overlay got (fresh 10 s)) s1, s1))"

definition uninit_op :: "('a) Socket_scheme \<Rightarrow> MapOp" where
  "uninit_op s = rr_oprn (unraw_replication (host s) (fresh 24 s))"

definition ReceiveReplicationReq :: "ServerStub \<Rightarrow> ReplicationRequest \<times> ServerStub" where
  "ReceiveReplicationReq s =
     (case Recv_once 24 s of (r, got, s1) \<Rightarrow>
        if r > 0 then (unraw_replication (host s) (overlay got (fresh 24 s)), s1)
        else (new_ReplicationRequest (uninit_op s), s1))"

definition SendResponseReplicationReq :: "string \<Rightarrow> ServerStub \<Rightarrow> int \<times> ServerStub" where
  "SendResponseReplicationReq msg s = Send (msg_bytes 10 msg s) s"

text \<open>
  One \<^verbatim>\<open>recv\<close> of up to 200000 bytes; what it does not fill of the block stays unwritten. The
  function has no return when nothing was received.
\<close>

definition uninit_txn :: "('a) Socket_scheme \<Rightarrow> cint \<times> cint \<times> cint" where
  "uninit_txn s = (mem_word (host s) (fresh 4 s), mem_word (host s) (drop 4 (fresh 8 s)),
     mem_word (host s) (drop 8 (fresh 12 s)))"

definition ReceiveTxnRequest :: "ServerStub \<Rightarrow> crash + Transaction \<times> ServerStub" where
  "ReceiveTxnRequest s =
     (if \<not> mem_ok s then Inr (new_Transaction (uninit_txn s) [] [], s)
      else
        (let req = new_Transaction (uninit_txn s) [] []
         in case Recv_once 200000 s of (recevdbytes, got, s1) \<Rightarrow>
           if recevdbytes > 0 then
             (case Transaction_Unmarshal (host s) (overlay got (fresh 200000 s)) req of
                None \<Rightarrow> Inl Undefined
              | Some t \<Rightarrow> Inr (t, s1))
           else Inl Undefined))"

definition ReceiveTxnId :: "ServerStub \<Rightarrow> crash + cint \<times> ServerStub" where
  "ReceiveTxnId s = readInt s"

section \<open>Strings over the wire\<close>

lemma length_msg_bytes [simp]: "length (msg_bytes n msg s) = n"
  by (simp add: msg_bytes_def)

lemma msg_bytes_nonempty [simp]: "0 < n \<Longrightarrow> msg_bytes n msg s \<noteq> []"
  by (metis length_msg_bytes less_numeral_extra(3) list.size(3))

text \<open>A message of at most 9 characters arrives as it was sent, whatever lay behind it.\<close>

definition short_msg :: "string \<Rightarrow> bool" where
  "short_msg m \<longleftrightarrow> NUL \<notin> set m \<and> length m < 10"

lemma read_string_msg_bytes: "short_msg m \<Longrightarrow> read_string (msg_bytes 10 m s) s' = m"
  using c_string_take [of m 10 "fresh 10 s" "junk s'"]
  by (simp add: read_string_def msg_bytes_def short_msg_def)

text \<open>A longer one arrives as its first ten characters and what the receiver finds behind its buffer.\<close>

lemma read_string_long:
  "NUL \<notin> set m \<Longrightarrow> 10 \<le> length m \<Longrightarrow>
   read_string (msg_bytes 10 m s) s' = take 10 m @ c_string (junk s')"
  using c_string_no_NUL [of "take 10 m" "junk s'"]
  by (auto simp: read_string_def msg_bytes_def dest: in_set_takeD)

lemma short_msgs [simp]:
  "short_msg ''CLIENT''" "short_msg ''PFA''" "short_msg ''TMPrepare''" "short_msg ''TMCommit''"
  "short_msg ''TMAbort''" "short_msg ''PrPrepare''" "short_msg ''Ok''" "short_msg ''No''"
  "short_msg ''DONE''" "short_msg ''Success''" "short_msg ''Failed''"
  by (simp_all add: short_msg_def)

section \<open>What a stub receives from the other side's stub\<close>

lemma IdentificationMsg_segment:
  assumes "is_initialized s" and "rx s = Segment (msg_bytes 10 m s') # r" and "short_msg m"
  shows "IdentificationMsg s = (m, s\<lparr>rx := r\<rparr>)"
proof -
  have "sys_recv 10 s = (10, msg_bytes 10 m s', s\<lparr>rx := r\<rparr>)"
    by (simp add: sys_recv_def assms)
  then have "Recv 10 [] s = (1, msg_bytes 10 m s', s\<lparr>rx := r\<rparr>)"
    by (simp add: Recv.simps [of 10 "[]" s])
  then show ?thesis
    by (simp add: IdentificationMsg_def overlay_full read_string_msg_bytes assms(3))
qed

lemma IdentificationMsg_stream:
  assumes "is_initialized s" and "pending (rx s) = msg_bytes 10 m s' @ rest" and "short_msg m"
  obtains r' where "IdentificationMsg s = (m, s\<lparr>rx := r'\<rparr>)" "pending r' = rest"
proof -
  obtain r' where "Recv 10 [] s = (1, msg_bytes 10 m s', s\<lparr>rx := r'\<rparr>)" "pending r' = rest"
    using Recv_enough [OF assms(1), of 10 "[]"] by (auto simp: assms(2))
  then show ?thesis
    by (intro that [of r'])
      (simp_all add: IdentificationMsg_def overlay_full read_string_msg_bytes assms(3))
qed

text \<open>The string the server sees when the peer has closed: whatever its stack buffer held.\<close>

lemma IdentificationMsg_eof:
  "is_initialized s \<Longrightarrow> rx s = [] \<Longrightarrow>
   IdentificationMsg s = (read_string (fresh 10 s) s, Close s)"
  by (simp add: IdentificationMsg_def Recv.simps [of 10 "[]" s] sys_recv_def overlay_def
      read_string_def Close_def)

lemma ReceiveRequest_segment:
  "is_initialized s \<Longrightarrow> rx s = Segment (raw_order (host s) ord) # r \<Longrightarrow>
   ReceiveRequest s = (ord, s\<lparr>rx := r\<rparr>)"
  by (simp add: ReceiveRequest_def Recv_once_segment overlay_def)

lemma ReceiveRequest_closed:
  "rx s = [] \<or> \<not> is_initialized s \<Longrightarrow> ReceiveRequest s = (new_CustomerOrder, Close s)"
  by (cases "is_initialized s")
    (auto simp: ReceiveRequest_def Recv_once_eof Recv_once_closed)

lemma ReceiveReplicationReq_segment:
  "is_initialized s \<Longrightarrow> rx s = Segment (raw_replication (host s) req) # r \<Longrightarrow>
   ReceiveReplicationReq s = (req, s\<lparr>rx := r\<rparr>)"
  by (simp add: ReceiveReplicationReq_def Recv_once_segment overlay_def)

lemma ReceiveReplicationReq_eof:
  "is_initialized s \<Longrightarrow> rx s = [] \<Longrightarrow>
   ReceiveReplicationReq s = (new_ReplicationRequest (uninit_op s), Close s)"
  by (simp add: ReceiveReplicationReq_def Recv_once_eof)

lemma ReceiveTxnRequest_segment:
  assumes "is_initialized s" and "mem_ok s" and "rx s = Segment (Transaction_Marshal e t) # r"
    and "lengths_ok t" and "length (Transaction_Marshal e t) \<le> 200000"
  shows "ReceiveTxnRequest s = Inr (t, s\<lparr>rx := r\<rparr>)"
proof -
  have "Recv_once 200000 s = (int (length (Transaction_Marshal e t)), Transaction_Marshal e t, s\<lparr>rx := r\<rparr>)"
    using assms by (intro Recv_once_segment) (auto simp flip: length_greater_0_conv
        simp: length_Transaction_Marshal)
  moreover have "0 < length (Transaction_Marshal e t)"
    by (simp add: length_Transaction_Marshal)
  ultimately show ?thesis
    by (simp add: ReceiveTxnRequest_def assms overlay_def Transaction_Unmarshal_Marshal
        new_Transaction_def)
qed

lemma SendResponse_idle:
  "is_initialized s \<Longrightarrow> tx s = [] \<Longrightarrow>
   SendResponseReplicationReq m s = (1, s\<lparr>sent := sent s @ msg_bytes 10 m s\<rparr>)"
  by (simp add: SendResponseReplicationReq_def Send_idle)

lemma SendIDMsg_idle:
  "is_initialized s \<Longrightarrow> tx s = [] \<Longrightarrow> SendIDMsg m s = (1, s\<lparr>sent := sent s @ msg_bytes 10 m s\<rparr>)"
  by (simp add: SendIDMsg_def Send_idle)

section \<open>Size of a marshalled transaction\<close>

lemma ucast_word_of_int_down: "ucast (word_of_int i :: 64 word) = (word_of_int i :: cint)"
  by (rule bit_word_eqI) (simp add: bit_simps)

lemma scast_as_of_int: "(scast (w :: cint) :: 64 word) = word_of_int (sint w)"
  by (rule bit_word_eqI) (simp add: bit_simps bit_sint_iff)

lemma sint_of_small_int: "- (2 ^ 31) \<le> i \<Longrightarrow> i < 2 ^ 31 \<Longrightarrow> sint (word_of_int i :: cint) = i"
  by (simp add: signed_of_int signed_take_bit_int_eq_self)

lemma Transaction_Size_eq:
  "Transaction_Size t = word_of_int (12 + 8 * sint (lenReadRecords t) + 12 * sint (lenWriteRecords t))"
  unfolding Transaction_Size_def scast_as_of_int
  by (simp flip: ucast_word_of_int_down)

lemma Transaction_Size_length:
  assumes "lengths_ok t" and "length (Transaction_Marshal e t) < 2 ^ 31"
  shows "sint (Transaction_Size t) = int (length (Transaction_Marshal e t))"
  using assms sint_of_small_int [of "12 + 8 * sint (lenReadRecords t) + 12 * sint (lenWriteRecords t)"]
  by (simp add: Transaction_Size_eq lengths_ok_def length_Transaction_Marshal)

text \<open>
  The client side of the prepare exchange: exactly the marshalled transaction goes out, and the
  reply is what the peer's ten bytes spell.
\<close>

lemma SendTxnPrepareRequest_segment:
  assumes "is_initialized s" and "mem_ok s" and "tx s = []"
    and "lengths_ok t" and "length (Transaction_Marshal (host s) t) \<le> 200000"
    and "rx s = Segment (msg_bytes 10 m s') # r" and "short_msg m"
  shows "SendTxnPrepareRequest t s =
    Inr (m, s\<lparr>rx := r, sent := sent s @ Transaction_Marshal (host s) t\<rparr>)"
proof -
  have n: "nat (sint (Transaction_Size t)) = length (Transaction_Marshal (host s) t)"
    using Transaction_Size_length [OF assms(4), of "host s"] assms(5) by simp
  have recv: "Recv_once 10 (s\<lparr>sent := sent s @ Transaction_Marshal (host s) t\<rparr>)
      = (10, msg_bytes 10 m s', s\<lparr>sent := sent s @ Transaction_Marshal (host s) t, rx := r\<rparr>)"
    by (simp add: Recv_once_segment [where c = "msg_bytes 10 m s'" and r = r] assms)
  show ?thesis
    using assms
    by (simp add: SendTxnPrepareRequest_def getIsInitialized_def n overlay_def Send_idle recv
        overlay_full read_string_msg_bytes Let_def)
qed

text \<open>When the peer closes instead of replying, the result is the string \<^verbatim>\<open>ErrorNo\<close>.\<close>

lemma SendTxnPrepareRequest_eof:
  assumes "is_initialized s" and "mem_ok s" and "tx s = []"
    and "lengths_ok t" and "length (Transaction_Marshal (host s) t) \<le> 200000" and "rx s = []"
  shows "SendTxnPrepareRequest t s =
    Inr (''ErrorNo'', Close (s\<lparr>sent := sent s @ Transaction_Marshal (host s) t\<rparr>))"
proof -
  have n: "nat (sint (Transaction_Size t)) = length (Transaction_Marshal (host s) t)"
    using Transaction_Size_length [OF assms(4), of "host s"] assms(5) by simp
  show ?thesis
    using assms
    by (simp add: SendTxnPrepareRequest_def getIsInitialized_def n overlay_def Send_idle
        Recv_once_eof Let_def)
qed

lemma SendTxnId_segment:
  assumes "is_initialized s" and "tx s = []" and "rx s = Segment (msg_bytes 10 m s') # r"
  shows "SendTxnId i s = Inr (read_string (msg_bytes 10 m s') s,
    s\<lparr>rx := r, sent := sent s @ net_bytes i\<rparr>)"
proof -
  have recv: "Recv_once 10 (s\<lparr>sent := sent s @ net_bytes i\<rparr>)
      = (10, msg_bytes 10 m s', s\<lparr>sent := sent s @ net_bytes i, rx := r\<rparr>)"
    by (simp add: Recv_once_segment [where c = "msg_bytes 10 m s'" and r = r] assms)
  show ?thesis
    by (simp add: SendTxnId_def writeInt_idle assms recv overlay_full read_string_def)
qed

lemma SendReplicationReq_segment:
  assumes "is_initialized s" and "tx s = []" and "rx s = Segment (msg_bytes 10 m s') # r"
    and "short_msg m"
  shows "SendReplicationReq req s =
    (m, s\<lparr>rx := r, sent := sent s @ raw_replication (host s) req\<rparr>)"
proof -
  let ?s1 = "s\<lparr>sent := sent s @ raw_replication (host s) req\<rparr>"
  have "sys_recv 10 ?s1 = (10, msg_bytes 10 m s', ?s1\<lparr>rx := r\<rparr>)"
    by (simp add: sys_recv_def assms)
  then have recv: "Recv 10 [] ?s1 = (1, msg_bytes 10 m s', ?s1\<lparr>rx := r\<rparr>)"
    by (simp add: Recv.simps [of 10 "[]" ?s1])
  show ?thesis
    by (simp add: SendReplicationReq_def getIsInitialized_def assms Send_once_idle recv
        read_string_msg_bytes)
qed

lemma SendReplicationReq_eof:
  assumes "is_initialized s" and "tx s = []" and "rx s = []"
  shows "SendReplicationReq req s =
    (''FAILED'', Close (s\<lparr>sent := sent s @ raw_replication (host s) req\<rparr>))"
  by (simp add: SendReplicationReq_def getIsInitialized_def assms Send_once_idle
      Recv.simps [of 10 "[]"] sys_recv_def)

lemma ReadRecord_segment:
  assumes "is_initialized s" and "tx s = []" and "rx s = Segment (raw_record (host s) rec) # r"
  shows "ReadRecord ord s = (rec, s\<lparr>rx := r, sent := sent s @ raw_order (host s) ord\<rparr>)"
proof -
  have recv: "Recv_once 8 (s\<lparr>sent := sent s @ raw_order (host s) ord\<rparr>)
      = (8, raw_record (host s) rec, s\<lparr>sent := sent s @ raw_order (host s) ord, rx := r\<rparr>)"
    by (simp add: Recv_once_segment [where c = "raw_record (host s) rec" and r = r] assms)
  show ?thesis
    by (simp add: ReadRecord_def Send_once_idle assms recv overlay_full)
qed

end
