(* ===== verification/Factory.thy ===== *)
theory Factory
  imports Persistence Stubs
begin

text \<open>
  The state of a resource manager (\<^verbatim>\<open>LaptopFactory\<close> of \<^verbatim>\<open>ServerThread.h\<close>), its construction with
  recovery from the files, the admin thread that applies and replicates one request at a time, the
  backup's side of the replication, and the two order-serving loops. Mutexes are not state: every
  operation between a lock and its unlock is one function. The promise of an \<^verbatim>\<open>AdminRequest\<close> is
  the laptop that the admin iteration returns. Log output is not modelled.
\<close>

section \<open>State\<close>

record AdminRequest =
  ar_laptop :: LaptopInfo
  ar_customer_id :: cint
  ar_last_order_num :: cint

record LaptopFactory =
  arq :: "AdminRequest list"
  customer_record :: "cint imap"
  smr_log :: "MapOp list"
  last_index :: cint
  committed_index :: cint
  primary_id :: cint
  factory_id :: cint
  peers :: "peer_servers_info list"
  peer_count :: cint
  peerNodes :: "ClientStub list"
  livePeers :: "bool list"
  txn_log :: "TxnLogRequest list imap"
  files :: disk
  admin_id :: cint \<comment> \<open>the id that the admin thread was started with\<close>

definition peer_range :: "LaptopFactory \<Rightarrow> nat list" where
  "peer_range s = [0 ..< nat (sint (peer_count s))]"

definition peer_in_bounds :: "nat \<Rightarrow> LaptopFactory \<Rightarrow> bool" where
  "peer_in_bounds i s \<longleftrightarrow> i < length (peers s) \<and> i < length (peerNodes s) \<and> i < length (livePeers s)"

definition set_node :: "nat \<Rightarrow> ClientStub \<Rightarrow> LaptopFactory \<Rightarrow> LaptopFactory" where
  "set_node i n s = s\<lparr>peerNodes := (peerNodes s)[i := n]\<rparr>"

definition set_live :: "nat \<Rightarrow> bool \<Rightarrow> LaptopFactory \<Rightarrow> LaptopFactory" where
  "set_live i b s = s\<lparr>livePeers := (livePeers s)[i := b]\<rparr>"

section \<open>Persistence\<close>

text \<open>
  The recovery functions have no return after a successful read; their result is not used by the
  constructor and is not modelled. \<^verbatim>\<open>insert\<close> keeps the first entry of a customer.
\<close>

definition recovery_cust_rec :: "LaptopFactory \<Rightarrow> LaptopFactory" where
  "recovery_cust_rec s =
     (case custRecFile (files s) of
        None \<Rightarrow> s
      | Some fin \<Rightarrow> s\<lparr>customer_record := read_cust_lines fin (customer_record s)\<rparr>)"

definition recovery_txn_log :: "LaptopFactory \<Rightarrow> LaptopFactory" where
  "recovery_txn_log s =
     (case logFile (files s) of
        None \<Rightarrow> s
      | Some fin \<Rightarrow> s\<lparr>txn_log := read_log_lines fin (txn_log s)\<rparr>)"

text \<open>The files are written in one go here; \<open>CrashPoints\<close> has their states in between.\<close>

definition store_cust_record_txn :: "LaptopFactory \<Rightarrow> crash + LaptopFactory" where
  "store_cust_record_txn s =
     bindE (write_cust_file (customer_record s) (files s)) (\<lambda>d. Inr (s\<lparr>files := d\<rparr>))"

definition store_txn_log_record :: "TxnLogRequest list \<Rightarrow> LaptopFactory \<Rightarrow> crash + LaptopFactory" where
  "store_txn_log_record txnLogReq s =
     bindE (append_log_file txnLogReq (files s)) (\<lambda>d. Inr (s\<lparr>files := d\<rparr>))"

definition empty_log_file :: "LaptopFactory \<Rightarrow> LaptopFactory" where
  "empty_log_file s = s\<lparr>files := truncate_log_file (files s)\<rparr>"

text \<open>
  The constructor: \<open>stub i\<close> is the i-th default-constructed \<^verbatim>\<open>ClientStub\<close>, with its script.
\<close>

definition new_LaptopFactory ::
  "(nat \<Rightarrow> ClientStub) \<Rightarrow> peer_servers_info list \<Rightarrow> cint \<Rightarrow> disk \<Rightarrow> LaptopFactory" where
  "new_LaptopFactory stub peers_input peer_count_input d =
     recovery_txn_log (recovery_cust_rec
       \<lparr>arq = [], customer_record = [], smr_log = [], last_index = -1, committed_index = -1,
        primary_id = -1, factory_id = -1, peers = peers_input, peer_count = peer_count_input,
        peerNodes = map stub [0 ..< nat (sint peer_count_input)],
        livePeers = replicate (nat (sint peer_count_input)) False,
        txn_log = [], files = d, admin_id = 0\<rparr>)"

definition setFactoryId :: "cint \<Rightarrow> LaptopFactory \<Rightarrow> LaptopFactory" where
  "setFactoryId i s = s\<lparr>factory_id := i\<rparr>"

section \<open>The admin thread\<close>

definition updateCustomerRecord :: "MapOp \<Rightarrow> LaptopFactory \<Rightarrow> LaptopFactory" where
  "updateCustomerRecord oprn s =
     s\<lparr>customer_record := map_assign (arg1 oprn) (arg2 oprn) (customer_record s),
       committed_index := committed_index s + 1\<rparr>"

lemma sint_Suc: "sint (c :: cint) < sint (d :: cint) \<Longrightarrow> sint (c + 1) = sint c + 1"
proof -
  assume less: "sint c < sint d"
  have range: "- (2 ^ 31) \<le> sint c" "sint d < 2 ^ 31"
    using sint_range_size [of c] sint_range_size [of d] by (simp_all add: word_size)
  have "c + 1 = word_of_int (sint c + 1)" by simp
  then have "sint (c + 1) = sint (word_of_int (sint c + 1) :: cint)" by simp
  also have "\<dots> = sint c + 1" using less range by (intro sint_of_small_int) auto
  finally show ?thesis .
qed

text \<open>
  \<^verbatim>\<open>while (committed_index < last_index) updateCustomerRecord(smr_log[last_index])\<close>
\<close>

function catch_up :: "LaptopFactory \<Rightarrow> crash + LaptopFactory" where
  "catch_up s =
     (if sint (committed_index s) < sint (last_index s) then
        (if 0 \<le> sint (last_index s) \<and> nat (sint (last_index s)) < length (smr_log s)
         then catch_up (updateCustomerRecord (smr_log s ! nat (sint (last_index s))) s)
         else Inl Undefined)
      else Inr s)"
  by pat_completeness auto
termination
  by (relation "measure (\<lambda>s. nat (sint (last_index s) - sint (committed_index s)))")
    (auto simp: updateCustomerRecord_def sint_Suc)

declare catch_up.simps [simp del]

text \<open>\<^verbatim>\<open>sendAllRequests\<close>: the whole log, each entry with the index before it as committed.\<close>

definition sendAllRequests :: "nat \<Rightarrow> LaptopFactory \<Rightarrow> crash + LaptopFactory" where
  "sendAllRequests pid s =
     for_loop (\<lambda>i s. if \<not> peer_in_bounds pid s then Inl Undefined else
         (case SendReplicationReq (mk_ReplicationRequest (factory_id s) (of_nat i - 1) (of_nat i)
                 (smr_log s ! i)) (peerNodes s ! pid) of
            (resp, n) \<Rightarrow> Inr (set_node pid n s)))
       [0 ..< length (smr_log s)] s"

text \<open>First round of a new primary: connect to a backup and announce oneself.\<close>

definition connect_peer :: "nat \<Rightarrow> LaptopFactory \<Rightarrow> crash + LaptopFactory" where
  "connect_peer i s =
     (if \<not> peer_in_bounds i s then Inl Undefined else
      case ClientStub_Init (peer_ip (peers s ! i)) (peer_port (peers s ! i)) (peerNodes s ! i) of
        (ok, n) \<Rightarrow>
          if ok = 1 then
            (case SendIDMsg ''PFA'' n of (_, n') \<Rightarrow> Inr (set_live i True (set_node i n' s)))
          else Inr (set_node i n s))"

definition become_primary :: "LaptopFactory \<Rightarrow> crash + LaptopFactory" where
  "become_primary s =
     (if primary_id s \<noteq> factory_id s then
        bindE (for_loop connect_peer (peer_range s) (s\<lparr>primary_id := factory_id s\<rparr>)) catch_up
      else Inr s)"

text \<open>Replication of one applied operation to one backup.\<close>

definition replicate_to :: "MapOp \<Rightarrow> nat \<Rightarrow> LaptopFactory \<Rightarrow> crash + LaptopFactory" where
  "replicate_to mapOp i s =
     (if \<not> peer_in_bounds i s then Inl Undefined else
      if livePeers s ! i = False then
        (case ClientStub_Init (peer_ip (peers s ! i)) (peer_port (peers s ! i)) (peerNodes s ! i) of
           (ok, n) \<Rightarrow>
             if ok = 1 then
               (case SendIDMsg ''PFA'' n of (_, n') \<Rightarrow>
                  sendAllRequests i (set_live i True (set_node i n' s)))
             else Inr (set_node i n s))
      else
        (case SendReplicationReq (mk_ReplicationRequest (factory_id s) (committed_index s)
                (last_index s) mapOp) (peerNodes s ! i) of
           (resp, n) \<Rightarrow>
             if resp = ''FAILED'' then Inr (set_live i False (set_node i n s))
             else Inr (set_node i n s)))"

text \<open>The primary's own part: append to the log, apply, count.\<close>

definition apply_locally :: "MapOp \<Rightarrow> LaptopFactory \<Rightarrow> LaptopFactory" where
  "apply_locally mapOp s =
     s\<lparr>smr_log := smr_log s @ [mapOp], last_index := last_index s + 1,
       customer_record := map_assign (arg1 mapOp) (arg2 mapOp) (customer_record s),
       committed_index := committed_index s + 1\<rparr>"

definition request_op :: "AdminRequest \<Rightarrow> MapOp" where
  "request_op req = \<lparr>opcode = 1, arg1 = ar_customer_id req, arg2 = ar_last_order_num req\<rparr>"

text \<open>One round of \<^verbatim>\<open>AdminThread\<close> with the request it has popped.\<close>

definition AdminThread_round ::
  "cint \<Rightarrow> AdminRequest \<Rightarrow> LaptopFactory \<Rightarrow> crash + LaptopInfo \<times> LaptopFactory" where
  "AdminThread_round aid req s =
     bindE (become_primary s) (\<lambda>s1.
     bindE (for_loop (replicate_to (request_op req)) (peer_range s1)
              (apply_locally (request_op req) s1)) (\<lambda>s2.
     Inr (SetAdminId aid (ar_laptop req), s2)))"

text \<open>\<open>None\<close>: the queue is empty and the thread waits.\<close>

definition AdminThread_step :: "cint \<Rightarrow> LaptopFactory \<Rightarrow> (crash + LaptopInfo \<times> LaptopFactory) option" where
  "AdminThread_step aid s =
     (case arq s of [] \<Rightarrow> None | req # q \<Rightarrow> Some (AdminThread_round aid req (s\<lparr>arq := q\<rparr>)))"

text \<open>
  The admin thread serves its queue in order; a request with \<open>n\<close> others ahead is answered in
  round \<open>n + 1\<close>.
\<close>

fun admin_serve :: "nat \<Rightarrow> cint \<Rightarrow> LaptopFactory \<Rightarrow> crash + LaptopInfo \<times> LaptopFactory" where
  "admin_serve n aid s =
     (case AdminThread_step aid s of
        None \<Rightarrow> Inl Undefined
      | Some r \<Rightarrow> bindE r (\<lambda>(laptop, s').
          case n of 0 \<Rightarrow> Inr (laptop, s') | Suc k \<Rightarrow> admin_serve k aid s'))"

declare admin_serve.simps [simp del]

text \<open>
  \<^verbatim>\<open>CreateRegularLaptop\<close>: queue the request and wait for its promise.
\<close>

definition CreateRegularLaptop ::
  "CustomerOrder \<Rightarrow> cint \<Rightarrow> LaptopFactory \<Rightarrow> crash + LaptopInfo \<times> LaptopFactory" where
  "CreateRegularLaptop order engineer_id s =
     (let laptop = SetEngineerId engineer_id (CopyOrder order new_LaptopInfo);
          req = \<lparr>ar_laptop = laptop, ar_customer_id = co_customer_id order,
                 ar_last_order_num = co_order_number order\<rparr>
      in admin_serve (length (arq s)) (admin_id s) (s\<lparr>arq := arq s @ [req]\<rparr>))"

section \<open>The backup's side of replication\<close>

text \<open>One accepted request; \<^verbatim>\<open>smr_log.at\<close> throws when the index is outside the log.\<close>

definition IFA_apply :: "ReplicationRequest \<Rightarrow> LaptopFactory \<Rightarrow> crash + LaptopFactory" where
  "IFA_apply req s =
     (let s1 = s\<lparr>primary_id := rr_factory_id req, smr_log := smr_log s @ [rr_oprn req],
                 last_index := last_index s + 1\<rparr>
      in if 0 \<le> sint (rr_committed_index req) then
           (if nat (sint (rr_committed_index req)) < length (smr_log s1) then
              (let lastCommitted = smr_log s1 ! nat (sint (rr_committed_index req))
               in Inr (s1\<lparr>customer_record :=
                           map_assign (arg1 lastCommitted) (arg2 lastCommitted) (customer_record s1),
                         committed_index := committed_index s1 + 1\<rparr>))
            else Inl Terminate)
         else Inr s1)"

text \<open>
  How much a script can still deliver, as the size of a socket; every successful read lowers it.
\<close>

fun rx_size :: "rx_event list \<Rightarrow> nat" where
  "rx_size [] = 0"
| "rx_size (RecvError # r) = Suc (rx_size r)"
| "rx_size (Segment c # r) = Suc (length c) + rx_size r"

instantiation Socket_ext :: (type) size
begin

definition size_Socket_ext :: "('a) Socket_scheme \<Rightarrow> nat" where
  "size s = rx_size (rx s)"

instance ..

end

lemma sys_recv_rx_size:
  "sys_recv n s = (r, got, s') \<Longrightarrow> rx_size (rx s') \<le> rx_size (rx s)
     \<and> (0 < r \<longrightarrow> rx_size (rx s') < rx_size (rx s))"
  by (auto simp: sys_recv_def split: if_splits list.splits rx_event.splits)

lemma Recv_once_rx_size:
  "Recv_once n s = (r, got, s') \<Longrightarrow> rx_size (rx s') \<le> rx_size (rx s)
     \<and> (0 < r \<longrightarrow> rx_size (rx s') < rx_size (rx s))"
  using sys_recv_rx_size [of n s] by (auto simp: Recv_once_def Close_def split: prod.splits if_splits)

lemma ReceiveRequest_rx_size:
  "ReceiveRequest s = (order, s') \<Longrightarrow> CustomerOrder_IsValid order \<Longrightarrow>
   rx_size (rx s') < rx_size (rx s)"
  by (auto simp: ReceiveRequest_def CustomerOrder_IsValid_def new_CustomerOrder_def
      split: prod.splits if_splits dest: Recv_once_rx_size)

lemma ReceiveReplicationReq_rx_size:
  "ReceiveReplicationReq s = (req, s') \<Longrightarrow> rr_factory_id req \<noteq> -1 \<Longrightarrow>
   rx_size (rx s') < rx_size (rx s)"
  by (auto simp: ReceiveReplicationReq_def new_ReplicationRequest_def
      split: prod.splits if_splits dest: Recv_once_rx_size)

lemma sys_send_rx [simp]: "rx (snd (sys_send d s)) = rx s"
  by (auto simp: sys_send_def split: list.splits tx_event.splits)

lemma Send_once_rx [simp]: "rx (snd (Send_once d s)) = rx s"
  using sys_send_rx [of d s] by (cases "sys_send d s") (simp add: Send_once_def Close_def)

lemma Send_rx: "rx (snd (Send d s)) = rx s"
proof (induction d s rule: Send.induct)
  case (1 d s)
  obtain r s' where rs: "sys_send d s = (r, s')" by force
  have "rx s' = rx s" using sys_send_rx [of d s] by (simp add: rs)
  then show ?case
    using "1.IH" [OF _ rs [symmetric]] by (simp add: Send.simps [of d s] rs Close_def)
qed

lemma SendResponse_rx [simp]: "rx (snd (SendResponseReplicationReq m s)) = rx s"
  by (simp add: SendResponseReplicationReq_def Send_rx)

text \<open>\<^verbatim>\<open>IFAFlow\<close>: a request with factory id -1 (the closed connection) ends the loop.\<close>

function IFAFlow :: "ServerStub \<Rightarrow> LaptopFactory \<Rightarrow> crash + ServerStub \<times> LaptopFactory" where
  "IFAFlow stub s =
     (case ReceiveReplicationReq stub of (req, stub1) \<Rightarrow>
        if rr_factory_id req = -1 then Inr (stub1, s\<lparr>primary_id := -1\<rparr>)
        else bindE (IFA_apply req s) (\<lambda>s1.
          IFAFlow (snd (SendResponseReplicationReq ''DONE'' stub1)) s1))"
  by pat_completeness auto
termination
  by (relation "measure (\<lambda>(stub, s). size stub)")
    (auto simp: size_Socket_ext_def dest: ReceiveReplicationReq_rx_size [OF sym])

declare IFAFlow.simps [simp del]

section \<open>Serving orders and reads\<close>

definition lookup_record :: "cint \<Rightarrow> LaptopFactory \<Rightarrow> CustomerRecord" where
  "lookup_record cid s =
     (case map_find cid (customer_record s) of
        Some v \<Rightarrow> setLastOrder v (setCustomerId cid new_CustomerRecord)
      | None \<Rightarrow> new_CustomerRecord)"

function EngineerFlow ::
  "cint \<Rightarrow> ServerStub \<Rightarrow> LaptopFactory \<Rightarrow> crash + ServerStub \<times> LaptopFactory" where
  "EngineerFlow engineer_id stub s =
     (case ReceiveRequest stub of (order, stub1) \<Rightarrow>
        if \<not> CustomerOrder_IsValid order then Inr (stub1, s)
        else if co_request_type order = 1 then
          bindE (CreateRegularLaptop order engineer_id s) (\<lambda>r.
            EngineerFlow engineer_id (snd (SendLaptop (fst r) stub1)) (snd r))
        else if co_request_type order = 2 then
          EngineerFlow engineer_id
            (snd (ReturnRecord (lookup_record (co_customer_id order) s) stub1)) s
        else EngineerFlow engineer_id stub1 s)"
  by pat_completeness auto
termination
  by (relation "measure (\<lambda>(i, stub, s). size stub)")
    (auto simp: size_Socket_ext_def SendLaptop_def ReturnRecord_def dest: ReceiveRequest_rx_size [OF sym])

function ReadEngineerFlow :: "LaptopFactory \<Rightarrow> ServerStub \<Rightarrow> ServerStub" where
  "ReadEngineerFlow s stub =
     (case ReceiveRequest stub of (order, stub1) \<Rightarrow>
        if \<not> CustomerOrder_IsValid order then stub1
        else if co_request_type order = 2 then
          ReadEngineerFlow s (snd (ReturnRecord (lookup_record (co_customer_id order) s) stub1))
        else ReadEngineerFlow s stub1)"
  by pat_completeness auto
termination
  by (relation "measure (\<lambda>(s, stub). size stub)")
    (auto simp: size_Socket_ext_def ReturnRecord_def dest: ReceiveRequest_rx_size [OF sym])

declare EngineerFlow.simps [simp del] ReadEngineerFlow.simps [simp del]

end
