(* ===== verification/Admin.thy ===== *)
theory Admin
  imports Factory
begin

text \<open>
  What the admin thread does to the state of a resource manager: the network part of a round
  changes only the peers' stubs and their live flags, a round always succeeds in a well-formed
  state, and its local effect is to append and apply one operation. The invariant \<open>rm_ok\<close> is kept.
\<close>

section \<open>Well-formed states\<close>

definition peers_ok :: "LaptopFactory \<Rightarrow> bool" where
  "peers_ok s \<longleftrightarrow> (let n = nat (sint (peer_count s)) in
     n \<le> length (peers s) \<and> length (peerNodes s) = n \<and> length (livePeers s) = n)"

definition indices_ok :: "LaptopFactory \<Rightarrow> bool" where
  "indices_ok s \<longleftrightarrow> sint (last_index s) = int (length (smr_log s)) - 1
     \<and> -1 \<le> sint (committed_index s) \<and> sint (committed_index s) \<le> sint (last_index s)"

definition rm_ok :: "LaptopFactory \<Rightarrow> bool" where
  "rm_ok s \<longleftrightarrow> peers_ok s \<and> indices_ok s \<and> map_ok (customer_record s) \<and> map_ok (txn_log s)"

text \<open>Room for \<open>n\<close> more log entries before an index would overflow.\<close>

definition log_room :: "nat \<Rightarrow> LaptopFactory \<Rightarrow> bool" where
  "log_room n s \<longleftrightarrow> length (smr_log s) + n < 2 ^ 31"

section \<open>Network effects stay in the network part of the state\<close>

definition only_net :: "LaptopFactory \<Rightarrow> LaptopFactory \<Rightarrow> bool" where
  "only_net s t \<longleftrightarrow> t = s\<lparr>peerNodes := peerNodes t, livePeers := livePeers t\<rparr>
     \<and> length (peerNodes t) = length (peerNodes s) \<and> length (livePeers t) = length (livePeers s)"

lemma only_net_refl [simp]: "only_net s s"
  by (simp add: only_net_def)

lemma only_net_trans [trans]: "only_net s t \<Longrightarrow> only_net t u \<Longrightarrow> only_net s u"
  unfolding only_net_def by (cases s; cases t; cases u) simp

lemma only_net_set_node [simp]: "only_net s (set_node i n t) \<longleftrightarrow> only_net s t"
  by (cases s; cases t) (simp add: only_net_def set_node_def)

lemma only_net_set_live [simp]: "only_net s (set_live i b t) \<longleftrightarrow> only_net s t"
  by (cases s; cases t) (simp add: only_net_def set_live_def)

lemma only_net_fields:
  assumes "only_net s t"
  shows "arq t = arq s" "customer_record t = customer_record s" "smr_log t = smr_log s"
    "last_index t = last_index s" "committed_index t = committed_index s"
    "primary_id t = primary_id s" "factory_id t = factory_id s" "peers t = peers s"
    "peer_count t = peer_count s" "txn_log t = txn_log s" "files t = files s"
    "admin_id t = admin_id s"
  using assms by (cases s; cases t; simp add: only_net_def)+

lemma only_net_peers_ok: "only_net s t \<Longrightarrow> peers_ok t \<longleftrightarrow> peers_ok s"
  by (simp add: peers_ok_def only_net_fields) (simp add: only_net_def)

lemma only_net_rm_ok: "only_net s t \<Longrightarrow> rm_ok t \<longleftrightarrow> rm_ok s"
  by (simp add: rm_ok_def only_net_peers_ok indices_ok_def only_net_fields)

lemma only_net_peer_range: "only_net s t \<Longrightarrow> peer_range t = peer_range s"
  by (simp add: peer_range_def only_net_fields)

lemma peers_ok_in_bounds: "peers_ok s \<Longrightarrow> i \<in> set (peer_range s) \<Longrightarrow> peer_in_bounds i s"
  by (auto simp: peers_ok_def peer_range_def peer_in_bounds_def Let_def)

lemma only_net_in_bounds: "only_net s t \<Longrightarrow> peer_in_bounds i t \<longleftrightarrow> peer_in_bounds i s"
  by (simp add: peer_in_bounds_def only_net_fields) (simp add: only_net_def)

text \<open>Each network operation succeeds on a peer that is in bounds, and has only network effects.\<close>

lemma sendAllRequests_net:
  assumes "peer_in_bounds i s"
  shows "\<exists>t. sendAllRequests i s = Inr t \<and> only_net s t"
  unfolding sendAllRequests_def
  by (rule for_loop_total) (auto simp: only_net_in_bounds assms split: prod.splits)

lemma connect_peer_net:
  assumes "peer_in_bounds i s"
  shows "\<exists>t. connect_peer i s = Inr t \<and> only_net s t"
  using assms by (auto simp: connect_peer_def split: prod.splits)

lemma replicate_to_net:
  assumes "peer_in_bounds i s"
  shows "\<exists>t. replicate_to op1 i s = Inr t \<and> only_net s t"
proof -
  have "\<exists>t. sendAllRequests i (set_live i True (set_node i n s)) = Inr t \<and> only_net s t" for n
    using sendAllRequests_net [of i "set_live i True (set_node i n s)"] assms
      only_net_trans [of s "set_live i True (set_node i n s)"] only_net_in_bounds
    by (metis only_net_refl only_net_set_live only_net_set_node)
  then show ?thesis
    using assms by (auto simp: replicate_to_def split: prod.splits)
qed

lemma for_loop_net:
  assumes "peers_ok s" and "\<And>i t. peer_in_bounds i t \<Longrightarrow> \<exists>u. f i t = Inr u \<and> only_net t u"
  shows "\<exists>t. for_loop f (peer_range s) s = Inr t \<and> only_net s t"
proof (rule for_loop_total)
  fix i t
  assume "i \<in> set (peer_range s)" "only_net s t"
  then have "peer_in_bounds i t"
    using peers_ok_in_bounds [OF assms(1)] only_net_in_bounds by blast
  then show "\<exists>u. f i t = Inr u \<and> only_net s u"
    using assms(2) only_net_trans [OF \<open>only_net s t\<close>] by blast
qed simp

section \<open>Catching up\<close>

lemma nat_int_pred: "nat (int n - 1) = n - Suc 0"
  by arith

definition caught_up :: "LaptopFactory \<Rightarrow> LaptopFactory" where
  "caught_up s =
     (if sint (committed_index s) < sint (last_index s)
      then s\<lparr>customer_record := map_assign (arg1 (last (smr_log s))) (arg2 (last (smr_log s)))
               (customer_record s), committed_index := last_index s\<rparr>
      else s)"

lemma map_assign_idem: "map_ok m \<Longrightarrow> map_assign k v (map_assign k v m) = map_assign k v m"
  by (rule imap.assign_same) (simp_all add: map_rules)

lemma sint_eq_word: "sint a = sint b \<Longrightarrow> a = (b :: cint)"
  by (rule signed_word_eqI)

lemma catch_up_eq:
  "indices_ok s \<Longrightarrow> map_ok (customer_record s) \<Longrightarrow> catch_up s = Inr (caught_up s)"
proof (induction s rule: catch_up.induct)
  case (1 s)
  show ?case
  proof (cases "sint (committed_index s) < sint (last_index s)")
    case False
    then show ?thesis by (simp add: catch_up.simps [of s] caught_up_def)
  next
    case True
    let ?op = "smr_log s ! nat (sint (last_index s))"
    let ?t = "updateCustomerRecord ?op s"
    have len: "sint (last_index s) = int (length (smr_log s)) - 1"
      and low: "-1 \<le> sint (committed_index s)"
      using "1.prems"(1) by (simp_all add: indices_ok_def)
    have li: "sint (last_index s) = int (length (smr_log s)) - 1" "0 \<le> sint (last_index s)"
      using len low True by linarith+
    then have "0 < length (smr_log s)" by linarith
    then have ne: "smr_log s \<noteq> []" by simp
    have nth: "?op = last (smr_log s)" "nat (sint (last_index s)) < length (smr_log s)"
      using li ne nat_int_pred [of "length (smr_log s)"] by (simp_all add: last_conv_nth)
    have t: "indices_ok ?t" "map_ok (customer_record ?t)"
      using "1.prems" True
      by (simp_all add: indices_ok_def updateCustomerRecord_def sint_Suc [OF True] map_rules)
    have ct: "caught_up ?t = caught_up s"
    proof (cases "sint (committed_index s) + 1 < sint (last_index s)")
      case True2: True
      then show ?thesis
        using True "1.prems"(2) nth(1)
        by (simp add: caught_up_def updateCustomerRecord_def sint_Suc [OF True] map_assign_idem)
    next
      case False
      then have "committed_index s + 1 = last_index s"
        using True by (intro sint_eq_word) (simp add: sint_Suc [OF True])
      then show ?thesis
        using True False nth(1) by (simp add: caught_up_def updateCustomerRecord_def)
    qed
    have "catch_up ?t = Inr (caught_up ?t)"
      using "1.IH" [OF True] li nth t by blast
    then show ?thesis
      using True li(2) nth(2) ct by (simp add: catch_up.simps [of s])
  qed
qed

section \<open>A round of the admin thread\<close>

text \<open>The local state in which a round applies its operation.\<close>

definition primary_form :: "LaptopFactory \<Rightarrow> LaptopFactory" where
  "primary_form s = (if primary_id s \<noteq> factory_id s
     then (caught_up s)\<lparr>primary_id := factory_id s\<rparr> else s)"

lemma primary_form_fields [simp]:
  "arq (primary_form s) = arq s" "smr_log (primary_form s) = smr_log s"
  "last_index (primary_form s) = last_index s" "primary_id (primary_form s) = factory_id s"
  "factory_id (primary_form s) = factory_id s" "peers (primary_form s) = peers s"
  "peer_count (primary_form s) = peer_count s" "peerNodes (primary_form s) = peerNodes s"
  "livePeers (primary_form s) = livePeers s" "txn_log (primary_form s) = txn_log s"
  "files (primary_form s) = files s" "admin_id (primary_form s) = admin_id s"
  by (auto simp: primary_form_def caught_up_def)

lemma apply_locally_fields [simp]:
  "arq (apply_locally p s) = arq s" "smr_log (apply_locally p s) = smr_log s @ [p]"
  "last_index (apply_locally p s) = last_index s + 1"
  "committed_index (apply_locally p s) = committed_index s + 1"
  "customer_record (apply_locally p s) = map_assign (arg1 p) (arg2 p) (customer_record s)"
  "primary_id (apply_locally p s) = primary_id s" "factory_id (apply_locally p s) = factory_id s"
  "peers (apply_locally p s) = peers s" "peer_count (apply_locally p s) = peer_count s"
  "peerNodes (apply_locally p s) = peerNodes s" "livePeers (apply_locally p s) = livePeers s"
  "txn_log (apply_locally p s) = txn_log s" "files (apply_locally p s) = files s"
  "admin_id (apply_locally p s) = admin_id s"
  by (simp_all add: apply_locally_def)

lemma peers_ok_cong:
  "peers t = peers s \<Longrightarrow> peer_count t = peer_count s \<Longrightarrow> length (peerNodes t) = length (peerNodes s) \<Longrightarrow>
   length (livePeers t) = length (livePeers s) \<Longrightarrow> peers_ok t \<longleftrightarrow> peers_ok s"
  by (simp add: peers_ok_def)

lemma rm_ok_primary_form: "rm_ok s \<Longrightarrow> rm_ok (primary_form s)"
  using peers_ok_cong [of "primary_form s" s]
  by (auto simp: rm_ok_def indices_ok_def)
    (auto simp: primary_form_def caught_up_def map_rules)

lemma sint_succ_room: "sint (c :: cint) < 2 ^ 31 - 1 \<Longrightarrow> sint (c + 1) = sint c + 1"
  using sint_Suc [of c "2147483647"] by simp

lemma rm_ok_apply_locally:
  assumes "rm_ok s" and "log_room 1 s"
  shows "rm_ok (apply_locally p s)"
proof -
  have "sint (last_index s) < 2 ^ 31 - 1" "sint (committed_index s) < 2 ^ 31 - 1"
    using assms by (auto simp: rm_ok_def indices_ok_def log_room_def)
  then show ?thesis
    using assms peers_ok_cong [of "apply_locally p s" s]
    by (auto simp: rm_ok_def indices_ok_def sint_succ_room map_rules)
qed

lemma become_primary_eq:
  assumes "rm_ok s"
  shows "\<exists>t. become_primary s = Inr t \<and> only_net (primary_form s) t"
proof (cases "primary_id s = factory_id s")
  case True
  then show ?thesis by (simp add: become_primary_def primary_form_def)
next
  case False
  let ?s = "s\<lparr>primary_id := factory_id s\<rparr>"
  have ok: "peers_ok ?s" "indices_ok ?s" "map_ok (customer_record ?s)"
    using assms peers_ok_cong [of ?s s] by (simp_all add: rm_ok_def indices_ok_def)
  obtain t where t: "for_loop connect_peer (peer_range ?s) ?s = Inr t" "only_net ?s t"
    using for_loop_net [where f = connect_peer, OF ok(1)] connect_peer_net by blast
  have range: "peer_range ?s = peer_range s" by (simp add: peer_range_def)
  have "catch_up t = Inr (caught_up t)"
    using ok by (intro catch_up_eq) (simp_all add: indices_ok_def only_net_fields [OF t(2)])
  moreover have "only_net (primary_form s) (caught_up t)"
    using t(2) False
    by (cases s; cases t) (auto simp: only_net_def primary_form_def caught_up_def)
  ultimately show ?thesis
    using t(1) False by (simp add: become_primary_def range)
qed

text \<open>A round never fails in a well-formed state; its result and effect:\<close>

lemma AdminThread_round_eq:
  assumes "rm_ok s"
  shows "\<exists>t. AdminThread_round aid req s = Inr (SetAdminId aid (ar_laptop req), t)
     \<and> only_net (apply_locally (request_op req) (primary_form s)) t"
proof -
  obtain s1 where s1: "become_primary s = Inr s1" "only_net (primary_form s) s1"
    using become_primary_eq [OF assms] by blast
  let ?a = "apply_locally (request_op req)"
  have "peers_ok (?a s1)"
    using assms rm_ok_primary_form [OF assms] only_net_peers_ok [OF s1(2)]
      peers_ok_cong [of "?a s1" s1] by (simp add: rm_ok_def)
  then obtain t where t: "for_loop (replicate_to (request_op req)) (peer_range (?a s1)) (?a s1) = Inr t"
    "only_net (?a s1) t"
    using for_loop_net [where f = "replicate_to (request_op req)"] replicate_to_net by blast
  have range: "peer_range (?a s1) = peer_range s1" by (simp add: peer_range_def)
  have "only_net (?a (primary_form s)) (?a s1)"
    using s1(2) by (cases "primary_form s"; cases s1) (simp add: only_net_def apply_locally_def)
  then have "only_net (?a (primary_form s)) t" using t(2) by (rule only_net_trans)
  then show ?thesis
    using s1(1) t(1) by (simp add: AdminThread_round_def range)
qed

lemma AdminThread_round_rm_ok:
  assumes "rm_ok s" and "log_room 1 s" and "AdminThread_round aid req s = Inr (l, t)"
  shows "rm_ok t"
proof -
  have "rm_ok (apply_locally (request_op req) (primary_form s))"
    using assms by (intro rm_ok_apply_locally rm_ok_primary_form) (simp_all add: log_room_def)
  then show ?thesis
    using AdminThread_round_eq [OF assms(1), of aid req] assms(3) only_net_rm_ok by fastforce
qed

section \<open>Serving the queue\<close>

text \<open>The local effect of serving a list of requests in order.\<close>

definition apply_request :: "AdminRequest \<Rightarrow> LaptopFactory \<Rightarrow> LaptopFactory" where
  "apply_request req s = apply_locally (request_op req) (primary_form s)"

lemma rm_ok_apply_request: "rm_ok s \<Longrightarrow> log_room 1 s \<Longrightarrow> rm_ok (apply_request req s)"
  unfolding apply_request_def
  by (intro rm_ok_apply_locally rm_ok_primary_form) (simp_all add: log_room_def)

lemma rm_ok_arq [simp]: "rm_ok (s\<lparr>arq := q\<rparr>) \<longleftrightarrow> rm_ok s"
  by (simp add: rm_ok_def peers_ok_def indices_ok_def)

text \<open>An order placed when the queue is empty: one round, with the order's own laptop as answer.\<close>

definition laptop_for :: "CustomerOrder \<Rightarrow> cint \<Rightarrow> cint \<Rightarrow> LaptopInfo" where
  "laptop_for order engineer_id aid =
     SetAdminId aid (SetEngineerId engineer_id (CopyOrder order new_LaptopInfo))"

definition order_op :: "CustomerOrder \<Rightarrow> MapOp" where
  "order_op order = \<lparr>opcode = 1, arg1 = co_customer_id order, arg2 = co_order_number order\<rparr>"

lemma CreateRegularLaptop_eq:
  assumes "rm_ok s" and "arq s = []"
  shows "\<exists>t. CreateRegularLaptop order eng s = Inr (laptop_for order eng (admin_id s), t)
     \<and> only_net (apply_locally (order_op order) (primary_form s)) t"
proof -
  let ?req = "\<lparr>ar_laptop = SetEngineerId eng (CopyOrder order new_LaptopInfo),
    ar_customer_id = co_customer_id order, ar_last_order_num = co_order_number order\<rparr>"
  have same: "s\<lparr>arq := []\<rparr> = s" using assms(2) by (cases s) simp
  obtain t where "AdminThread_round (admin_id s) ?req s =
      Inr (SetAdminId (admin_id s) (ar_laptop ?req), t)"
    "only_net (apply_locally (request_op ?req) (primary_form s)) t"
    using AdminThread_round_eq [OF assms(1)] by blast
  then show ?thesis
    by (simp add: CreateRegularLaptop_def admin_serve.simps AdminThread_step_def assms(2) same
        laptop_for_def order_op_def request_op_def)
qed

end
