(* ===== verification/Handlers.thy ===== *)
theory Handlers
  imports Admin
begin

text \<open>
  The transaction handlers of a resource manager (\<^verbatim>\<open>TMPrepare\<close>, \<^verbatim>\<open>TMCommit\<close>, \<^verbatim>\<open>TMAbort\<close>,
  \<^verbatim>\<open>PeerPrepare\<close>) and the dispatch on identification messages. Each handler is its local part
  (\<open>prepare_txn\<close>, \<open>commit_txn\<close>, \<open>abort_txn\<close>) between the receipt of the request and the reply.
  The handlers end by calling the dispatcher again; the dispatcher here makes that call, with the
  depth of the call stack as its bound.
\<close>

section \<open>Prepare\<close>

text \<open>
  The loop over the read records: a record of a known customer must show the current last order.
\<close>

fun reads_consistent :: "CustomerRecord list \<Rightarrow> cint imap \<Rightarrow> bool" where
  "reads_consistent [] m = True"
| "reads_consistent (record # rs) m =
     (if map_find (cr_customer_id record) m \<noteq> None
         \<and> Some (cr_last_order record) \<noteq> map_find (cr_customer_id record) m
      then False else reads_consistent rs m)"

text \<open>The write records up to the first invalid one, as log records of operation 1.\<close>

definition prepare_records :: "Transaction \<Rightarrow> TxnLogRequest list" where
  "prepare_records txn =
     map (\<lambda>order. mk_TxnLogRequest (txn_id txn) 1 (co_customer_id order) (co_order_number order)
            (co_request_type order))
       (takeWhile CustomerOrder_IsValid (writeRecords txn))"

definition store_txn_log_in_txn_map :: "Transaction \<Rightarrow> LaptopFactory \<Rightarrow> crash + LaptopFactory" where
  "store_txn_log_in_txn_map txn s =
     (let txnRecords = prepare_records txn
      in store_txn_log_record txnRecords
           (s\<lparr>txn_log := map_insert (txn_id txn) txnRecords (txn_log s)\<rparr>))"

text \<open>
  One round of \<^verbatim>\<open>CopyTranlogReplica\<close>: only a stub whose \<^verbatim>\<open>Init\<close> returns 1 is used, and \<^verbatim>\<open>Init\<close>
  returns 0 for one that is connected already.
\<close>

definition copy_to_peer :: "Transaction \<Rightarrow> nat \<Rightarrow> LaptopFactory \<Rightarrow> crash + LaptopFactory" where
  "copy_to_peer txn i s =
     (if \<not> peer_in_bounds i s then Inl Undefined else
      case ClientStub_Init (peer_ip (peers s ! i)) (peer_port (peers s ! i)) (peerNodes s ! i) of
        (ok, n) \<Rightarrow>
          if ok = 1 then
            (case SendIDMsg ''PrPrepare'' n of (_, n1) \<Rightarrow>
               bindE (SendTxnPrepareRequest txn n1) (\<lambda>(response, n2).
                 Inr (set_node i n2 (set_live i True s))))
          else Inr (set_node i n s))"

definition CopyTranlogReplica :: "Transaction \<Rightarrow> LaptopFactory \<Rightarrow> crash + LaptopFactory" where
  "CopyTranlogReplica txn s = for_loop (copy_to_peer txn) (peer_range s) s"

definition prepare_txn :: "Transaction \<Rightarrow> LaptopFactory \<Rightarrow> crash + string \<times> LaptopFactory" where
  "prepare_txn txn s =
     (if reads_consistent (readRecords txn) (customer_record s)
      then bindE (store_txn_log_in_txn_map txn s) (\<lambda>s1.
           bindE (CopyTranlogReplica txn s1) (\<lambda>s2. Inr (''Ok'', s2)))
      else Inr (''No'', s))"

definition TMPrepare :: "ServerStub \<Rightarrow> LaptopFactory \<Rightarrow> crash + ServerStub \<times> LaptopFactory" where
  "TMPrepare stub s =
     bindE (ReceiveTxnRequest stub) (\<lambda>(txn, stub1).
     bindE (prepare_txn txn s) (\<lambda>(response, s1).
     Inr (snd (SendResponseReplicationReq response stub1), s1)))"

definition PeerPrepare :: "ServerStub \<Rightarrow> LaptopFactory \<Rightarrow> crash + ServerStub \<times> LaptopFactory" where
  "PeerPrepare stub s =
     bindE (ReceiveTxnRequest stub) (\<lambda>(txn, stub1).
     bindE (store_txn_log_in_txn_map txn s) (\<lambda>s1.
     Inr (snd (SendResponseReplicationReq ''Ok'' stub1), s1)))"

section \<open>Commit\<close>

text \<open>
  The loop over the transaction's log records. Every record, whatever its operation, is copied to
  the new log, doubled there as a record of operation 2, and placed as an order.
\<close>

fun commit_records ::
  "cint \<Rightarrow> cint \<Rightarrow> TxnLogRequest list \<Rightarrow>
   TxnLogRequest list imap \<times> TxnLogRequest list \<times> LaptopFactory \<Rightarrow>
   crash + TxnLogRequest list imap \<times> TxnLogRequest list \<times> LaptopFactory" where
  "commit_records t eng [] st = Inr st"
| "commit_records t eng (txnRec # recs) (new_txn_log, txnRecordsCommitted, s) =
     (let log1 = snd (update_value new_txn_log (tl_txn_id txnRec) txnRec);
          order = SetOrder (tl_customer_id txnRec) (tl_last_order_num txnRec)
                    (tl_customer_opr txnRec) new_CustomerOrder;
          rec = mk_TxnLogRequest t 2 (tl_customer_id txnRec) (tl_last_order_num txnRec)
                    (tl_customer_opr txnRec);
          log2 = snd (update_value log1 (tl_txn_id txnRec) rec)
      in bindE (CreateRegularLaptop order eng s) (\<lambda>(laptop, s').
           commit_records t eng recs (log2, txnRecordsCommitted @ [rec], s')))"

text \<open>After the loop the transaction log is replaced by the new one.\<close>

definition commit_txn :: "cint \<Rightarrow> cint \<Rightarrow> LaptopFactory \<Rightarrow> crash + LaptopFactory" where
  "commit_txn txnidtocommit eng s =
     bindE (case map_find txnidtocommit (txn_log s) of
              Some recs \<Rightarrow> commit_records txnidtocommit eng recs ([], [], s)
            | None \<Rightarrow> Inr ([], [], s)) (\<lambda>(new_txn_log, txnRecordsCommitted, s1).
     bindE (store_txn_log_record txnRecordsCommitted (s1\<lparr>txn_log := new_txn_log\<rparr>))
       store_cust_record_txn)"

definition TMCommit ::
  "cint \<Rightarrow> ServerStub \<Rightarrow> LaptopFactory \<Rightarrow> crash + ServerStub \<times> LaptopFactory" where
  "TMCommit engineerId stub s =
     bindE (ReceiveTxnId stub) (\<lambda>(txnidtocommit, stub1).
     bindE (commit_txn txnidtocommit engineerId s) (\<lambda>s1.
     Inr (snd (SendResponseReplicationReq ''Done commit'' stub1), s1)))"

section \<open>Abort\<close>

definition abort_txn :: "cint \<Rightarrow> LaptopFactory \<Rightarrow> crash + LaptopFactory" where
  "abort_txn txnidtoabort s =
     (let rec = mk_TxnLogRequest txnidtoabort 3 (-1) (-1) (-1)
      in store_txn_log_record [rec]
           (s\<lparr>txn_log := snd (update_value (txn_log s) txnidtoabort rec)\<rparr>))"

definition TMAbort :: "ServerStub \<Rightarrow> LaptopFactory \<Rightarrow> crash + ServerStub \<times> LaptopFactory" where
  "TMAbort stub s =
     bindE (ReceiveTxnId stub) (\<lambda>(txnidtoabort, stub1).
     bindE (abort_txn txnidtoabort s) (\<lambda>s1.
     Inr (snd (SendResponseReplicationReq ''Done abort'' stub1), s1)))"

section \<open>Dispatch\<close>

fun ReceiveIDMsgAndInitiateFlow ::
  "nat \<Rightarrow> cint \<Rightarrow> ServerStub \<Rightarrow> LaptopFactory \<Rightarrow> crash + ServerStub \<times> LaptopFactory" where
  "ReceiveIDMsgAndInitiateFlow 0 engineerId stub s = Inl StackOverflow"
| "ReceiveIDMsgAndInitiateFlow (Suc depth) engineerId stub s =
     (case IdentificationMsg stub of (IDMsg, stub1) \<Rightarrow>
        if IDMsg = ''CLIENT'' then Inr (ReadEngineerFlow s stub1, s)
        else if IDMsg = ''PFA'' then IFAFlow stub1 s
        else if IDMsg = ''TMPrepare'' then
          bindE (TMPrepare stub1 s) (\<lambda>(stub2, s2).
            ReceiveIDMsgAndInitiateFlow depth engineerId stub2 s2)
        else if IDMsg = ''TMCommit'' then
          bindE (TMCommit engineerId stub1 s) (\<lambda>(stub2, s2).
            ReceiveIDMsgAndInitiateFlow depth engineerId stub2 s2)
        else if IDMsg = ''TMAbort'' then
          bindE (TMAbort stub1 s) (\<lambda>(stub2, s2).
            ReceiveIDMsgAndInitiateFlow depth engineerId stub2 s2)
        else if IDMsg = ''PrPrepare'' then
          bindE (PeerPrepare stub1 s) (\<lambda>(stub2, s2).
            ReceiveIDMsgAndInitiateFlow depth engineerId stub2 s2)
        else Inr (stub1, s))"

text \<open>The thread of one connection; the stub, and with it the socket, is destroyed at its end.\<close>

definition EngineerIFAThread ::
  "nat \<Rightarrow> ServerStub \<Rightarrow> cint \<Rightarrow> LaptopFactory \<Rightarrow> crash + ServerStub \<times> LaptopFactory" where
  "EngineerIFAThread depth socket engineerId s =
     bindE (ReceiveIDMsgAndInitiateFlow depth engineerId socket s)
       (\<lambda>(stub, s'). Inr (destroy_Socket stub, s'))"

lemmas handler_defs = TMPrepare_def TMCommit_def TMAbort_def PeerPrepare_def

section \<open>The transaction log\<close>

text \<open>Every record is filed under its own transaction.\<close>

definition log_ok :: "TxnLogRequest list imap \<Rightarrow> bool" where
  "log_ok d \<longleftrightarrow> map_ok d \<and> (\<forall>kv \<in> set d. \<forall>r \<in> set (snd kv). tl_txn_id r = fst kv)"

lemma map_find_in_set: "map_find k m = Some v \<Longrightarrow> (k, v) \<in> set m"
  by (induction k m rule: map_find.induct) (auto split: if_splits)

lemma log_ok_find: "log_ok d \<Longrightarrow> map_find k d = Some recs \<Longrightarrow> r \<in> set recs \<Longrightarrow> tl_txn_id r = k"
  by (fastforce simp: log_ok_def dest: map_find_in_set)

lemma in_set_map_insert: "kv \<in> set (map_insert k v m) \<Longrightarrow> kv = (k, v) \<or> kv \<in> set m"
  by (induction k v m rule: map_insert.induct) (auto split: if_splits)

lemma in_set_map_assign: "kv \<in> set (map_assign k v m) \<Longrightarrow> kv = (k, v) \<or> kv \<in> set m"
  by (induction k v m rule: map_assign.induct) (auto split: if_splits)

lemma log_ok_insert:
  "log_ok d \<Longrightarrow> \<forall>r \<in> set recs. tl_txn_id r = k \<Longrightarrow> log_ok (map_insert k recs d)"
  by (fastforce simp: log_ok_def map_rules dest: in_set_map_insert)

lemma log_ok_update_value: "log_ok d \<Longrightarrow> tl_txn_id r = k \<Longrightarrow> log_ok (snd (update_value d k r))"
  by (fastforce simp: log_ok_def update_value_def map_rules split: option.splits
      dest!: in_set_map_insert in_set_map_assign map_find_in_set)

lemma prepare_records_id: "r \<in> set (prepare_records txn) \<Longrightarrow> tl_txn_id r = txn_id txn"
  by (auto simp: prepare_records_def mk_TxnLogRequest_def)

section \<open>Effects of the local operations\<close>

definition disk_writable :: "disk \<Rightarrow> bool" where
  "disk_writable d \<longleftrightarrow> cust_writable d \<and> log_writable d"

definition log_content :: "disk \<Rightarrow> string" where
  "log_content d = (case logFile d of None \<Rightarrow> [] | Some t \<Rightarrow> t)"

lemma store_txn_log_record_eq:
  "disk_writable (files s) \<Longrightarrow> store_txn_log_record recs s =
     Inr (s\<lparr>files := (files s)\<lparr>logFile := Some (log_content (files s) @ log_text recs)\<rparr>\<rparr>)"
  by (simp add: store_txn_log_record_def append_log_file_def disk_writable_def log_content_def)

lemma store_cust_record_txn_eq:
  "disk_writable (files s) \<Longrightarrow> store_cust_record_txn s =
     Inr (s\<lparr>files := (files s)\<lparr>custRecFile := Some (cust_text (customer_record s))\<rparr>\<rparr>)"
  by (simp add: store_cust_record_txn_def write_cust_file_def disk_writable_def)

text \<open>Appending a list of operations as the primary does.\<close>

definition apply_ops :: "MapOp list \<Rightarrow> LaptopFactory \<Rightarrow> LaptopFactory" where
  "apply_ops ops s = fold (\<lambda>p s. apply_locally p (primary_form s)) ops s"

definition op_write :: "MapOp \<Rightarrow> cint \<times> cint" where
  "op_write p = (arg1 p, arg2 p)"

lemma primary_form_id: "primary_id s = factory_id s \<Longrightarrow> primary_form s = s"
  by (simp add: primary_form_def)

lemma apply_ops_Cons: "apply_ops (p # ops) s = apply_ops ops (apply_locally p (primary_form s))"
  by (simp add: apply_ops_def)

lemma apply_ops_fields [simp]:
  "arq (apply_ops ops s) = arq s" "factory_id (apply_ops ops s) = factory_id s"
  "peers (apply_ops ops s) = peers s" "peer_count (apply_ops ops s) = peer_count s"
  "txn_log (apply_ops ops s) = txn_log s" "files (apply_ops ops s) = files s"
  "admin_id (apply_ops ops s) = admin_id s" "smr_log (apply_ops ops s) = smr_log s @ ops"
  by (induction ops arbitrary: s) (simp_all add: apply_ops_Cons, simp_all add: apply_ops_def)

lemma customer_record_apply_ops:
  "ops \<noteq> [] \<Longrightarrow> customer_record (apply_ops ops s) =
     imap.write_all (map op_write ops) (customer_record (primary_form s))"
proof (induction ops arbitrary: s)
  case Nil
  then show ?case by simp
next
  case (Cons p ops)
  let ?s = "apply_locally p (primary_form s)"
  show ?case
  proof (cases "ops = []")
    case True
    then show ?thesis by (simp add: apply_ops_def imap.write_all_def op_write_def)
  next
    case False
    have "primary_form ?s = ?s" by (simp add: primary_form_id)
    then show ?thesis
      using Cons.IH [OF False, of ?s]
      by (simp add: apply_ops_Cons imap.write_all_def op_write_def)
  qed
qed

lemma rm_ok_apply_ops: "rm_ok s \<Longrightarrow> log_room (length ops) s \<Longrightarrow> rm_ok (apply_ops ops s)"
proof (induction ops arbitrary: s)
  case Nil
  then show ?case by (simp add: apply_ops_def)
next
  case (Cons p ops)
  have "rm_ok (apply_locally p (primary_form s))"
    using Cons.prems by (intro rm_ok_apply_locally rm_ok_primary_form) (simp_all add: log_room_def)
  then show ?case
    using Cons.IH [of "apply_locally p (primary_form s)"] Cons.prems(2)
    by (simp add: apply_ops_Cons log_room_def)
qed

lemma only_net_apply_locally: "only_net s t \<Longrightarrow> only_net (apply_locally p s) (apply_locally p t)"
  by (cases s; cases t) (simp add: only_net_def apply_locally_def)

lemma only_net_primary_form: "only_net s t \<Longrightarrow> only_net (primary_form s) (primary_form t)"
  by (cases s; cases t) (auto simp: only_net_def primary_form_def caught_up_def)

lemma only_net_apply_ops: "only_net s t \<Longrightarrow> only_net (apply_ops ops s) (apply_ops ops t)"
  by (induction ops arbitrary: s t)
    (simp_all add: apply_ops_def only_net_apply_locally only_net_primary_form)

section \<open>The commit loop\<close>

definition rec_op :: "TxnLogRequest \<Rightarrow> MapOp" where
  "rec_op r = \<lparr>opcode = 1, arg1 = tl_customer_id r, arg2 = tl_last_order_num r\<rparr>"

definition committed_rec :: "cint \<Rightarrow> TxnLogRequest \<Rightarrow> TxnLogRequest" where
  "committed_rec t r =
     mk_TxnLogRequest t 2 (tl_customer_id r) (tl_last_order_num r) (tl_customer_opr r)"

lemma tl_txn_id_committed_rec [simp]: "tl_txn_id (committed_rec t r) = t"
  by (simp add: committed_rec_def mk_TxnLogRequest_def)

text \<open>The log records of a committed transaction: each prepared record followed by its commit.\<close>

definition committed_log :: "cint \<Rightarrow> TxnLogRequest list \<Rightarrow> TxnLogRequest list" where
  "committed_log t recs = concat (map (\<lambda>r. [r, committed_rec t r]) recs)"

lemma order_op_rec: "order_op (SetOrder (tl_customer_id r) (tl_last_order_num r) c ord) = rec_op r"
  by (simp add: order_op_def SetOrder_def rec_op_def)

lemma commit_records_eq:
  assumes "rm_ok s" and "arq s = []" and "log_room (length recs) s"
    and "\<forall>r \<in> set recs. tl_txn_id r = t"
  shows "\<exists>s'. commit_records t eng recs (nl, cs, s) =
       Inr (fold (\<lambda>r d. snd (update_value d t r)) (committed_log t recs) nl,
            cs @ map (committed_rec t) recs, s')
     \<and> only_net (apply_ops (map rec_op recs) s) s'"
  using assms
proof (induction recs arbitrary: nl cs s)
  case Nil
  then show ?case by (simp add: committed_log_def apply_ops_def)
next
  case (Cons r recs)
  let ?order = "SetOrder (tl_customer_id r) (tl_last_order_num r) (tl_customer_opr r) new_CustomerOrder"
  obtain s1 where s1: "CreateRegularLaptop ?order eng s = Inr (laptop_for ?order eng (admin_id s), s1)"
    "only_net (apply_locally (rec_op r) (primary_form s)) s1"
    using CreateRegularLaptop_eq [OF Cons.prems(1,2)] order_op_rec by metis
  have ok1: "rm_ok (apply_locally (rec_op r) (primary_form s))"
    using Cons.prems by (intro rm_ok_apply_locally rm_ok_primary_form) (simp_all add: log_room_def)
  have pre: "rm_ok s1" "arq s1 = []" "log_room (length recs) s1" "\<forall>r \<in> set recs. tl_txn_id r = t"
    using ok1 only_net_rm_ok [OF s1(2)] only_net_fields [OF s1(2)] Cons.prems
    by (simp_all add: log_room_def)
  let ?nl = "snd (update_value (snd (update_value nl t r)) t (committed_rec t r))"
  obtain s' where s': "commit_records t eng recs (?nl, cs @ [committed_rec t r], s1) =
      Inr (fold (\<lambda>r d. snd (update_value d t r)) (committed_log t recs) ?nl,
        (cs @ [committed_rec t r]) @ map (committed_rec t) recs, s')"
    "only_net (apply_ops (map rec_op recs) s1) s'"
    using Cons.IH [OF pre] by blast
  have "only_net (apply_ops (map rec_op (r # recs)) s) s'"
    using only_net_trans [OF only_net_apply_ops [OF s1(2)] s'(2)] by (simp add: apply_ops_Cons)
  then show ?case
    using s1(1) s'(1) Cons.prems(4)
    by (simp add: committed_log_def Let_def flip: committed_rec_def)
qed

text \<open>Filing records under one key of an empty map.\<close>

lemma fold_update_value_one:
  "fold (\<lambda>r d. snd (update_value d t r)) recs [(t, old)] = [(t, old @ recs)]"
  by (induction recs arbitrary: old) (simp_all add: update_value_def)

lemma fold_update_value_empty:
  "recs \<noteq> [] \<Longrightarrow> fold (\<lambda>r d. snd (update_value d t r)) recs [] = [(t, recs)]"
  using fold_update_value_one [of t "tl recs" "[hd recs]"]
  by (cases recs) (simp_all add: update_value_def [of "[]"])

text \<open>
  The whole commit: what it does to the customer records, the operation log, the transaction log
  and the files.
\<close>

definition committed_state :: "cint \<Rightarrow> TxnLogRequest list \<Rightarrow> LaptopFactory \<Rightarrow> LaptopFactory" where
  "committed_state t recs s =
     (let s1 = apply_ops (map rec_op recs) s
      in s1\<lparr>txn_log := (if recs = [] then [] else [(t, committed_log t recs)]),
            files := (files s)\<lparr>logFile := Some (log_content (files s)
                                   @ log_text (map (committed_rec t) recs)),
                               custRecFile := Some (cust_text (customer_record s1))\<rparr>\<rparr>)"

definition logged :: "cint \<Rightarrow> LaptopFactory \<Rightarrow> TxnLogRequest list" where
  "logged t s = (case map_find t (txn_log s) of None \<Rightarrow> [] | Some recs \<Rightarrow> recs)"

lemma only_net_txn_files:
  "only_net s t \<Longrightarrow> only_net (s\<lparr>txn_log := l, files := d\<rparr>) (t\<lparr>txn_log := l, files := d\<rparr>)"
  by (cases s; cases t) (simp add: only_net_def)

lemma commit_txn_eq:
  assumes "rm_ok s" and "log_ok (txn_log s)" and "arq s = []" and "disk_writable (files s)"
    and "log_room (length (logged t s)) s"
  shows "\<exists>s'. commit_txn t eng s = Inr s' \<and> only_net (committed_state t (logged t s) s) s'"
proof -
  let ?recs = "logged t s"
  have ids: "\<forall>r \<in> set ?recs. tl_txn_id r = t"
    using log_ok_find [OF assms(2), of t]
    by (cases "map_find t (txn_log s)") (simp_all add: logged_def)
  obtain s1 where s1: "commit_records t eng ?recs ([], [], s) =
      Inr (fold (\<lambda>r d. snd (update_value d t r)) (committed_log t ?recs) [],
        map (committed_rec t) ?recs, s1)" "only_net (apply_ops (map rec_op ?recs) s) s1"
    using commit_records_eq [OF assms(1,3,5) ids, of eng "[]" "[]"] by auto
  have loop: "(case map_find t (txn_log s) of Some recs \<Rightarrow> commit_records t eng recs ([], [], s)
      | None \<Rightarrow> Inr ([], [], s)) = commit_records t eng ?recs ([], [], s)"
    by (simp add: logged_def split: option.splits)
  let ?nl = "if ?recs = [] then [] else [(t, committed_log t ?recs)]"
  have nl: "fold (\<lambda>r d. snd (update_value d t r)) (committed_log t ?recs) [] = ?nl"
  proof (cases "?recs = []")
    case True
    then show ?thesis by (simp add: committed_log_def)
  next
    case False
    then have "committed_log t ?recs \<noteq> []" by (cases ?recs) (simp_all add: committed_log_def)
    then show ?thesis using False by (simp add: fold_update_value_empty)
  qed
  let ?d = "(files s)\<lparr>logFile := Some (log_content (files s) @ log_text (map (committed_rec t) ?recs)),
      custRecFile := Some (cust_text (customer_record (apply_ops (map rec_op ?recs) s)))\<rparr>"
  have "commit_txn t eng s = Inr (s1\<lparr>txn_log := ?nl, files := ?d\<rparr>)"
    using assms(4) s1
    by (simp add: commit_txn_def loop nl store_txn_log_record_eq store_cust_record_txn_eq
        disk_writable_def only_net_fields [OF s1(2)] del: fold_simps)
  moreover have "only_net (committed_state t ?recs s) (s1\<lparr>txn_log := ?nl, files := ?d\<rparr>)"
    using only_net_txn_files [OF s1(2)] by (simp add: committed_state_def Let_def)
  ultimately show ?thesis by blast
qed

section \<open>The prepare step\<close>

text \<open>A transaction the 200000-byte blocks of the stubs can hold.\<close>

definition fits :: "Transaction \<Rightarrow> bool" where
  "fits t \<longleftrightarrow> lengths_ok t \<and> 12 + 8 * length (readRecords t) + 12 * length (writeRecords t) \<le> 200000"

lemma fits_lengths_ok [simp]: "fits t \<Longrightarrow> lengths_ok t"
  by (simp add: fits_def)

lemma fits_marshal [simp]: "fits t \<Longrightarrow> length (Transaction_Marshal e t) \<le> 200000"
  by (simp add: fits_def length_Transaction_Marshal)

lemma SendTxnPrepareRequest_total:
  assumes "fits t"
  shows "\<exists>r n. SendTxnPrepareRequest t s = Inr (r, n)"
proof -
  have "nat (sint (Transaction_Size t)) = length (Transaction_Marshal (host s) t)"
    using Transaction_Size_length [of t "host s"] fits_marshal [OF assms, of "host s"] assms by simp
  then show ?thesis
    using fits_marshal [OF assms, of "host s"]
    by (auto simp: SendTxnPrepareRequest_def Let_def split: prod.splits)
qed

lemma copy_to_peer_net:
  assumes "fits txn" and "peer_in_bounds i s"
  shows "\<exists>t. copy_to_peer txn i s = Inr t \<and> only_net s t"
proof (cases "ClientStub_Init (peer_ip (peers s ! i)) (peer_port (peers s ! i)) (peerNodes s ! i)")
  case (Pair ok n)
  obtain r n1 where id: "SendIDMsg ''PrPrepare'' n = (r, n1)" by force
  obtain m n2 where "SendTxnPrepareRequest txn n1 = Inr (m, n2)"
    using SendTxnPrepareRequest_total [OF assms(1)] by blast
  then show ?thesis
    using assms(2) by (simp add: copy_to_peer_def Pair id)
qed

lemma CopyTranlogReplica_net:
  "fits txn \<Longrightarrow> peers_ok s \<Longrightarrow> \<exists>t. CopyTranlogReplica txn s = Inr t \<and> only_net s t"
  unfolding CopyTranlogReplica_def by (rule for_loop_net) (simp_all add: copy_to_peer_net)

definition prepared_state :: "Transaction \<Rightarrow> LaptopFactory \<Rightarrow> LaptopFactory" where
  "prepared_state txn s =
     s\<lparr>txn_log := map_insert (txn_id txn) (prepare_records txn) (txn_log s),
       files := (files s)\<lparr>logFile := Some (log_content (files s) @ log_text (prepare_records txn))\<rparr>\<rparr>"

lemma store_txn_log_eq:
  "disk_writable (files s) \<Longrightarrow> store_txn_log_in_txn_map txn s = Inr (prepared_state txn s)"
  by (simp add: store_txn_log_in_txn_map_def store_txn_log_record_eq prepared_state_def Let_def)

lemma peers_ok_prepared [simp]: "peers_ok (prepared_state txn s) \<longleftrightarrow> peers_ok s"
  by (rule peers_ok_cong) (simp_all add: prepared_state_def)

lemma prepare_txn_ok:
  assumes "rm_ok s" and "disk_writable (files s)" and "fits txn"
    and "reads_consistent (readRecords txn) (customer_record s)"
  shows "\<exists>t. prepare_txn txn s = Inr (''Ok'', t) \<and> only_net (prepared_state txn s) t"
proof -
  obtain t where "CopyTranlogReplica txn (prepared_state txn s) = Inr t"
    "only_net (prepared_state txn s) t"
    using CopyTranlogReplica_net [OF assms(3), of "prepared_state txn s"] assms(1)
    by (auto simp: rm_ok_def)
  then show ?thesis
    using assms(2,4) by (simp add: prepare_txn_def store_txn_log_eq)
qed

lemma reads_consistent_iff:
  "reads_consistent rs m \<longleftrightarrow>
     (\<forall>r \<in> set rs. map_find (cr_customer_id r) m \<in> {None, Some (cr_last_order r)})"
  by (induction rs) auto

section \<open>The abort step\<close>

definition abort_rec :: "cint \<Rightarrow> TxnLogRequest" where
  "abort_rec t = mk_TxnLogRequest t 3 (-1) (-1) (-1)"

lemma tl_txn_id_abort_rec [simp]: "tl_txn_id (abort_rec t) = t"
  by (simp add: abort_rec_def mk_TxnLogRequest_def)

definition aborted_state :: "cint \<Rightarrow> LaptopFactory \<Rightarrow> LaptopFactory" where
  "aborted_state t s =
     s\<lparr>txn_log := snd (update_value (txn_log s) t (abort_rec t)),
       files := (files s)\<lparr>logFile := Some (log_content (files s) @ log_text [abort_rec t])\<rparr>\<rparr>"

lemma abort_txn_eq: "disk_writable (files s) \<Longrightarrow> abort_txn t s = Inr (aborted_state t s)"
  by (simp add: abort_txn_def store_txn_log_record_eq aborted_state_def abort_rec_def Let_def)

section \<open>Readiness\<close>

text \<open>
  A resource manager between requests: well formed, its queue empty, its files writable.
\<close>

definition rm_ready :: "LaptopFactory \<Rightarrow> bool" where
  "rm_ready s \<longleftrightarrow> rm_ok s \<and> log_ok (txn_log s) \<and> arq s = [] \<and> disk_writable (files s)"

lemma rm_readyD:
  "rm_ready s \<Longrightarrow> rm_ok s" "rm_ready s \<Longrightarrow> log_ok (txn_log s)" "rm_ready s \<Longrightarrow> arq s = []"
  "rm_ready s \<Longrightarrow> disk_writable (files s)"
  by (simp_all add: rm_ready_def)

lemma only_net_rm_ready: "only_net s t \<Longrightarrow> rm_ready t \<longleftrightarrow> rm_ready s"
  by (simp add: rm_ready_def only_net_rm_ok only_net_fields)

lemma rm_ready_prepared: "rm_ready s \<Longrightarrow> rm_ready (prepared_state txn s)"
  using log_ok_insert [of "txn_log s" "prepare_records txn" "txn_id txn"] prepare_records_id [of _ txn]
    peers_ok_prepared [of txn s]
  by (auto simp: rm_ready_def rm_ok_def indices_ok_def disk_writable_def log_ok_def
      prepared_state_def)

lemma rm_ready_aborted: "rm_ready s \<Longrightarrow> rm_ready (aborted_state t s)"
  using log_ok_update_value [of "txn_log s" "abort_rec t" t] peers_ok_cong [of "aborted_state t s" s]
  by (auto simp: rm_ready_def rm_ok_def indices_ok_def disk_writable_def log_ok_def
      aborted_state_def)

lemma rm_ready_committed:
  assumes "rm_ready s" and "log_room (length (logged t s)) s"
  shows "rm_ready (committed_state t (logged t s) s)"
proof -
  have ids: "\<forall>r \<in> set (logged t s). tl_txn_id r = t"
    using log_ok_find [OF rm_readyD(2) [OF assms(1)], of t]
    by (cases "map_find t (txn_log s)") (simp_all add: logged_def)
  have ops: "rm_ok (apply_ops (map rec_op (logged t s)) s)"
    using assms by (intro rm_ok_apply_ops) (simp_all add: rm_ready_def)
  have log: "log_ok (txn_log (committed_state t (logged t s) s))"
    using ids by (auto simp: log_ok_def map_ok_def committed_state_def committed_log_def Let_def)
  have "rm_ok (committed_state t (logged t s) s)"
    using ops log peers_ok_cong [of "committed_state t (logged t s) s"
        "apply_ops (map rec_op (logged t s)) s"]
    by (simp add: rm_ok_def indices_ok_def log_ok_def committed_state_def Let_def)
  then show ?thesis
    using assms(1) log by (simp add: rm_ready_def committed_state_def disk_writable_def Let_def)
qed

end
