(* ===== verification/ResourceManager.thy ===== *)
theory ResourceManager
  imports Handlers
begin

text \<open>
  What a resource manager guarantees for transactions, across crashes and restarts: the vote of the
  prepare step, the effect of commit and abort on the customer records and on the transaction log,
  and what a restart recovers from the files. The steps of one node, restarts included, form the
  relation \<open>rm_step\<close>; the invariants of its reachable states are proved by rule induction.
\<close>

section \<open>Restart\<close>

text \<open>A restarted node: a new process with the same arguments reads the files the old one left.\<close>

definition restart :: "(nat \<Rightarrow> ClientStub) \<Rightarrow> LaptopFactory \<Rightarrow> LaptopFactory" where
  "restart stub s =
     setFactoryId (factory_id s) (new_LaptopFactory stub (peers s) (peer_count s) (files s))"

lemma new_LaptopFactory_fields [simp]:
  "arq (new_LaptopFactory stub ps n d) = []" "smr_log (new_LaptopFactory stub ps n d) = []"
  "last_index (new_LaptopFactory stub ps n d) = -1"
  "committed_index (new_LaptopFactory stub ps n d) = -1"
  "primary_id (new_LaptopFactory stub ps n d) = -1"
  "factory_id (new_LaptopFactory stub ps n d) = -1" "peers (new_LaptopFactory stub ps n d) = ps"
  "peer_count (new_LaptopFactory stub ps n d) = n" "files (new_LaptopFactory stub ps n d) = d"
  "length (peerNodes (new_LaptopFactory stub ps n d)) = nat (sint n)"
  "length (livePeers (new_LaptopFactory stub ps n d)) = nat (sint n)"
  by (simp_all add: new_LaptopFactory_def recovery_cust_rec_def recovery_txn_log_def
      split: option.split)

lemma restart_fields [simp]:
  "arq (restart stub s) = []" "smr_log (restart stub s) = []" "last_index (restart stub s) = -1"
  "committed_index (restart stub s) = -1" "primary_id (restart stub s) = -1"
  "factory_id (restart stub s) = factory_id s" "peers (restart stub s) = peers s"
  "peer_count (restart stub s) = peer_count s" "files (restart stub s) = files s"
  "customer_record (restart stub s)
     = customer_record (new_LaptopFactory stub (peers s) (peer_count s) (files s))"
  "txn_log (restart stub s) = txn_log (new_LaptopFactory stub (peers s) (peer_count s) (files s))"
  by (simp_all add: restart_def setFactoryId_def)

lemma recovered_records:
  "custRecFile d = Some (cust_text m) \<Longrightarrow> map_ok m \<Longrightarrow>
   customer_record (new_LaptopFactory stub ps n d) = m"
  using read_cust_text [of "[]" m "[]"] imap.insert_all_entries [of m]
  by (simp add: new_LaptopFactory_def recovery_cust_rec_def recovery_txn_log_def split: option.split)

lemma recovered_no_records:
  "custRecFile d = None \<Longrightarrow> customer_record (new_LaptopFactory stub ps n d) = []"
  by (simp add: new_LaptopFactory_def recovery_cust_rec_def recovery_txn_log_def split: option.split)

lemma read_log_lines_empty: "read_log_lines [] d = d"
  using read_log_text [of "[]" "[]" d] by (simp add: log_text_def)

lemma recovered_log:
  "log_content d = log_text L \<Longrightarrow>
   txn_log (new_LaptopFactory stub ps n d) = fold add_to_log L []"
  using read_log_text [of "[]" L "[]"]
  by (cases "logFile d"; cases "custRecFile d")
    (simp_all add: new_LaptopFactory_def recovery_cust_rec_def recovery_txn_log_def log_content_def
      read_log_lines_empty flip: read_log_text [of "[]" L "[]"])

lemma logged_recovered:
  "log_content (files s) = log_text L \<Longrightarrow>
   logged t (restart stub s) = filter (\<lambda>r. tl_txn_id r = t) L"
  using find_fold_add [of "[]" t L]
  by (auto simp: logged_def recovered_log map_rules Let_def split: option.splits)

section \<open>Steps of a node\<close>

text \<open>
  \<open>rm_step ifa\<close>: one request served, or a crash and restart. With \<open>ifa\<close> the node also takes
  replication requests as a backup. The bound on the operation log keeps its indices inside an
  \<^verbatim>\<open>int\<close>.
\<close>

inductive rm_step :: "bool \<Rightarrow> LaptopFactory \<Rightarrow> LaptopFactory \<Rightarrow> bool" for ifa where
  prepare: "fits txn \<Longrightarrow> prepare_txn txn s = Inr (reply, s') \<Longrightarrow> rm_step ifa s s'"
| peer_prepare: "store_txn_log_in_txn_map txn s = Inr s' \<Longrightarrow> rm_step ifa s s'"
| commit: "log_room (length (logged t s)) s \<Longrightarrow> commit_txn t eng s = Inr s' \<Longrightarrow> rm_step ifa s s'"
| abort: "abort_txn t s = Inr s' \<Longrightarrow> rm_step ifa s s'"
| replicate: "ifa \<Longrightarrow> log_room 1 s \<Longrightarrow> IFA_apply req s = Inr s' \<Longrightarrow> rm_step ifa s s'"
| crash_restart: "rm_step ifa s (restart stub s)"

inductive rm_reachable :: "bool \<Rightarrow> LaptopFactory \<Rightarrow> bool" for ifa where
  start: "custRecFile d = None \<Longrightarrow> logFile d = None \<Longrightarrow> disk_writable d \<Longrightarrow>
    nat (sint n) \<le> length ps \<Longrightarrow>
    rm_reachable ifa (setFactoryId i (new_LaptopFactory stub ps n d))"
| step: "rm_reachable ifa s \<Longrightarrow> rm_step ifa s s' \<Longrightarrow> rm_reachable ifa s'"

inductive_cases rm_stepE: "rm_step ifa s s'"

text \<open>The local effect of each successful step in a ready state.\<close>

lemma prepare_txn_cases:
  assumes "rm_ready s" and "fits txn" and "prepare_txn txn s = Inr (reply, s')"
  obtains (ok) "reply = ''Ok''" "only_net (prepared_state txn s) s'"
    "reads_consistent (readRecords txn) (customer_record s)"
  | (no) "reply = ''No''" "s' = s" "\<not> reads_consistent (readRecords txn) (customer_record s)"
proof (cases "reads_consistent (readRecords txn) (customer_record s)")
  case True
  then show ?thesis
    using prepare_txn_ok [OF rm_readyD(1,4) [OF assms(1)] assms(2)] assms(3) ok by auto
next
  case False
  then show ?thesis using assms(3) no by (simp add: prepare_txn_def)
qed

lemma commit_txn_result:
  assumes "rm_ready s" and "log_room (length (logged t s)) s" and "commit_txn t eng s = Inr s'"
  shows "only_net (committed_state t (logged t s) s) s'"
  using commit_txn_eq [of s t eng] assms by (auto simp: rm_ready_def)

lemma store_txn_log_result:
  "rm_ready s \<Longrightarrow> store_txn_log_in_txn_map txn s = Inr s' \<Longrightarrow> s' = prepared_state txn s"
  by (simp add: store_txn_log_eq rm_ready_def)

lemma abort_txn_result: "rm_ready s \<Longrightarrow> abort_txn t s = Inr s' \<Longrightarrow> s' = aborted_state t s"
  by (simp add: abort_txn_eq rm_ready_def)

lemma IFA_apply_fields:
  assumes "IFA_apply req s = Inr s'"
  shows "files s' = files s" "txn_log s' = txn_log s" "arq s' = arq s" "peers s' = peers s"
    "peer_count s' = peer_count s" "peerNodes s' = peerNodes s" "livePeers s' = livePeers s"
    "factory_id s' = factory_id s" "smr_log s' = smr_log s @ [rr_oprn req]"
    "last_index s' = last_index s + 1" "primary_id s' = rr_factory_id req"
  using assms by (auto simp: IFA_apply_def Let_def split: if_splits)

lemma rm_ready_IFA:
  assumes "rm_ready s" and "log_room 1 s" and "IFA_apply req s = Inr s'"
  shows "rm_ready s'"
proof -
  have idx: "sint (last_index s + 1) = sint (last_index s) + 1"
    "sint (committed_index s + 1) = sint (committed_index s) + 1"
    using assms(1,2) by (auto simp: rm_ready_def rm_ok_def indices_ok_def log_room_def sint_succ_room)
  have cm: "map_ok (customer_record s') \<and> committed_index s' \<in> {committed_index s, committed_index s + 1}"
    using assms(1,3) by (auto simp: IFA_apply_def rm_ready_def rm_ok_def Let_def map_rules split: if_splits)
  then show ?thesis
    using assms(1) idx IFA_apply_fields [OF assms(3)] peers_ok_cong [of s' s]
    by (auto simp: rm_ready_def rm_ok_def indices_ok_def)
qed

section \<open>Invariant: every reachable node is ready\<close>

lemma fold_add_log_ok: "log_ok d \<Longrightarrow> log_ok (fold add_to_log L d)"
  by (induction L arbitrary: d) (simp_all add: add_to_log_def log_ok_update_value)

text \<open>The log file holds a sequence of records, and every record in memory is one of them.\<close>

definition log_on_disk :: "TxnLogRequest list \<Rightarrow> LaptopFactory \<Rightarrow> bool" where
  "log_on_disk L s \<longleftrightarrow> log_content (files s) = log_text L
     \<and> (\<forall>t. set (logged t s) \<subseteq> {r \<in> set L. tl_txn_id r = t})"

text \<open>The customer file is empty at first and then always an image of the map.\<close>

definition cust_file_ok :: "LaptopFactory \<Rightarrow> bool" where
  "cust_file_ok s \<longleftrightarrow>
     (case custRecFile (files s) of None \<Rightarrow> True | Some f \<Rightarrow> \<exists>m. map_ok m \<and> f = cust_text m)"

lemma log_ok_Nil [simp]: "log_ok []"
  by (simp add: log_ok_def map_ok_def)

lemma log_text_Nil [simp]: "log_text [] = []"
  by (simp add: log_text_def)

lemma rm_ready_new:
  assumes "cust_file_ok s" and "log_content (files s) = log_text L" and "disk_writable (files s)"
    and "nat (sint (peer_count s)) \<le> length (peers s)"
  shows "rm_ready (restart stub s)"
proof -
  have "map_ok (customer_record (restart stub s))"
  proof (cases "custRecFile (files s)")
    case None
    then show ?thesis by (simp add: recovered_no_records map_rules)
  next
    case (Some f)
    then obtain m where "map_ok m" "custRecFile (files s) = Some (cust_text m)"
      using assms(1) by (auto simp: cust_file_ok_def)
    then show ?thesis by (simp add: recovered_records)
  qed
  moreover have "log_ok (txn_log (restart stub s))"
    using fold_add_log_ok [of "[]" L] assms(2) by (simp add: recovered_log)
  moreover have "peers_ok (restart stub s)"
    using assms(4) by (simp add: peers_ok_def restart_def setFactoryId_def)
  ultimately show ?thesis
    using assms(3) by (simp add: rm_ready_def rm_ok_def indices_ok_def log_ok_def)
qed

definition node_inv :: "LaptopFactory \<Rightarrow> bool" where
  "node_inv s \<longleftrightarrow> rm_ready s \<and> cust_file_ok s \<and> (\<exists>L. log_on_disk L s)"

lemma logged_prepared:
  "map_ok (txn_log s) \<Longrightarrow> logged u (prepared_state txn s) =
     (if u = txn_id txn \<and> map_find u (txn_log s) = None then prepare_records txn else logged u s)"
  by (auto simp: logged_def prepared_state_def map_rules)

lemma logged_aborted:
  "map_ok (txn_log s) \<Longrightarrow> logged u (aborted_state t s) =
     logged u s @ (if u = t then [abort_rec t] else [])"
  by (auto simp: logged_def aborted_state_def find_update_value split: option.split)

lemma logged_committed:
  "logged u (committed_state t recs s) = (if u = t then committed_log t recs else [])"
  by (auto simp: logged_def committed_state_def Let_def committed_log_def)

lemma logged_only_net: "only_net s t \<Longrightarrow> logged u t = logged u s"
  by (simp add: logged_def only_net_fields)

lemma cust_file_ok_files: "custRecFile (files t) = custRecFile (files s) \<Longrightarrow> cust_file_ok t = cust_file_ok s"
  by (simp add: cust_file_ok_def)

lemma log_on_disk_prepared:
  assumes "log_on_disk L s" and "map_ok (txn_log s)"
  shows "log_on_disk (L @ prepare_records txn) (prepared_state txn s)"
proof -
  have "set (logged u (prepared_state txn s)) \<subseteq> {r \<in> set (L @ prepare_records txn). tl_txn_id r = u}"
    for u
    using assms(1) prepare_records_id [of _ txn]
    by (auto simp: logged_prepared [OF assms(2)] log_on_disk_def)
  then show ?thesis
    using assms(1) unfolding log_on_disk_def
    by (simp add: prepared_state_def log_content_def log_text_append)
qed

lemma log_on_disk_aborted:
  assumes "log_on_disk L s" and "map_ok (txn_log s)"
  shows "log_on_disk (L @ [abort_rec t]) (aborted_state t s)"
proof -
  have "set (logged u (aborted_state t s)) \<subseteq> {r \<in> set (L @ [abort_rec t]). tl_txn_id r = u}" for u
    using assms(1) by (auto simp: logged_aborted [OF assms(2)] log_on_disk_def)
  then show ?thesis
    using assms(1) unfolding log_on_disk_def
    by (simp add: aborted_state_def log_content_def log_text_append)
qed

lemma log_on_disk_committed:
  assumes "log_on_disk L s"
  shows "log_on_disk (L @ map (committed_rec t) (logged t s)) (committed_state t (logged t s) s)"
proof -
  have "set (logged u (committed_state t (logged t s) s))
      \<subseteq> {r \<in> set (L @ map (committed_rec t) (logged t s)). tl_txn_id r = u}" for u
    using assms by (auto simp: logged_committed committed_log_def log_on_disk_def)
  then show ?thesis
    using assms unfolding log_on_disk_def
    by (simp add: committed_state_def log_content_def log_text_append Let_def)
qed

lemma node_inv_only_net: "only_net s t \<Longrightarrow> node_inv t \<longleftrightarrow> node_inv s"
  by (simp add: node_inv_def only_net_rm_ready cust_file_ok_def log_on_disk_def only_net_fields
      logged_only_net)

lemma node_inv_prepared: "node_inv s \<Longrightarrow> node_inv (prepared_state txn s)"
  using rm_ready_prepared [of s txn] log_on_disk_prepared [of _ s txn]
    cust_file_ok_files [of "prepared_state txn s" s]
  by (auto simp: node_inv_def rm_ready_def rm_ok_def prepared_state_def)

lemma node_inv_aborted: "node_inv s \<Longrightarrow> node_inv (aborted_state t s)"
  using rm_ready_aborted [of s t] log_on_disk_aborted [of _ s t]
    cust_file_ok_files [of "aborted_state t s" s]
  by (auto simp: node_inv_def rm_ready_def rm_ok_def aborted_state_def)

lemma node_inv_committed:
  assumes "node_inv s" and "log_room (length (logged t s)) s"
  shows "node_inv (committed_state t (logged t s) s)"
proof -
  have ready: "rm_ready (committed_state t (logged t s) s)"
    using assms by (intro rm_ready_committed) (simp_all add: node_inv_def)
  have same: "customer_record (committed_state t (logged t s) s)
      = customer_record (apply_ops (map rec_op (logged t s)) s)"
    by (simp add: committed_state_def Let_def)
  have "cust_file_ok (committed_state t (logged t s) s)"
    using ready same by (auto simp: cust_file_ok_def rm_ready_def rm_ok_def committed_state_def Let_def)
  then show ?thesis
    using ready assms(1) log_on_disk_committed by (auto simp: node_inv_def)
qed

lemma node_inv_restart: "node_inv s \<Longrightarrow> node_inv (restart stub s)"
proof -
  assume inv: "node_inv s"
  then obtain L where L: "log_on_disk L s" by (auto simp: node_inv_def)
  have "nat (sint (peer_count s)) \<le> length (peers s)"
    using inv by (simp add: node_inv_def rm_ready_def rm_ok_def peers_ok_def Let_def)
  then have "rm_ready (restart stub s)"
    using inv L by (intro rm_ready_new) (auto simp: node_inv_def log_on_disk_def rm_ready_def)
  moreover have "log_on_disk L (restart stub s)"
    using L logged_recovered [of s L] by (auto simp: log_on_disk_def)
  ultimately show ?thesis
    using inv cust_file_ok_files [of "restart stub s" s] by (auto simp: node_inv_def)
qed

lemma node_inv_step: "rm_step ifa s s' \<Longrightarrow> node_inv s \<Longrightarrow> node_inv s'"
proof (induction rule: rm_step.induct)
  case (prepare txn s reply s')
  then have "rm_ready s" by (simp add: node_inv_def)
  from this prepare.hyps show ?case
    by (cases rule: prepare_txn_cases)
      (use prepare.prems node_inv_prepared node_inv_only_net in \<open>auto\<close>)
next
  case (peer_prepare txn s s')
  then show ?case
    using store_txn_log_result [of s txn s'] node_inv_prepared by (auto simp: node_inv_def)
next
  case (commit t s eng s')
  then show ?case
    using commit_txn_result [of s t eng s'] node_inv_committed [of s t] node_inv_only_net
    by (auto simp: node_inv_def)
next
  case (abort t s s')
  then show ?case
    using abort_txn_result [of s t s'] node_inv_aborted by (auto simp: node_inv_def)
next
  case (replicate s req s')
  have "cust_file_ok s' = cust_file_ok s" "log_on_disk L s' = log_on_disk L s" for L
    using IFA_apply_fields [OF replicate.hyps(3)]
    by (simp_all add: cust_file_ok_def log_on_disk_def logged_def)
  then show ?case
    using replicate rm_ready_IFA by (auto simp: node_inv_def)
next
  case (crash_restart s stub)
  then show ?case by (rule node_inv_restart)
qed

lemma node_inv_start:
  assumes "custRecFile d = None" and "logFile d = None" and "disk_writable d"
    and "nat (sint n) \<le> length ps"
  shows "node_inv (setFactoryId i (new_LaptopFactory stub ps n d))"
proof -
  let ?s = "setFactoryId i (new_LaptopFactory stub ps n d)"
  have same: "restart stub ?s = ?s"
    by (simp add: restart_def setFactoryId_def)
  have disk: "cust_file_ok ?s" "log_content (files ?s) = log_text []"
    using assms by (simp_all add: cust_file_ok_def setFactoryId_def log_content_def)
  have "rm_ready (restart stub ?s)"
    using disk assms(3,4) by (intro rm_ready_new [where L = "[]"]) (simp_all add: setFactoryId_def)
  moreover have "log_on_disk [] ?s"
    using logged_recovered [OF disk(2), of _ stub] disk(2) by (simp add: log_on_disk_def same)
  ultimately show ?thesis using disk(1) by (auto simp: node_inv_def same)
qed

lemma reachable_node_inv: "rm_reachable ifa s \<Longrightarrow> node_inv s"
  by (induction rule: rm_reachable.induct) (auto intro: node_inv_start node_inv_step)

end
