(* ===== verification/CrashPoints.thy ===== *)
theory CrashPoints
  imports ResourceManager
begin

text \<open>
  A crash inside a commit. The states of the two files between the start and the end of a commit: the log file
  grows by the bytes of its new records, then the customer file is emptied and its new content written. Main
  lemma: what each part of the list leaves to a restart.
\<close>

section \<open>The files while they are written\<close>

text \<open>
  A writer's text goes to the file byte by byte or in larger pieces; every prefix is a state a crash can leave.
  Opening the customer file empties it, the log file is appended to.
\<close>

definition cust_file_writes :: "cint imap \<Rightarrow> disk \<Rightarrow> disk list" where
  "cust_file_writes m d =
     (if \<not> cust_writable d then []
      else map (\<lambda>k. d\<lparr>custRecFile := Some (take k (cust_text m))\<rparr>) [0 ..< Suc (length (cust_text m))])"

definition log_file_writes :: "TxnLogRequest list \<Rightarrow> disk \<Rightarrow> disk list" where
  "log_file_writes recs d =
     (if \<not> log_writable d then []
      else map (\<lambda>k. d\<lparr>logFile := Some (log_content d @ take k (log_text recs))\<rparr>)
             [0 ..< Suc (length (log_text recs))])"

text \<open>
  The files from the start of a commit to its end: first as they are while the admin thread applies the
  transaction's writes to the records in memory, then during the append, then during the rewriting.
\<close>

definition commit_disks :: "cint \<Rightarrow> cint \<Rightarrow> LaptopFactory \<Rightarrow> disk list" where
  "commit_disks txnidtocommit eng s = files s #
     (case (case map_find txnidtocommit (txn_log s) of
              Some recs \<Rightarrow> commit_records txnidtocommit eng recs ([], [], s)
            | None \<Rightarrow> Inr ([], [], s)) of
        Inl c \<Rightarrow> []
      | Inr (new_txn_log, txnRecordsCommitted, s1) \<Rightarrow>
          log_file_writes txnRecordsCommitted (files s1)
          @ (case store_txn_log_record txnRecordsCommitted (s1\<lparr>txn_log := new_txn_log\<rparr>) of
               Inl c \<Rightarrow> []
             | Inr s2 \<Rightarrow> cust_file_writes (customer_record s2) (files s2)))"

text \<open>Written to the end, the files are those of the operations that write them in one go.\<close>

lemma cust_file_writes_end:
  "write_cust_file m d = Inr d' \<Longrightarrow> cust_file_writes m d \<noteq> [] \<and> last (cust_file_writes m d) = d'"
  by (auto simp: write_cust_file_def cust_file_writes_def split: if_splits)

lemma log_file_writes_end:
  "append_log_file recs d = Inr d' \<Longrightarrow> log_file_writes recs d \<noteq> [] \<and> last (log_file_writes recs d) = d'"
  by (auto simp: append_log_file_def log_file_writes_def log_content_def split: if_splits)

lemma cust_file_writes_prefix:
  "cust_writable d \<Longrightarrow> d' \<in> set (cust_file_writes m d) \<longleftrightarrow>
     (\<exists>k \<le> length (cust_text m). d' = d\<lparr>custRecFile := Some (take k (cust_text m))\<rparr>)"
proof -
  have "set [0 ..< Suc n] = {k. k \<le> n}" for n by (auto simp only: set_upt atLeastLessThan_iff less_Suc_eq_le)
  then show "cust_writable d \<Longrightarrow> ?thesis"
    by (auto simp only: cust_file_writes_def if_not_P not_not list.set_map image_iff mem_Collect_eq)
qed

text \<open>A prefix of whole lines holds the first entries of the map.\<close>

lemma cust_text_append: "cust_text (m @ m') = cust_text m @ cust_text m'"
  by (simp add: cust_text_def)

lemma cust_text_take:
  "take (length (cust_text (take k m))) (cust_text m) = cust_text (take k m)"
proof -
  have "cust_text m = cust_text (take k m) @ cust_text (drop k m)"
    using cust_text_append [of "take k m" "drop k m"] by simp
  then show ?thesis by (metis append_eq_conv_conj)
qed

lemma map_ok_take: "map_ok m \<Longrightarrow> map_ok (take k m)"
  by (simp add: map_ok_def sorted_wrt_take)

lemma recovered_prefix:
  assumes "custRecFile d = Some (cust_text (take k m))" and "map_ok m"
  shows "customer_record (new_LaptopFactory stub ps n d) = take k m"
  using recovered_records [OF assms(1) map_ok_take [OF assms(2)]] .

lemma recovered_same:
  "custRecFile d = custRecFile d' \<Longrightarrow>
   customer_record (new_LaptopFactory stub ps n d) = customer_record (new_LaptopFactory stub ps n d')"
  by (simp add: new_LaptopFactory_def recovery_cust_rec_def recovery_txn_log_def split: option.split)

section \<open>A commit, file by file\<close>

lemma commit_disks_eq:
  assumes "rm_ready s" and "log_room (length (logged t s)) s" and "commit_txn t eng s = Inr s'"
  obtains d where "custRecFile d = custRecFile (files s)" "cust_writable d"
    "commit_disks t eng s = files s # log_file_writes (map (committed_rec t) (logged t s)) (files s)
       @ cust_file_writes (customer_record s') d"
proof -
  let ?recs = "logged t s"
  have ids: "\<forall>r \<in> set ?recs. tl_txn_id r = t"
    using log_ok_find [OF rm_readyD(2) [OF assms(1)], of t]
    by (cases "map_find t (txn_log s)") (simp_all add: logged_def)
  obtain nl s1 where s1: "commit_records t eng ?recs ([], [], s) = Inr (nl, map (committed_rec t) ?recs, s1)"
    "only_net (apply_ops (map rec_op ?recs) s) s1"
    using commit_records_eq [OF rm_readyD(1,3) [OF assms(1)] assms(2) ids, of eng "[]" "[]"] by auto
  have loop: "(case map_find t (txn_log s) of Some recs \<Rightarrow> commit_records t eng recs ([], [], s)
      | None \<Rightarrow> Inr ([], [], s)) = commit_records t eng ?recs ([], [], s)"
    by (simp add: logged_def split: option.splits)
  have same: "files s1 = files s" by (simp add: only_net_fields [OF s1(2)])
  obtain s2 where s2: "store_txn_log_record (map (committed_rec t) ?recs) (s1\<lparr>txn_log := nl\<rparr>) = Inr s2"
    "store_cust_record_txn s2 = Inr s'"
    using assms(3) by (auto simp: commit_txn_def loop s1(1))
  have disk: "disk_writable (files s)" by (rule rm_readyD(4) [OF assms(1)])
  have "custRecFile (files s2) = custRecFile (files s)" "cust_writable (files s2)"
    using s2(1) disk by (auto simp: store_txn_log_record_eq same disk_writable_def)
  moreover have "customer_record s' = customer_record s2"
    using s2(2) by (auto simp: store_cust_record_txn_def)
  ultimately show ?thesis
    by (intro that [of "files s2"]) (simp_all add: commit_disks_def loop s1(1) s2(1) same)
qed

lemma log_file_writes_cust: "d' \<in> set (log_file_writes recs d) \<Longrightarrow> custRecFile d' = custRecFile d"
  by (auto simp: log_file_writes_def split: if_splits)

text \<open>The commit does not touch the customer file before it has emptied it, and then leaves every prefix.\<close>

lemma commit_disks_cases:
  assumes "rm_ready s" and "log_room (length (logged t s)) s" and "commit_txn t eng s = Inr s'"
    and "d \<in> set (commit_disks t eng s)"
  shows "custRecFile d = custRecFile (files s)
    \<or> (\<exists>j \<le> length (cust_text (customer_record s')). custRecFile d = Some (take j (cust_text (customer_record s'))))"
proof -
  obtain d0 where d0: "custRecFile d0 = custRecFile (files s)" "cust_writable d0"
    "commit_disks t eng s = files s # log_file_writes (map (committed_rec t) (logged t s)) (files s)
       @ cust_file_writes (customer_record s') d0"
    using commit_disks_eq [OF assms(1-3)] by blast
  show ?thesis
    using assms(4) log_file_writes_cust [of d] unfolding d0(3)
    by (auto simp: cust_file_writes_prefix [OF d0(2)])
qed

lemma commit_disks_prefix:
  assumes "rm_ready s" and "log_room (length (logged t s)) s" and "commit_txn t eng s = Inr s'"
  shows "\<exists>d \<in> set (commit_disks t eng s). custRecFile d = Some (cust_text (take k (customer_record s')))"
proof -
  obtain d0 where d0: "custRecFile d0 = custRecFile (files s)" "cust_writable d0"
    "commit_disks t eng s = files s # log_file_writes (map (committed_rec t) (logged t s)) (files s)
       @ cust_file_writes (customer_record s') d0"
    using commit_disks_eq [OF assms] by blast
  let ?m = "customer_record s'"
  let ?d = "d0\<lparr>custRecFile := Some (take (length (cust_text (take k ?m))) (cust_text ?m))\<rparr>"
  have "length (cust_text (take k ?m)) \<le> length (cust_text ?m)"
    using cust_text_take [of k ?m] by (metis length_take min.cobounded1)
  then have "?d \<in> set (cust_file_writes ?m d0)"
    unfolding cust_file_writes_prefix [OF d0(2)] by blast
  then show ?thesis
    unfolding d0(3) by (intro bexI [of _ ?d]) (simp_all add: cust_text_take)
qed

end
