(* ===== verification/NodeProperties.thy ===== *)
theory NodeProperties
  imports CrashPoints
begin

text \<open>
  The properties of one resource manager node, with concrete witnesses: votes, commit and abort,
  what commit does to other prepared transactions, what happens when a transaction id comes back,
  and durability over crash and restart.
\<close>

section \<open>Concrete values for the witnesses\<close>

definition demo_files :: disk where
  "demo_files = \<lparr>custRecFile = Some (cust_text [(0, 50), (1, 50)]), logFile = None,
     cust_writable = True, log_writable = True\<rparr>"

definition demo_rm :: LaptopFactory where
  "demo_rm = \<lparr>arq = [], customer_record = [(0, 50), (1, 50)], smr_log = [], last_index = -1,
     committed_index = -1, primary_id = -1, factory_id = 0, peers = [], peer_count = 0,
     peerNodes = [], livePeers = [], txn_log = [], files = demo_files, admin_id = 0\<rparr>"

definition demo_txn :: "cint \<Rightarrow> cint \<Rightarrow> Transaction" where
  "demo_txn t cid = \<lparr>txn_id = t, lenReadRecords = 1, lenWriteRecords = 1,
     readRecords = [\<lparr>cr_customer_id = cid, cr_last_order = 50\<rparr>],
     writeRecords = [\<lparr>co_customer_id = cid, co_order_number = 51, co_request_type = 1\<rparr>]\<rparr>"

lemma demo_rm_fields [simp]:
  "arq demo_rm = []" "customer_record demo_rm = [(0, 50), (1, 50)]" "smr_log demo_rm = []"
  "last_index demo_rm = -1" "committed_index demo_rm = -1" "primary_id demo_rm = -1"
  "factory_id demo_rm = 0" "peers demo_rm = []" "peer_count demo_rm = 0" "txn_log demo_rm = []"
  "files demo_rm = demo_files" "admin_id demo_rm = 0"
  by (simp_all add: demo_rm_def)

lemma demo_txn_fields [simp]:
  "txn_id (demo_txn t cid) = t"
  "readRecords (demo_txn t cid) = [\<lparr>cr_customer_id = cid, cr_last_order = 50\<rparr>]"
  "writeRecords (demo_txn t cid) =
     [\<lparr>co_customer_id = cid, co_order_number = 51, co_request_type = 1\<rparr>]"
  by (simp_all add: demo_txn_def)

lemma rm_ready_demo [simp]: "rm_ready demo_rm"
  by (simp add: rm_ready_def rm_ok_def peers_ok_def indices_ok_def map_ok_def demo_rm_def
      demo_files_def disk_writable_def)

lemma fits_demo [simp]: "fits (demo_txn t cid)"
  by (simp add: fits_def lengths_ok_def demo_txn_def)

lemma prepare_records_demo:
  "cid \<noteq> -1 \<Longrightarrow> prepare_records (demo_txn t cid) = [mk_TxnLogRequest t 1 cid 51 1]"
  by (simp add: prepare_records_def demo_txn_def CustomerOrder_IsValid_def)

lemma log_room_demo [simp]: "smr_log s = [] \<Longrightarrow> n < 100 \<Longrightarrow> log_room n s"
  by (simp add: log_room_def)

text \<open>No operation waits to be applied: true of a primary, and of a node just started.\<close>

definition nothing_pending :: "LaptopFactory \<Rightarrow> bool" where
  "nothing_pending s \<longleftrightarrow> committed_index s = last_index s"

definition rec_write :: "TxnLogRequest \<Rightarrow> cint \<times> cint" where
  "rec_write r = (tl_customer_id r, tl_last_order_num r)"

definition order_write :: "CustomerOrder \<Rightarrow> cint \<times> cint" where
  "order_write w = (co_customer_id w, co_order_number w)"

lemma op_write_rec_op: "map op_write (map rec_op recs) = map rec_write recs"
  by (simp add: op_write_def rec_op_def rec_write_def)

lemma rec_write_prepare_records:
  "map rec_write (prepare_records txn) =
     map order_write (takeWhile CustomerOrder_IsValid (writeRecords txn))"
  by (simp add: prepare_records_def rec_write_def mk_TxnLogRequest_def order_write_def)

lemma committed_customer_record:
  assumes "nothing_pending s"
  shows "customer_record (committed_state t recs s)
    = imap.write_all (map rec_write recs) (customer_record s)"
proof (cases "recs = []")
  case True
  then show ?thesis
    by (simp add: committed_state_def apply_ops_def imap.write_all_def Let_def)
next
  case False
  have "customer_record (primary_form s) = customer_record s"
    using assms by (simp add: primary_form_def caught_up_def nothing_pending_def)
  then show ?thesis
    using False customer_record_apply_ops [of "map rec_op recs" s]
    by (simp add: committed_state_def Let_def op_write_rec_op del: map_map)
qed

lemma nothing_pending_prepared [simp]: "nothing_pending (prepared_state txn s) = nothing_pending s"
  by (simp add: nothing_pending_def prepared_state_def)

lemma nothing_pending_demo [simp]: "nothing_pending demo_rm"
  by (simp add: nothing_pending_def)

lemma nothing_pending_restart [simp]: "nothing_pending (restart stub s)"
  by (simp add: nothing_pending_def)

lemma nothing_pending_only_net: "only_net s t \<Longrightarrow> nothing_pending t = nothing_pending s"
  by (simp add: nothing_pending_def only_net_fields)

lemma log_room_only_net: "only_net s t \<Longrightarrow> log_room n t = log_room n s"
  by (simp add: log_room_def only_net_fields)

lemma log_room_prepared [simp]: "log_room n (prepared_state txn s) = log_room n s"
  by (simp add: log_room_def prepared_state_def)

lemma customer_record_prepared [simp]: "customer_record (prepared_state txn s) = customer_record s"
  by (simp add: prepared_state_def)

lemma only_net_prepared_fields:
  "only_net (prepared_state txn s) t \<Longrightarrow> customer_record t = customer_record s"
  by (simp add: only_net_fields)

lemma files_committed:
  "custRecFile (files (committed_state t recs s))
     = Some (cust_text (customer_record (committed_state t recs s)))"
  by (simp add: committed_state_def Let_def)

section \<open>Commit after prepare\<close>

lemma prepared_commit:
  assumes "rm_ready s" and "nothing_pending s" and "log_room (length (writeRecords txn)) s"
    and "map_find (txn_id txn) (txn_log s) = None" and s1: "only_net (prepared_state txn s) s1"
  shows "\<exists>s2. commit_txn (txn_id txn) eng s1 = Inr s2
    \<and> customer_record s2 = imap.write_all
        (map order_write (takeWhile CustomerOrder_IsValid (writeRecords txn))) (customer_record s)
    \<and> custRecFile (files s2) = Some (cust_text (customer_record s2))
    \<and> rm_ready s2 \<and> factory_id s2 = factory_id s"
proof -
  have log: "logged (txn_id txn) s1 = prepare_records txn"
    using logged_prepared [of s "txn_id txn" txn] assms(1,4) logged_only_net [OF s1]
    by (simp add: rm_ready_def rm_ok_def)
  have ready: "rm_ready s1" "nothing_pending s1"
    using assms(1,2) rm_ready_prepared only_net_rm_ready [OF s1] nothing_pending_only_net [OF s1]
    by simp_all
  have "length (prepare_records txn) \<le> length (writeRecords txn)"
    by (simp add: prepare_records_def length_takeWhile_le)
  then have room: "log_room (length (logged (txn_id txn) s1)) s1"
    using assms(3) by (simp add: log log_room_only_net [OF s1]) (simp add: log_room_def)
  obtain s2 where s2: "commit_txn (txn_id txn) eng s1 = Inr s2"
    "only_net (committed_state (txn_id txn) (logged (txn_id txn) s1) s1) s2"
    using commit_txn_eq [of s1 "txn_id txn" eng] ready(1) room by (auto simp: rm_ready_def)
  have "rm_ready s2"
    using rm_ready_committed [OF ready(1) room] only_net_rm_ready [OF s2(2)] by simp
  moreover have "customer_record s2 = imap.write_all
      (map order_write (takeWhile CustomerOrder_IsValid (writeRecords txn))) (customer_record s)"
    using committed_customer_record [OF ready(2)]
    by (simp add: only_net_fields [OF s2(2)] log rec_write_prepare_records only_net_fields [OF s1])
  moreover have "factory_id s2 = factory_id s"
    using only_net_fields(7) [OF s1]
    by (simp add: only_net_fields [OF s2(2)] committed_state_def Let_def prepared_state_def)
  ultimately show ?thesis
    using s2(1) files_committed [of "txn_id txn" "logged (txn_id txn) s1" s1]
    by (simp add: only_net_fields [OF s2(2)])
qed

section \<open>Prepare\<close>

text \<open>
  C6. The vote of the prepare step: a ready resource manager always answers; it answers \<^verbatim>\<open>Ok\<close>
  exactly when every read record of a customer it knows shows that customer's current last order,
  and \<^verbatim>\<open>No\<close> otherwise. A negative vote leaves the node as it was; a positive one leaves the
  customer records alone and files the valid writes under a transaction id that was unknown.
\<close>

theorem prepare_vote:
  assumes "rm_ready s" and "fits txn"
  shows "\<exists>reply s'. prepare_txn txn s = Inr (reply, s')
    \<and> reply = (if \<forall>r \<in> set (readRecords txn).
          map_find (cr_customer_id r) (customer_record s) \<in> {None, Some (cr_last_order r)}
        then ''Ok'' else ''No'')
    \<and> (reply = ''No'' \<longrightarrow> s' = s)
    \<and> customer_record s' = customer_record s \<and> smr_log s' = smr_log s
    \<and> (reply = ''Ok'' \<and> map_find (txn_id txn) (txn_log s) = None
        \<longrightarrow> logged (txn_id txn) s' = prepare_records txn)"
proof (cases "reads_consistent (readRecords txn) (customer_record s)")
  case True
  obtain s' where s': "prepare_txn txn s = Inr (''Ok'', s')" "only_net (prepared_state txn s) s'"
    using prepare_txn_ok [OF rm_readyD(1,4) [OF assms(1)] assms(2) True] by blast
  have "logged (txn_id txn) s' = prepare_records txn" if "map_find (txn_id txn) (txn_log s) = None"
    using that logged_prepared [of s "txn_id txn" txn] assms(1) logged_only_net [OF s'(2)]
    by (simp add: rm_ready_def rm_ok_def)
  then show ?thesis
    using True s' by (intro exI [of _ "''Ok''"] exI [of _ s'])
      (simp add: reads_consistent_iff only_net_fields [OF s'(2)] prepared_state_def)
next
  case False
  then show ?thesis by (auto simp: prepare_txn_def reads_consistent_iff)
qed

lemma prepare_vote_witness:
  "\<exists>s'. prepare_txn (demo_txn 7 0) demo_rm = Inr (''Ok'', s')
     \<and> logged 7 s' = [mk_TxnLogRequest 7 1 0 51 1]"
  using prepare_vote [of demo_rm "demo_txn 7 0"]
  by (auto simp: prepare_records_demo)

section \<open>Commit\<close>

text \<open>
  C7. Commit applies exactly the logged writes, in their order: every customer the transaction
  wrote gets the last order number written, every other customer keeps the old one; and the
  customer file then holds the new records.
\<close>

theorem commit_applies_writes:
  assumes "rm_ready s" and "nothing_pending s" and "log_room (length (logged t s)) s"
  shows "\<exists>s'. commit_txn t eng s = Inr s'
    \<and> (\<forall>k. map_find k (customer_record s') =
          (case map_of (rev (map rec_write (logged t s))) k of
             Some v \<Rightarrow> Some v | None \<Rightarrow> map_find k (customer_record s)))
    \<and> custRecFile (files s') = Some (cust_text (customer_record s'))
    \<and> smr_log s' = smr_log s @ map rec_op (logged t s)"
proof -
  obtain s' where s': "commit_txn t eng s = Inr s'" "only_net (committed_state t (logged t s) s) s'"
    using commit_txn_eq [of s t eng] assms by (auto simp: rm_ready_def)
  have "customer_record s' = imap.write_all (map rec_write (logged t s)) (customer_record s)"
    using committed_customer_record [OF assms(2)] by (simp add: only_net_fields [OF s'(2)])
  moreover have "map_ok (customer_record s)"
    using assms(1) by (simp add: rm_ready_def rm_ok_def)
  moreover have "smr_log s' = smr_log s @ map rec_op (logged t s)"
    by (simp add: only_net_fields [OF s'(2)] committed_state_def Let_def)
  ultimately show ?thesis
    using s'(1) files_committed [of t "logged t s" s]
    by (intro exI [of _ s']) (simp add: imap.find_write_all only_net_fields [OF s'(2)])
qed

lemma commit_applies_writes_witness:
  "\<exists>s'. commit_txn 7 1 (prepared_state (demo_txn 7 0) demo_rm) = Inr s'
     \<and> map_find 0 (customer_record s') = Some 51 \<and> map_find 1 (customer_record s') = Some 50"
proof -
  let ?s = "prepared_state (demo_txn 7 0) demo_rm"
  have log: "logged 7 ?s = [mk_TxnLogRequest 7 1 0 51 1]"
    using logged_prepared [of demo_rm 7 "demo_txn 7 0"] prepare_records_demo [of 0 7]
    by (simp add: map_ok_def)
  have "rm_ready ?s" "nothing_pending ?s" "log_room (length (logged 7 ?s)) ?s"
    by (simp_all add: rm_ready_prepared log)
  from commit_applies_writes [OF this, of 1] show ?thesis
    by (auto simp: log rec_write_def mk_TxnLogRequest_def)
qed

text \<open>
  Prepare and commit together are the write of the transaction: after a positive vote on a new
  transaction id, commit puts every valid write into the customer records, and nothing else.
\<close>

lemma prepare_then_commit:
  assumes "rm_ready s" and "nothing_pending s" and "fits txn"
    and "log_room (length (writeRecords txn)) s"
    and "map_find (txn_id txn) (txn_log s) = None"
    and "prepare_txn txn s = Inr (''Ok'', s1)"
  shows "\<exists>s2. commit_txn (txn_id txn) eng s1 = Inr s2
    \<and> customer_record s2 = imap.write_all
        (map order_write (takeWhile CustomerOrder_IsValid (writeRecords txn))) (customer_record s)"
proof -
  have s1: "only_net (prepared_state txn s) s1"
    using prepare_txn_cases [OF assms(1,3,6)] by auto
  show ?thesis using prepared_commit [OF assms(1,2,4,5) s1] by blast
qed

lemma prepare_demo:
  "cid \<in> {0, 1} \<Longrightarrow> \<exists>s1. prepare_txn (demo_txn t cid) demo_rm = Inr (''Ok'', s1)
     \<and> only_net (prepared_state (demo_txn t cid) demo_rm) s1"
  using prepare_txn_ok [of demo_rm "demo_txn t cid"] rm_readyD [OF rm_ready_demo]
  by auto

lemma prepare_then_commit_witness:
  "\<exists>s1 s2. prepare_txn (demo_txn 7 0) demo_rm = Inr (''Ok'', s1) \<and> commit_txn 7 1 s1 = Inr s2
     \<and> customer_record s2 = [(0, 51), (1, 50)]"
proof -
  obtain s1 where s1: "prepare_txn (demo_txn 7 0) demo_rm = Inr (''Ok'', s1)"
    using prepare_demo [of 0 7] by auto
  have "nothing_pending demo_rm" "log_room (length (writeRecords (demo_txn 7 0))) demo_rm"
    "map_find (txn_id (demo_txn 7 0)) (txn_log demo_rm) = None"
    by simp_all
  from prepare_then_commit [OF rm_ready_demo this(1) fits_demo this(2,3) s1, of 1] s1
  show ?thesis
    by (auto simp: CustomerOrder_IsValid_def order_write_def imap.write_all_def)
qed

text \<open>
  C21. Commit replaces the whole transaction log by the committed transaction's records. A
  transaction that another transaction manager had prepared in between is forgotten: its later commit still
  succeeds, and changes no customer record.
\<close>

theorem commit_forgets_other_transactions:
  assumes "rm_ready s" and "log_room (length (logged t s)) s" and "commit_txn t eng s = Inr s1"
    and "u \<noteq> t"
  shows "logged u s1 = []
    \<and> (\<exists>s2. commit_txn u eng s1 = Inr s2 \<and> customer_record s2 = customer_record s1)"
proof -
  have s1: "only_net (committed_state t (logged t s) s) s1"
    by (rule commit_txn_result [OF assms(1-3)])
  have none: "logged u s1 = []"
    using assms(4) by (simp add: logged_only_net [OF s1] logged_committed)
  have ready: "rm_ready s1"
    using rm_ready_committed [OF assms(1,2)] only_net_rm_ready [OF s1] by simp
  have "log_room 0 s1"
    using assms(2) by (simp add: log_room_def only_net_fields [OF s1] committed_state_def Let_def)
  then obtain s2 where s2: "commit_txn u eng s1 = Inr s2" "only_net (committed_state u [] s1) s2"
    using commit_txn_eq [of s1 u eng] ready none by (auto simp: rm_ready_def)
  have "customer_record s2 = customer_record s1"
    by (simp add: only_net_fields [OF s2(2)] committed_state_def apply_ops_def Let_def)
  then show ?thesis using none s2(1) by blast
qed

definition two_prepared :: LaptopFactory where
  "two_prepared = prepared_state (demo_txn 8 1) (prepared_state (demo_txn 7 0) demo_rm)"

lemma two_prepared_facts:
  "rm_ready two_prepared" "nothing_pending two_prepared"
  "log_room n two_prepared \<longleftrightarrow> n < 2 ^ 31"
  "logged 7 two_prepared = [mk_TxnLogRequest 7 1 0 51 1]"
  "logged 8 two_prepared = [mk_TxnLogRequest 8 1 1 51 1]"
  by (simp_all add: two_prepared_def rm_ready_prepared log_room_def)
    (simp_all add: prepared_state_def logged_def prepare_records_demo)

lemma commit_forgets_other_transactions_witness:
  "\<exists>s1 s2. logged 8 two_prepared \<noteq> [] \<and> commit_txn 7 1 two_prepared = Inr s1
     \<and> commit_txn 8 1 s1 = Inr s2 \<and> customer_record s2 = customer_record s1"
proof -
  have room: "log_room (length (logged 7 two_prepared)) two_prepared"
    by (simp add: two_prepared_facts)
  obtain s1 where s1: "commit_txn 7 1 two_prepared = Inr s1"
    using commit_txn_eq [of two_prepared 7 1] two_prepared_facts(1) room by (auto simp: rm_ready_def)
  show ?thesis
    using commit_forgets_other_transactions [OF two_prepared_facts(1) room s1, of 8] s1
    by (auto simp: two_prepared_facts)
qed

section \<open>Transaction ids that come back\<close>

text \<open>
  C24. The prepare step does not replace the log entry of a transaction id it already knows: when an
  id is used again (the transaction manager counts from 0 after every restart), the node votes
  \<^verbatim>\<open>Ok\<close> and the commit applies the writes of the old transaction, not those of the new one.
\<close>

theorem reused_id_replays_old_writes:
  assumes "rm_ready s" and "nothing_pending s" and "fits txn"
    and "map_find (txn_id txn) (txn_log s) = Some old" and "log_room (length old) s"
    and "prepare_txn txn s = Inr (''Ok'', s1)"
  shows "\<exists>s2. commit_txn (txn_id txn) eng s1 = Inr s2
    \<and> customer_record s2 = imap.write_all (map rec_write old) (customer_record s)"
proof -
  have s1: "only_net (prepared_state txn s) s1"
    using prepare_txn_cases [OF assms(1,3,6)] by auto
  have log: "logged (txn_id txn) s1 = old"
    using logged_prepared [of s "txn_id txn" txn] assms(1,4) logged_only_net [OF s1]
    by (simp add: rm_ready_def rm_ok_def logged_def)
  have ready: "rm_ready s1" "nothing_pending s1"
    using assms(1,2) rm_ready_prepared only_net_rm_ready [OF s1] nothing_pending_only_net [OF s1]
    by simp_all
  obtain s2 where s2: "commit_txn (txn_id txn) eng s1 = Inr s2"
    "only_net (committed_state (txn_id txn) old s1) s2"
    using commit_txn_eq [of s1 "txn_id txn" eng] ready(1) assms(5)
    by (auto simp: rm_ready_def log log_room_only_net [OF s1])
  show ?thesis
    using s2(1) committed_customer_record [OF ready(2)]
    by (simp add: only_net_fields [OF s2(2)] only_net_fields [OF s1])
qed

text \<open>
  Witness: id 7 wrote customer 0; reused for a write of customer 1, it writes customer 0 again.
\<close>

lemma reused_id_replays_old_writes_witness:
  "\<exists>s1 s2. prepare_txn (demo_txn 7 1) (prepared_state (demo_txn 7 0) demo_rm) = Inr (''Ok'', s1)
     \<and> commit_txn 7 1 s1 = Inr s2 \<and> map_find 0 (customer_record s2) = Some 51
     \<and> map_find 1 (customer_record s2) = Some 50"
proof -
  let ?s = "prepared_state (demo_txn 7 0) demo_rm"
  have s: "rm_ready ?s" "nothing_pending ?s"
    "map_find 7 (txn_log ?s) = Some [mk_TxnLogRequest 7 1 0 51 1]" "log_room 1 ?s"
    by (simp_all add: rm_ready_prepared)
      (simp add: prepared_state_def prepare_records_demo)
  obtain s1 where s1: "prepare_txn (demo_txn 7 1) ?s = Inr (''Ok'', s1)"
    using prepare_txn_ok [of ?s "demo_txn 7 1"] rm_readyD [OF s(1)] by auto
  show ?thesis
    using reused_id_replays_old_writes [OF s(1,2) fits_demo [of 7 1], of _ s1 1] s(3,4) s1
    by (auto simp: imap.write_all_def rec_write_def mk_TxnLogRequest_def)
qed

section \<open>Abort\<close>

text \<open>
  C25. Abort changes no customer record and no other transaction's log; it only appends an abort
  record. As that record does not cancel the prepared ones, a commit of the same id (the id reused
  after a restart of the transaction manager) still applies the aborted writes, and then writes the
  order number -1 for a customer -1.
\<close>

theorem abort_only_logs:
  assumes "rm_ready s" and "nothing_pending s" and "log_room (Suc (length (logged t s))) s"
  shows "\<exists>s1. abort_txn t s = Inr s1
    \<and> customer_record s1 = customer_record s \<and> smr_log s1 = smr_log s
    \<and> (\<forall>u. logged u s1 = logged u s @ (if u = t then [abort_rec t] else []))
    \<and> (\<exists>s2. commit_txn t eng s1 = Inr s2 \<and> customer_record s2 =
          map_assign (-1) (-1) (imap.write_all (map rec_write (logged t s)) (customer_record s)))"
proof -
  have s1: "abort_txn t s = Inr (aborted_state t s)"
    using assms(1) by (simp add: abort_txn_eq rm_ready_def)
  have log: "logged u (aborted_state t s) = logged u s @ (if u = t then [abort_rec t] else [])" for u
    using assms(1) by (intro logged_aborted) (simp add: rm_ready_def rm_ok_def)
  have same: "customer_record (aborted_state t s) = customer_record s"
    "smr_log (aborted_state t s) = smr_log s" "nothing_pending (aborted_state t s)"
    using assms(2) by (simp_all add: aborted_state_def nothing_pending_def)
  have room: "log_room (length (logged t (aborted_state t s))) (aborted_state t s)"
    using assms(3) by (simp add: log log_room_def same)
  obtain s2 where s2: "commit_txn t eng (aborted_state t s) = Inr s2"
    "only_net (committed_state t (logged t (aborted_state t s)) (aborted_state t s)) s2"
    using commit_txn_eq [of "aborted_state t s" t eng] rm_ready_aborted [OF assms(1)] room
    by (auto simp: rm_ready_def)
  have "rec_write (abort_rec t) = (-1, -1)"
    by (simp add: rec_write_def abort_rec_def mk_TxnLogRequest_def)
  then have "customer_record s2 =
      map_assign (-1) (-1) (imap.write_all (map rec_write (logged t s)) (customer_record s))"
    using committed_customer_record [OF same(3)]
    by (simp add: only_net_fields [OF s2(2)] log same imap.write_all_def)
  then show ?thesis using s1 s2(1) same log by blast
qed

lemma abort_only_logs_witness:
  "\<exists>s1 s2. abort_txn 7 two_prepared = Inr s1 \<and> customer_record s1 = [(0, 50), (1, 50)]
     \<and> commit_txn 7 1 s1 = Inr s2 \<and> customer_record s2 = [(-1, -1), (0, 51), (1, 50)]"
proof -
  have "log_room (Suc (length (logged 7 two_prepared))) two_prepared"
    by (simp add: two_prepared_facts)
  from abort_only_logs [OF two_prepared_facts(1,2) this, of 1] show ?thesis
    by (auto simp: two_prepared_facts(4) imap.write_all_def rec_write_def mk_TxnLogRequest_def)
      (auto simp: two_prepared_def)
qed

section \<open>Durability\<close>

text \<open>The customer file shows the customer records in memory.\<close>

definition synced :: "LaptopFactory \<Rightarrow> bool" where
  "synced s \<longleftrightarrow> (case custRecFile (files s) of None \<Rightarrow> customer_record s = []
     | Some f \<Rightarrow> f = cust_text (customer_record s))"

lemma synced_restart:
  assumes "node_inv s" and "synced s"
  shows "customer_record (restart stub s) = customer_record s" and "synced (restart stub s)"
proof -
  have "map_ok (customer_record s)"
    using assms(1) by (simp add: node_inv_def rm_ready_def rm_ok_def)
  then show "customer_record (restart stub s) = customer_record s"
    using assms(2) by (cases "custRecFile (files s)")
      (simp_all add: synced_def recovered_no_records recovered_records)
  then show "synced (restart stub s)"
    using assms(2) by (cases "custRecFile (files s)") (simp_all add: synced_def)
qed

lemma synced_cong:
  "custRecFile (files t) = custRecFile (files s) \<Longrightarrow> customer_record t = customer_record s \<Longrightarrow>
   synced t = synced s"
  by (simp add: synced_def split: option.split)

lemma synced_prepared [simp]: "synced (prepared_state txn s) = synced s"
  by (rule synced_cong) (simp_all add: prepared_state_def)

lemma synced_aborted [simp]: "synced (aborted_state t s) = synced s"
  by (rule synced_cong) (simp_all add: aborted_state_def)

lemma synced_only_net: "only_net s t \<Longrightarrow> synced t = synced s"
  by (rule synced_cong) (simp_all add: only_net_fields)

lemma synced_committed [simp]: "synced (committed_state t recs s)"
  by (simp add: synced_def files_committed)

lemma synced_step: "rm_step False s s' \<Longrightarrow> node_inv s \<Longrightarrow> synced s \<Longrightarrow> synced s'"
proof (induction rule: rm_step.induct)
  case (prepare txn s reply s')
  then have "rm_ready s" by (simp add: node_inv_def)
  from this prepare.hyps show ?case
    by (cases rule: prepare_txn_cases) (use prepare.prems synced_only_net in auto)
next
  case (peer_prepare txn s s')
  then show ?case using store_txn_log_result [of s txn s'] by (simp add: node_inv_def)
next
  case (commit t s eng s')
  then show ?case
    using commit_txn_result [of s t eng s'] synced_only_net by (auto simp: node_inv_def)
next
  case (abort t s s')
  then show ?case using abort_txn_result [of s t s'] by (simp add: node_inv_def)
next
  case (crash_restart s stub)
  then show ?case by (intro synced_restart)
qed simp

lemma reachable_synced: "rm_reachable False s \<Longrightarrow> synced s"
proof (induction rule: rm_reachable.induct)
  case (start d n ps i stub)
  then show ?case by (simp add: synced_def setFactoryId_def recovered_no_records)
next
  case (step s s')
  then show ?case using synced_step reachable_node_inv by blast
qed

text \<open>
  C12. Durability of commits. A node that serves transactions (prepares, peer prepares, commits, aborts) and
  crashes and restarts between them any number of times recovers exactly the customer records it had in memory.
  A crash inside a commit is different: until the customer file is opened for rewriting the restart recovers the
  records from before the commit; from then on the file holds a prefix of the new text, and for every \<open>k\<close> there
  is a moment at which a crash leaves only the first \<open>k\<close> customers, none for \<open>k = 0\<close>, also of those that the
  transaction does not write.
\<close>

theorem restart_recovers_customer_records:
  assumes "rm_reachable False s"
  shows "customer_record (restart stub s) = customer_record s
    \<and> (\<forall>t eng s'. log_room (length (logged t s)) s \<and> commit_txn t eng s = Inr s' \<longrightarrow>
        customer_record (restart stub s') = customer_record s'
        \<and> (\<forall>d \<in> set (commit_disks t eng s).
             custRecFile d = custRecFile (files s) \<and> customer_record (restart stub (s\<lparr>files := d\<rparr>)) = customer_record s
           \<or> (\<exists>j \<le> length (cust_text (customer_record s')).
                custRecFile d = Some (take j (cust_text (customer_record s')))))
        \<and> (\<forall>k. \<exists>d \<in> set (commit_disks t eng s).
             customer_record (restart stub (s\<lparr>files := d\<rparr>)) = take k (customer_record s')))"
proof (intro conjI allI impI)
  have inv: "node_inv s" "synced s" "rm_ready s"
    using reachable_node_inv [OF assms] reachable_synced [OF assms] by (simp_all add: node_inv_def)
  show now: "customer_record (restart stub s) = customer_record s" by (rule synced_restart(1) [OF inv(1,2)])
  fix t eng s' assume "log_room (length (logged t s)) s \<and> commit_txn t eng s = Inr s'"
  then have commit: "log_room (length (logged t s)) s" "commit_txn t eng s = Inr s'" by simp_all
  have reach: "rm_reachable False s'" by (rule rm_reachable.step [OF assms rm_step.commit [OF commit]])
  have inv': "node_inv s'" "synced s'" using reachable_node_inv [OF reach] reachable_synced [OF reach] by simp_all
  then show "customer_record (restart stub s') = customer_record s'" by (rule synced_restart(1))
  have old: "customer_record (restart stub (s\<lparr>files := d\<rparr>)) = customer_record s"
    if "custRecFile d = custRecFile (files s)" for d
    using now recovered_same [OF that] by simp
  show "\<forall>d \<in> set (commit_disks t eng s).
      custRecFile d = custRecFile (files s) \<and> customer_record (restart stub (s\<lparr>files := d\<rparr>)) = customer_record s
    \<or> (\<exists>j \<le> length (cust_text (customer_record s')).
         custRecFile d = Some (take j (cust_text (customer_record s'))))"
    using commit_disks_cases [OF inv(3) commit] old by blast
  show "\<exists>d \<in> set (commit_disks t eng s). customer_record (restart stub (s\<lparr>files := d\<rparr>)) = take k (customer_record s')" for k
    using commit_disks_prefix [OF inv(3) commit, of k] recovered_prefix inv'(1)
    by (fastforce simp: node_inv_def rm_ready_def rm_ok_def)
qed

definition empty_disk :: disk where
  "empty_disk = \<lparr>custRecFile = None, logFile = None, cust_writable = True, log_writable = True\<rparr>"

definition no_stub :: "nat \<Rightarrow> ClientStub" where
  "no_stub i = new_ClientSocket LittleEndian True [] []"

definition fresh_rm :: LaptopFactory where
  "fresh_rm = setFactoryId 0 (new_LaptopFactory no_stub [] 0 empty_disk)"

lemma reachable_fresh_rm: "rm_reachable ifa fresh_rm"
  unfolding fresh_rm_def
  by (rule rm_reachable.start) (simp_all add: empty_disk_def disk_writable_def)

lemma fresh_rm_fields [simp]:
  "customer_record fresh_rm = []" "txn_log fresh_rm = []" "files fresh_rm = empty_disk"
  "smr_log fresh_rm = []"
  using recovered_log [of empty_disk "[]" no_stub "[]" 0]
  by (simp_all add: fresh_rm_def setFactoryId_def recovered_no_records empty_disk_def
      log_content_def)

lemma nothing_pending_fresh [simp]: "nothing_pending fresh_rm"
  by (simp add: nothing_pending_def fresh_rm_def setFactoryId_def)

lemma rm_ready_fresh: "rm_ready fresh_rm"
  using reachable_node_inv [OF reachable_fresh_rm] by (simp add: node_inv_def)

lemma reachable_fresh_commit_quiet:
  "\<exists>s1 s2. prepare_txn (demo_txn 7 0) fresh_rm = Inr (''Ok'', s1) \<and> commit_txn 7 1 s1 = Inr s2
     \<and> rm_reachable ifa s1 \<and> rm_reachable ifa s2 \<and> customer_record s2 = [(0, 51)]
     \<and> logged 9 s2 = [] \<and> log_room 0 s2"
proof -
  obtain s1 where s1: "prepare_txn (demo_txn 7 0) fresh_rm = Inr (''Ok'', s1)"
    "only_net (prepared_state (demo_txn 7 0) fresh_rm) s1"
    using prepare_txn_ok [of fresh_rm "demo_txn 7 0"] rm_readyD [OF rm_ready_fresh] by auto
  have log: "logged 7 s1 = [mk_TxnLogRequest 7 1 0 51 1]"
    by (simp add: logged_only_net [OF s1(2)])
      (simp add: logged_def prepared_state_def prepare_records_demo)
  have ready: "rm_ready s1"
    using rm_ready_prepared [OF rm_ready_fresh] only_net_rm_ready [OF s1(2)] by simp
  have pend: "nothing_pending s1"
    using nothing_pending_only_net [OF s1(2)] by simp
  have room: "log_room (length (logged 7 s1)) s1"
    by (simp add: log log_room_only_net [OF s1(2)])
  obtain s2 where s2: "commit_txn 7 1 s1 = Inr s2"
    "only_net (committed_state 7 (logged 7 s1) s1) s2"
    using commit_txn_eq [of s1 7 1] ready room by (auto simp: rm_ready_def)
  have "customer_record s2 = [(0, 51)]"
    using committed_customer_record [OF pend]
    by (simp add: only_net_fields [OF s2(2)] log imap.write_all_def rec_write_def
        mk_TxnLogRequest_def) (simp add: only_net_fields [OF s1(2)])
  moreover have "rm_reachable ifa s1"
    by (rule rm_reachable.step [OF reachable_fresh_rm rm_step.prepare [OF fits_demo s1(1)]])
  moreover have "rm_reachable ifa s2"
    by (rule rm_reachable.step [OF calculation(2) rm_step.commit [OF room s2(1)]])
  moreover have "logged 9 s2 = []"
    by (simp add: logged_only_net [OF s2(2)] logged_committed)
  moreover have "log_room 0 s2"
    using room by (simp add: log_room_def only_net_fields [OF s2(2)] committed_state_def Let_def)
  ultimately show ?thesis using s1(1) s2(1) by blast
qed

lemma reachable_fresh_commit:
  "\<exists>s1 s2. prepare_txn (demo_txn 7 0) fresh_rm = Inr (''Ok'', s1) \<and> commit_txn 7 1 s1 = Inr s2
     \<and> rm_reachable ifa s1 \<and> rm_reachable ifa s2 \<and> customer_record s2 = [(0, 51)]"
  using reachable_fresh_commit_quiet [of ifa] by blast

lemma restart_recovers_customer_records_witness:
  "\<exists>s s' d. rm_reachable False s \<and> customer_record s = [(0, 51)]
     \<and> customer_record (restart no_stub s) = [(0, 51)]
     \<and> commit_txn 9 1 s = Inr s' \<and> d \<in> set (commit_disks 9 1 s)
     \<and> customer_record (restart no_stub (s\<lparr>files := d\<rparr>)) = []"
proof -
  obtain s where s: "rm_reachable False s" "customer_record s = [(0, 51)]" "logged 9 s = []" "log_room 0 s"
    using reachable_fresh_commit_quiet [of False] by blast
  then have "rm_ready s" "log_room (length (logged 9 s)) s"
    using reachable_node_inv by (auto simp: node_inv_def)
  then obtain s' where s': "commit_txn 9 1 s = Inr s'"
    using commit_txn_eq [OF rm_readyD] by blast
  show ?thesis
    using restart_recovers_customer_records [OF s(1), of no_stub] s s' by (metis list.size(3) take0)
qed

text \<open>
  C13. Durability of the log: in every reachable state, of a primary or of a backup, each record of
  the transaction log in memory is in the log a restart recovers, under the same transaction.
\<close>

theorem restart_recovers_log_records:
  assumes "rm_reachable ifa s"
  shows "set (logged t s) \<subseteq> set (logged t (restart stub s))"
proof -
  obtain L where "log_on_disk L s"
    using reachable_node_inv [OF assms] by (auto simp: node_inv_def)
  then show ?thesis
    using logged_recovered [of s L t stub] by (auto simp: log_on_disk_def)
qed

lemma restart_recovers_log_records_witness:
  "\<exists>s. rm_reachable True s \<and> set (logged 7 s) \<subseteq> set (logged 7 (restart no_stub s))"
  using reachable_fresh_rm restart_recovers_log_records by blast

section \<open>Every reachable state\<close>

text \<open>
  C9. The invariant of a node: in every state reachable by requests, replication and restarts, the
  peer vectors fit the peer count, the log indices count the log, both maps are in key order, every
  log record is filed under its own transaction id, nothing waits in the queue, and every record in
  memory is in the log file.
\<close>

theorem reachable_invariant:
  assumes "rm_reachable ifa s"
  shows "length (peerNodes s) = nat (sint (peer_count s)) \<and> length (livePeers s) = nat (sint (peer_count s))
    \<and> sint (last_index s) = int (length (smr_log s)) - 1
    \<and> -1 \<le> sint (committed_index s) \<and> sint (committed_index s) \<le> sint (last_index s)
    \<and> map_ok (customer_record s) \<and> map_ok (txn_log s) \<and> arq s = []
    \<and> (\<forall>t. \<forall>r \<in> set (logged t s). tl_txn_id r = t)
    \<and> (\<exists>L. log_content (files s) = log_text L \<and> (\<forall>t. set (logged t s) \<subseteq> set L))"
proof -
  have inv: "rm_ready s" "\<exists>L. log_on_disk L s"
    using reachable_node_inv [OF assms] by (simp_all add: node_inv_def)
  then have "\<forall>t. \<forall>r \<in> set (logged t s). tl_txn_id r = t" by (auto simp: log_on_disk_def)
  moreover have "\<exists>L. log_content (files s) = log_text L \<and> (\<forall>t. set (logged t s) \<subseteq> set L)"
    using inv(2) by (auto simp: log_on_disk_def)
  ultimately show ?thesis
    using inv(1) by (simp add: rm_ready_def rm_ok_def peers_ok_def indices_ok_def Let_def)
qed

lemma reachable_invariant_witness:
  "\<exists>s. rm_reachable True s \<and> customer_record s = [(0, 51)] \<and> map_ok (customer_record s)"
  using reachable_fresh_commit [of True] reachable_invariant by blast

text \<open>
  C16. No request crashes a reachable node: preparing a transaction that fits the message buffers,
  committing, aborting and taking a replicated prepare all end with a result, whatever the network
  does to the peers.
\<close>

theorem reachable_handlers_total:
  assumes "rm_reachable ifa s" and "fits txn" and "log_room (length (logged t s)) s"
  shows "(\<exists>reply s'. prepare_txn txn s = Inr (reply, s')) \<and> (\<exists>s'. commit_txn t eng s = Inr s')
    \<and> (\<exists>s'. abort_txn t s = Inr s') \<and> (\<exists>s'. store_txn_log_in_txn_map txn s = Inr s')"
proof -
  have ready: "rm_ready s" using reachable_node_inv [OF assms(1)] by (simp add: node_inv_def)
  have "\<exists>reply s'. prepare_txn txn s = Inr (reply, s')"
    using prepare_txn_ok [OF rm_readyD(1,4) [OF ready] assms(2)]
    by (cases "reads_consistent (readRecords txn) (customer_record s)") (auto simp: prepare_txn_def)
  moreover have "\<exists>s'. commit_txn t eng s = Inr s'"
    using commit_txn_eq [OF rm_readyD [OF ready] assms(3)] by blast
  ultimately show ?thesis
    using rm_readyD(4) [OF ready] by (simp add: abort_txn_eq store_txn_log_eq)
qed

lemma reachable_handlers_total_witness:
  "\<exists>s'. abort_txn 7 fresh_rm = Inr s'"
proof -
  have "log_room (length (logged 7 fresh_rm)) fresh_rm" by (simp add: logged_def)
  from reachable_handlers_total [OF reachable_fresh_rm fits_demo this] show ?thesis by blast
qed

end
