(* ===== verification/Replication.thy ===== *)
theory Replication
  imports NodeProperties
begin

text \<open>
  Replication of the operation log from a primary to its backups: what one live request does to a
  backup (\<^verbatim>\<open>IFAFlow\<close>), that it keeps primary and backup in step, that a commit sends the backups
  exactly the requests that bring them to the primary's records, what the replay after a reconnection
  (\<^verbatim>\<open>sendAllRequests\<close>) leaves out, how a new primary catches up, and why the first commit after a
  node's start does not reach the backups.
\<close>

section \<open>A replicated log in general\<close>

text \<open>
  A primary executes an operation and sends a request; a backup in step with it takes the request
  and is in step again. The locale carries this over a list of operations.
\<close>

locale replicated_log =
  fixes exec :: "'o \<Rightarrow> 'p \<Rightarrow> 'p"
    and request :: "'o \<Rightarrow> 'p \<Rightarrow> 'r"
    and receive :: "'r \<Rightarrow> 'b \<Rightarrow> 'e + 'b"
    and in_step :: "'p \<Rightarrow> 'b \<Rightarrow> bool"
    and room :: "nat \<Rightarrow> 'p \<Rightarrow> bool"
  assumes receive_in_step:
      "in_step p b \<Longrightarrow> room 1 p \<Longrightarrow> \<exists>b'. receive (request x p) b = Inr b' \<and> in_step (exec x p) b'"
    and room_exec: "in_step p b \<Longrightarrow> room (Suc n) p \<Longrightarrow> room n (exec x p)"
    and room_mono: "room n p \<Longrightarrow> m \<le> n \<Longrightarrow> room m p"
begin

fun requests :: "'o list \<Rightarrow> 'p \<Rightarrow> 'r list" where
  "requests [] p = []"
| "requests (x # xs) p = request x p # requests xs (exec x p)"

lemma length_requests [simp]: "length (requests xs p) = length xs"
  by (induction xs arbitrary: p) auto

lemma receive_all:
  "in_step p b \<Longrightarrow> room (length xs) p \<Longrightarrow>
   \<exists>b'. for_loop receive (requests xs p) b = Inr b' \<and> in_step (fold exec xs p) b'"
proof (induction xs arbitrary: p b)
  case Nil
  then show ?case by simp
next
  case (Cons x xs)
  have "room 1 p" using room_mono [OF Cons.prems(2)] by simp
  then obtain b1 where b1: "receive (request x p) b = Inr b1" "in_step (exec x p) b1"
    using receive_in_step [OF Cons.prems(1)] by blast
  have "room (length xs) (exec x p)" using room_exec [OF Cons.prems(1)] Cons.prems(2) by simp
  from Cons.IH [OF b1(2) this] b1(1) show ?case by simp
qed

end

section \<open>Live requests\<close>

text \<open>The request that a primary in state \<open>p\<close> sends for the operation it then applies.\<close>

definition live_request :: "MapOp \<Rightarrow> LaptopFactory \<Rightarrow> ReplicationRequest" where
  "live_request p1 p =
     mk_ReplicationRequest (factory_id p) (committed_index p + 1) (last_index p + 1) p1"

text \<open>The same log, the same customer records, nothing pending on either side.\<close>

definition in_step :: "LaptopFactory \<Rightarrow> LaptopFactory \<Rightarrow> bool" where
  "in_step p b \<longleftrightarrow> indices_ok p \<and> nothing_pending p \<and> smr_log b = smr_log p
     \<and> last_index b = last_index p \<and> committed_index b = committed_index p
     \<and> customer_record b = customer_record p"

lemma rr_mk [simp]:
  "rr_factory_id (mk_ReplicationRequest f c l p1) = f"
  "rr_committed_index (mk_ReplicationRequest f c l p1) = c"
  "rr_last_index (mk_ReplicationRequest f c l p1) = l"
  "rr_oprn (mk_ReplicationRequest f c l p1) = p1"
  by (simp_all add: mk_ReplicationRequest_def)

lemma indices_room:
  assumes "indices_ok p" and "log_room 1 p"
  shows "sint (last_index p + 1) = int (length (smr_log p))"
    and "sint (committed_index p + 1) = sint (committed_index p) + 1"
  using assms by (auto simp: indices_ok_def log_room_def sint_succ_room)

lemma IFA_apply_live:
  assumes "in_step p b" and "log_room 1 p"
  shows "IFA_apply (live_request p1 p) b =
    Inr ((apply_locally p1 b)\<lparr>primary_id := factory_id p\<rparr>)"
proof -
  have c: "sint (committed_index p + 1) = int (length (smr_log p))"
    using assms indices_room [of p] by (simp add: in_step_def nothing_pending_def)
  show ?thesis
    using assms(1)
    by (simp add: IFA_apply_def live_request_def Let_def c in_step_def apply_locally_def
        nth_append)
qed

lemma in_step_apply_locally:
  assumes "in_step p b" and "log_room 1 p"
  shows "in_step (apply_locally p1 p) ((apply_locally p1 b)\<lparr>primary_id := f\<rparr>)"
  using assms indices_room [of p]
  by (auto simp: in_step_def nothing_pending_def indices_ok_def)

interpretation live: replicated_log apply_locally live_request IFA_apply in_step log_room
proof unfold_locales
  show "in_step p b \<Longrightarrow> log_room 1 p \<Longrightarrow>
    \<exists>b'. IFA_apply (live_request x p) b = Inr b' \<and> in_step (apply_locally x p) b'" for p b x
    using IFA_apply_live in_step_apply_locally by blast
qed (auto simp: log_room_def)

section \<open>The requests on the wire\<close>

lemma for_loop_append: "for_loop f (xs @ ys) s = bindE (for_loop f xs s) (for_loop f ys)"
proof (induction xs arbitrary: s)
  case (Cons x xs)
  show ?case by (cases "f x s") (simp_all add: Cons.IH)
qed simp

lemma IFAFlow_requests:
  assumes "is_initialized stub" and "tx stub = []"
    and "rx stub = map (\<lambda>r. Segment (raw_replication (host stub) r)) reqs"
    and "\<forall>r \<in> set reqs. rr_factory_id r \<noteq> -1"
  shows "\<exists>stub'. IFAFlow stub s =
    bindE (for_loop IFA_apply reqs s) (\<lambda>s'. Inr (stub', s'\<lparr>primary_id := -1\<rparr>))"
  using assms
proof (induction reqs arbitrary: stub s)
  case Nil
  then show ?case
    by (simp add: IFAFlow.simps [of stub s] ReceiveReplicationReq_eof new_ReplicationRequest_def)
next
  case (Cons r reqs)
  let ?stub1 = "stub\<lparr>rx := map (\<lambda>r. Segment (raw_replication (host stub) r)) reqs\<rparr>"
  let ?stub2 = "?stub1\<lparr>sent := sent stub @ msg_bytes 10 ''DONE'' ?stub1\<rparr>"
  have recv: "ReceiveReplicationReq stub = (r, ?stub1)"
    using Cons.prems by (intro ReceiveReplicationReq_segment) simp_all
  have sent: "SendResponseReplicationReq ''DONE'' ?stub1 = (1, ?stub2)"
    using Cons.prems by (simp add: SendResponse_idle)
  show ?case
  proof (cases "IFA_apply r s")
    case (Inl e)
    then show ?thesis using Cons.prems(4) by (simp add: IFAFlow.simps [of stub s] recv)
  next
    case (Inr s1)
    have "\<exists>stub'. IFAFlow ?stub2 s1 =
        bindE (for_loop IFA_apply reqs s1) (\<lambda>s'. Inr (stub', s'\<lparr>primary_id := -1\<rparr>))"
      using Cons.prems by (intro Cons.IH) simp_all
    then show ?thesis
      using Inr Cons.prems(4) by (simp add: IFAFlow.simps [of stub s] recv sent)
  qed
qed

text \<open>What a stub looks like after the peer has answered one request.\<close>

definition answered :: "ReplicationRequest \<Rightarrow> ClientStub \<Rightarrow> ClientStub" where
  "answered req n = n\<lparr>rx := tl (rx n), sent := sent n @ raw_replication (host n) req\<rparr>"

definition feed :: "ReplicationRequest \<Rightarrow> LaptopFactory \<Rightarrow> LaptopFactory" where
  "feed req s = s\<lparr>peerNodes := map (answered req) (peerNodes s)\<rparr>"

text \<open>Every peer is connected and will answer \<open>k\<close> requests with \<^verbatim>\<open>DONE\<close>.\<close>

definition done_segment :: "ServerStub \<Rightarrow> rx_event" where
  "done_segment x = Segment (msg_bytes 10 ''DONE'' x)"

definition peers_answer :: "ServerStub \<Rightarrow> nat \<Rightarrow> LaptopFactory \<Rightarrow> bool" where
  "peers_answer x k s \<longleftrightarrow> peers_ok s \<and> (\<forall>i < length (peerNodes s). livePeers s ! i
     \<and> is_initialized (peerNodes s ! i) \<and> tx (peerNodes s ! i) = []
     \<and> rx (peerNodes s ! i) = replicate k (done_segment x))"

lemma replicate_to_answered:
  assumes "peer_in_bounds i s" and "livePeers s ! i" and "is_initialized (peerNodes s ! i)"
    and "tx (peerNodes s ! i) = []" and "rx (peerNodes s ! i) = done_segment x # r"
  shows "replicate_to p1 i s = Inr (set_node i (answered (mk_ReplicationRequest (factory_id s)
    (committed_index s) (last_index s) p1) (peerNodes s ! i)) s)"
  using assms SendReplicationReq_segment [OF assms(3,4), of "''DONE''" x r]
  by (simp add: replicate_to_def answered_def done_segment_def)

lemma replicate_all_answered:
  assumes "peers_answer x (Suc k) s" and "m \<le> length (peerNodes s)"
    and "req = mk_ReplicationRequest (factory_id s) (committed_index s) (last_index s) p1"
  shows "for_loop (replicate_to p1) [0 ..< m] s =
    Inr (s\<lparr>peerNodes := map (answered req) (take m (peerNodes s)) @ drop m (peerNodes s)\<rparr>)"
  using assms(2)
proof (induction m)
  case 0
  then show ?case by simp
next
  case (Suc m)
  let ?t = "s\<lparr>peerNodes := map (answered req) (take m (peerNodes s)) @ drop m (peerNodes s)\<rparr>"
  have m: "m < length (peerNodes s)" using Suc.prems by simp
  have node: "peerNodes ?t ! m = peerNodes s ! m" using m by (simp add: nth_append)
  have bounds: "peer_in_bounds m ?t"
    using assms(1) m by (simp add: peers_answer_def peers_ok_def peer_in_bounds_def Let_def)
  have "replicate_to p1 m ?t = Inr (set_node m (answered (mk_ReplicationRequest (factory_id ?t)
      (committed_index ?t) (last_index ?t) p1) (peerNodes ?t ! m)) ?t)"
    using assms(1) m bounds
    by (intro replicate_to_answered [where x = x and r = "replicate k (done_segment x)"])
      (simp_all add: peers_answer_def node nth_append)
  moreover have "(map (answered req) (take m (peerNodes s)) @ drop m (peerNodes s))
        [m := answered req (peerNodes s ! m)]
      = map (answered req) (take (Suc m) (peerNodes s)) @ drop (Suc m) (peerNodes s)"
    using m by (simp add: list_update_append take_Suc_conv_app_nth min_absorb2
        Cons_nth_drop_Suc [symmetric])
  ultimately show ?case
    using Suc.IH m node by (simp add: for_loop_append set_node_def assms(3))
qed

lemma peers_answer_apply [simp]: "peers_answer x k (apply_locally p1 s) = peers_answer x k s"
  using peers_ok_cong [of "apply_locally p1 s" s] by (simp add: peers_answer_def)

lemma peers_answer_feed: "peers_answer x (Suc k) s \<Longrightarrow> peers_answer x k (feed req s)"
  using peers_ok_cong [of "feed req s" s]
  by (auto simp: peers_answer_def feed_def answered_def)

lemma peer_range_nodes: "peers_ok s \<Longrightarrow> peer_range s = [0 ..< length (peerNodes s)]"
  by (simp add: peer_range_def peers_ok_def Let_def)

text \<open>An order placed at a primary whose peers answer: exact effect on state and wire.\<close>

definition replicated_step :: "MapOp \<Rightarrow> LaptopFactory \<Rightarrow> LaptopFactory" where
  "replicated_step p1 p = feed (live_request p1 p) (apply_locally p1 p)"

lemma AdminThread_round_live:
  assumes "peers_answer x (Suc k) s" and "primary_id s = factory_id s"
  shows "AdminThread_round aid req s =
    Inr (SetAdminId aid (ar_laptop req), replicated_step (request_op req) s)"
proof -
  let ?a = "apply_locally (request_op req) s"
  have "for_loop (replicate_to (request_op req)) (peer_range ?a) ?a
      = Inr (feed (live_request (request_op req) s) ?a)"
    using replicate_all_answered [of x k ?a "length (peerNodes ?a)" _ "request_op req"] assms(1)
      peer_range_nodes [of ?a] peers_answer_apply [of x "Suc k" "request_op req" s]
    by (simp add: feed_def live_request_def peers_answer_def)
  then show ?thesis
    using assms(2)
    by (simp add: AdminThread_round_def become_primary_def replicated_step_def peer_range_def)
qed

lemma CreateRegularLaptop_live:
  assumes "peers_answer x (Suc k) s" and "primary_id s = factory_id s" and "arq s = []"
  shows "CreateRegularLaptop order eng s =
    Inr (laptop_for order eng (admin_id s), replicated_step (order_op order) s)"
proof -
  have same: "s\<lparr>arq := []\<rparr> = s" using assms(3) by (cases s) simp
  show ?thesis
    using AdminThread_round_live [OF assms(1,2)]
    by (simp add: CreateRegularLaptop_def admin_serve.simps AdminThread_step_def assms(3) same
        laptop_for_def order_op_def request_op_def)
qed

lemma replicated_step_fields [simp]:
  "arq (replicated_step p1 p) = arq p" "primary_id (replicated_step p1 p) = primary_id p"
  "factory_id (replicated_step p1 p) = factory_id p" "files (replicated_step p1 p) = files p"
  "committed_index (replicated_step p1 p) = committed_index p + 1"
  "last_index (replicated_step p1 p) = last_index p + 1"
  "smr_log (replicated_step p1 p) = smr_log p @ [p1]"
  "customer_record (replicated_step p1 p) = map_assign (arg1 p1) (arg2 p1) (customer_record p)"
  "length (peerNodes (replicated_step p1 p)) = length (peerNodes p)"
  by (simp_all add: replicated_step_def feed_def)

lemma peers_answer_step: "peers_answer x (Suc k) p \<Longrightarrow> peers_answer x k (replicated_step p1 p)"
  by (simp add: replicated_step_def peers_answer_feed)

lemma live_request_replicated_step [simp]:
  "live_request q (replicated_step p1 p) = live_request q (apply_locally p1 p)"
  by (simp add: live_request_def)

lemma commit_records_live:
  assumes "peers_answer x (length recs) s" and "primary_id s = factory_id s" and "arq s = []"
  shows "\<exists>nl cs. commit_records t eng recs (nl0, cs0, s) =
    Inr (nl, cs, fold replicated_step (map rec_op recs) s)"
  using assms
proof (induction recs arbitrary: nl0 cs0 s)
  case Nil
  then show ?case by simp
next
  case (Cons r recs)
  let ?order = "SetOrder (tl_customer_id r) (tl_last_order_num r) (tl_customer_opr r) new_CustomerOrder"
  have step: "CreateRegularLaptop ?order eng s =
      Inr (laptop_for ?order eng (admin_id s), replicated_step (rec_op r) s)"
    using CreateRegularLaptop_live [OF _ Cons.prems(2,3)] Cons.prems(1) order_op_rec
    by (metis length_Cons)
  show ?case
    using Cons.IH [of "replicated_step (rec_op r) s"] Cons.prems peers_answer_step
    by (simp add: step Let_def)
qed

lemma live_requests_cong:
  "factory_id p = factory_id q \<Longrightarrow> committed_index p = committed_index q \<Longrightarrow>
   last_index p = last_index q \<Longrightarrow> live.requests ops p = live.requests ops q"
  by (induction ops arbitrary: p q) (simp_all add: live_request_def)

lemma live_requests_step [simp]:
  "live.requests ops (replicated_step p1 p) = live.requests ops (apply_locally p1 p)"
  by (rule live_requests_cong) simp_all

lemma live_requests_factory: "r \<in> set (live.requests ops p) \<Longrightarrow> rr_factory_id r = factory_id p"
  by (induction ops arbitrary: p) (auto simp: live_request_def)

lemma fold_replicated_step_fields:
  "customer_record (fold replicated_step ops p) = customer_record (fold apply_locally ops p)"
  "smr_log (fold replicated_step ops p) = smr_log (fold apply_locally ops p)"
  "committed_index (fold replicated_step ops p) = committed_index (fold apply_locally ops p)"
  "files (fold replicated_step ops p) = files p"
proof -
  have "customer_record (fold replicated_step ops p) = customer_record (fold apply_locally ops q)
    \<and> smr_log (fold replicated_step ops p) = smr_log (fold apply_locally ops q)
    \<and> committed_index (fold replicated_step ops p) = committed_index (fold apply_locally ops q)"
    if "customer_record p = customer_record q" "smr_log p = smr_log q"
      "committed_index p = committed_index q" for q
    using that by (induction ops arbitrary: p q) simp_all
  from this [of p] show
    "customer_record (fold replicated_step ops p) = customer_record (fold apply_locally ops p)"
    "smr_log (fold replicated_step ops p) = smr_log (fold apply_locally ops p)"
    "committed_index (fold replicated_step ops p) = committed_index (fold apply_locally ops p)"
    by simp_all
  show "files (fold replicated_step ops p) = files p"
    by (induction ops arbitrary: p) simp_all
qed

text \<open>The bytes each peer has been sent.\<close>

lemma sent_fold_replicated:
  "i < length (peerNodes p) \<Longrightarrow>
   sent (peerNodes (fold replicated_step ops p) ! i) = sent (peerNodes p ! i)
     @ concat (map (raw_replication (host (peerNodes p ! i))) (live.requests ops p))"
proof (induction ops arbitrary: p)
  case Nil
  then show ?case by simp
next
  case (Cons p1 ops)
  have "peerNodes (replicated_step p1 p) ! i = answered (live_request p1 p) (peerNodes p ! i)"
    using Cons.prems by (simp add: replicated_step_def feed_def)
  then show ?case
    using Cons.IH [of "replicated_step p1 p"] Cons.prems by (simp add: answered_def)
qed

lemma backup_follows:
  assumes "in_step p b" and "log_room (length ops) p" and "factory_id p \<noteq> -1"
    and "is_initialized stub" and "tx stub = []"
    and "rx stub = map (\<lambda>r. Segment (raw_replication (host stub) r)) (live.requests ops p)"
  shows "\<exists>stub' b'. IFAFlow stub b = Inr (stub', b'\<lparr>primary_id := -1\<rparr>)
    \<and> in_step (fold apply_locally ops p) b'"
proof -
  obtain b' where b': "for_loop IFA_apply (live.requests ops p) b = Inr b'"
    "in_step (fold apply_locally ops p) b'"
    using live.receive_all [OF assms(1,2)] by blast
  have "\<forall>r \<in> set (live.requests ops p). rr_factory_id r \<noteq> -1"
    using live_requests_factory [of _ ops p] assms(3) by auto
  from IFAFlow_requests [OF assms(4-6) this] obtain stub' where
    "IFAFlow stub b = bindE (for_loop IFA_apply (live.requests ops p) b)
      (\<lambda>s'. Inr (stub', s'\<lparr>primary_id := -1\<rparr>))" by blast
  then show ?thesis using b' by auto
qed

lemma commit_txn_live:
  assumes "disk_writable (files p)" and "arq p = []" and "primary_id p = factory_id p"
    and "peers_answer x (length (logged t p)) p"
  shows "\<exists>nl d. commit_txn t eng p = Inr ((fold replicated_step (map rec_op (logged t p)) p)
    \<lparr>txn_log := nl, files := d\<rparr>)"
proof -
  obtain nl cs where "commit_records t eng (logged t p) ([], [], p) =
      Inr (nl, cs, fold replicated_step (map rec_op (logged t p)) p)"
    using commit_records_live [OF assms(4,3,2)] by blast
  then have loop: "(case map_find t (txn_log p) of
        Some recs \<Rightarrow> commit_records t eng recs ([], [], p) | None \<Rightarrow> Inr ([], [], p))
      = Inr (nl, cs, fold replicated_step (map rec_op (logged t p)) p)"
    by (cases "map_find t (txn_log p)") (simp_all add: logged_def)
  have "disk_writable (files (fold replicated_step (map rec_op (logged t p)) p))"
    using assms(1) by (simp add: fold_replicated_step_fields)
  then have "commit_txn t eng p = Inr (((fold replicated_step (map rec_op (logged t p)) p)
    \<lparr>txn_log := nl, files := (files p)\<lparr>logFile := Some (log_content (files p) @ log_text cs),
       custRecFile := Some (cust_text (customer_record
         (fold replicated_step (map rec_op (logged t p)) p)))\<rparr>\<rparr>))"
    unfolding commit_txn_def loop
    by (simp add: store_txn_log_record_eq store_cust_record_txn_eq disk_writable_def)
      (simp add: fold_replicated_step_fields)
  then show ?thesis by blast
qed

text \<open>
  C14. Replication of a commit: on a primary whose peers are connected and answer, committing a
  transaction sends every peer exactly one request per logged record, and a backup in step with the
  primary that receives them (from a primary of its own byte order) ends with the primary's
  customer records and operation log, with nothing pending.
\<close>

theorem commit_reaches_backups:
  assumes "rm_ready p" and "primary_id p = factory_id p" and "factory_id p \<noteq> -1"
    and "peers_answer x (length (logged t p)) p" and "log_room (length (logged t p)) p"
    and "in_step p b"
  shows "\<exists>p' reqs. commit_txn t eng p = Inr p' \<and> length reqs = length (logged t p)
    \<and> (\<forall>i < length (peerNodes p). sent (peerNodes p' ! i) = sent (peerNodes p ! i)
          @ concat (map (raw_replication (host (peerNodes p ! i))) reqs))
    \<and> (\<forall>stub. is_initialized stub \<and> tx stub = []
          \<and> rx stub = map (\<lambda>r. Segment (raw_replication (host stub) r)) reqs \<longrightarrow>
        (\<exists>stub' b'. IFAFlow stub b = Inr (stub', b') \<and> customer_record b' = customer_record p'
          \<and> smr_log b' = smr_log p' \<and> committed_index b' = last_index b'))"
proof -
  let ?ops = "map rec_op (logged t p)"
  let ?reqs = "live.requests ?ops p"
  obtain nl d where p': "commit_txn t eng p =
      Inr ((fold replicated_step ?ops p)\<lparr>txn_log := nl, files := d\<rparr>)"
    using commit_txn_live [of p x t eng] assms(1,2,4) by (auto simp: rm_ready_def)
  have follow: "\<exists>stub' b'. IFAFlow stub b = Inr (stub', b')
      \<and> customer_record b' = customer_record (fold replicated_step ?ops p)
      \<and> smr_log b' = smr_log (fold replicated_step ?ops p) \<and> committed_index b' = last_index b'"
    if "is_initialized stub" "tx stub = []"
      "rx stub = map (\<lambda>r. Segment (raw_replication (host stub) r)) ?reqs" for stub
    using backup_follows [OF assms(6) _ assms(3) that] assms(5)
    by (auto simp: in_step_def nothing_pending_def fold_replicated_step_fields)
  show ?thesis
    using p' follow sent_fold_replicated [of _ p ?ops]
    by (intro exI [of _ "(fold replicated_step ?ops p)\<lparr>txn_log := nl, files := d\<rparr>"]
        exI [of _ ?reqs]) simp
qed

text \<open>A primary with one connected peer, transaction 7 prepared, and its backup.\<close>

definition demo_stub :: "rx_event list \<Rightarrow> ClientStub" where
  "demo_stub r = (new_ClientSocket LittleEndian True [] [])\<lparr>is_initialized := True, rx := r\<rparr>"

definition demo_conn :: "rx_event list \<Rightarrow> ServerStub" where
  "demo_conn r = new_ServerSocket LittleEndian True [] (r, []) False"

definition demo_primary :: LaptopFactory where
  "demo_primary = demo_rm\<lparr>primary_id := 0, peer_count := 1,
     peers := [\<lparr>peer_id = 1, peer_ip = ''backup'', peer_port = 5000, peer_backup_ip = [],
                peer_backup_port = 0\<rparr>],
     peerNodes := [demo_stub [done_segment (demo_conn [])]], livePeers := [True],
     txn_log := [(7, [mk_TxnLogRequest 7 1 0 51 1])]\<rparr>"

lemma demo_stub_fields [simp]:
  "is_initialized (demo_stub r)" "tx (demo_stub r) = []" "rx (demo_stub r) = r"
  "mem_ok (demo_stub r)" "sent (demo_stub r) = []" "host (demo_stub r) = LittleEndian"
  by (simp_all add: demo_stub_def new_ClientSocket_def new_Socket_def Socket.extend_def
      ClientSocket.fields_def)

lemma demo_conn_fields [simp]:
  "is_initialized (demo_conn r)" "tx (demo_conn r) = []" "rx (demo_conn r) = r"
  "mem_ok (demo_conn r)" "sent (demo_conn r) = []" "host (demo_conn r) = LittleEndian"
  "junk (demo_conn r) = []"
  by (simp_all add: demo_conn_def new_ServerSocket_def NagleOn_def new_Socket_def
      Socket.extend_def ServerSocket.fields_def)

lemma demo_primary_facts [simp]:
  "rm_ready demo_primary" "primary_id demo_primary = factory_id demo_primary"
  "factory_id demo_primary = 0" "length (peerNodes demo_primary) = 1"
  "logged 7 demo_primary = [mk_TxnLogRequest 7 1 0 51 1]" "in_step demo_primary demo_rm"
  "log_room 1 demo_primary" "peers_answer (demo_conn []) 1 demo_primary"
  "customer_record demo_primary = [(0, 50), (1, 50)]" "smr_log demo_primary = []"
  by (simp_all add: rm_ready_def rm_ok_def peers_ok_def indices_ok_def map_ok_def log_ok_def
      demo_primary_def demo_files_def disk_writable_def logged_def in_step_def nothing_pending_def
      peers_answer_def log_room_def mk_TxnLogRequest_def)

lemma commit_reaches_backups_witness:
  "\<exists>p' req stub' b'. commit_txn 7 1 demo_primary = Inr p'
     \<and> IFAFlow (demo_conn [Segment (raw_replication LittleEndian req)]) demo_rm = Inr (stub', b')
     \<and> customer_record b' = customer_record p'"
proof -
  have one: "length (logged 7 demo_primary) = 1" by simp
  obtain p' reqs where p': "commit_txn 7 1 demo_primary = Inr p'" "length reqs = 1"
    and follow: "\<forall>stub. is_initialized stub \<and> tx stub = []
          \<and> rx stub = map (\<lambda>r. Segment (raw_replication (host stub) r)) reqs \<longrightarrow>
        (\<exists>stub' b'. IFAFlow stub demo_rm = Inr (stub', b') \<and> customer_record b' = customer_record p'
          \<and> smr_log b' = smr_log p' \<and> committed_index b' = last_index b')"
    using commit_reaches_backups [of demo_primary "demo_conn []" 7 demo_rm 1] unfolding one
    by (auto simp del: One_nat_def)
  obtain req where "reqs = [req]" using p'(2) by (cases reqs) auto
  then show ?thesis
    using p'(1) follow [rule_format, of "demo_conn [Segment (raw_replication LittleEndian req)]"]
    by auto
qed

section \<open>Replay after a reconnection\<close>

text \<open>The requests of \<^verbatim>\<open>sendAllRequests\<close>: entry \<open>i\<close> of the log says that entry \<open>i - 1\<close> is committed.\<close>

definition replay_request :: "cint \<Rightarrow> MapOp list \<Rightarrow> nat \<Rightarrow> ReplicationRequest" where
  "replay_request f l i = mk_ReplicationRequest f (of_nat i - 1) (of_nat i) (l ! i)"

definition replay_requests :: "cint \<Rightarrow> MapOp list \<Rightarrow> ReplicationRequest list" where
  "replay_requests f l = map (replay_request f l) [0 ..< length l]"

lemma set_node_simps [simp]:
  "factory_id (set_node i n s) = factory_id s" "smr_log (set_node i n s) = smr_log s"
  "set_node i n' (set_node i n s) = set_node i n' s"
  "i < length (peerNodes s) \<Longrightarrow> peerNodes (set_node i n s) ! i = n"
  by (simp_all add: set_node_def)

lemma sendAllRequests_sent:
  assumes "peer_in_bounds i s" and "is_initialized (peerNodes s ! i)" and "tx (peerNodes s ! i) = []"
    and "rx (peerNodes s ! i) = replicate (length (smr_log s)) (done_segment x)"
  shows "\<exists>n. sendAllRequests i s = Inr (set_node i n s)
    \<and> sent n = sent (peerNodes s ! i) @ concat (map (raw_replication (host (peerNodes s ! i)))
        (replay_requests (factory_id s) (smr_log s)))"
proof -
  let ?n = "peerNodes s ! i"
  let ?send = "\<lambda>j s. if \<not> peer_in_bounds i s then Inl Undefined else
         (case SendReplicationReq (mk_ReplicationRequest (factory_id s) (of_nat j - 1) (of_nat j)
                 (smr_log s ! j)) (peerNodes s ! i) of (resp, n) \<Rightarrow> Inr (set_node i n s))"
  have i: "i < length (peerNodes s)" using assms(1) by (simp add: peer_in_bounds_def)
  have bounds: "peer_in_bounds i (set_node i n s)" for n
    using assms(1) by (simp add: peer_in_bounds_def set_node_def)
  have "m \<le> length (smr_log s) \<Longrightarrow> for_loop ?send [0 ..< m] s = Inr (set_node i
      (?n\<lparr>rx := replicate (length (smr_log s) - m) (done_segment x), sent := sent ?n
        @ concat (map (\<lambda>j. raw_replication (host ?n) (replay_request (factory_id s) (smr_log s) j)) [0 ..< m])\<rparr>) s)"
    for m
  proof (induction m)
    case 0
    show ?case by (simp add: set_node_def flip: assms(4))
  next
    case (Suc m)
    let ?N = "?n\<lparr>rx := replicate (length (smr_log s) - m) (done_segment x), sent := sent ?n
        @ concat (map (\<lambda>j. raw_replication (host ?n) (replay_request (factory_id s) (smr_log s) j)) [0 ..< m])\<rparr>"
    have rx: "rx ?N = Segment (msg_bytes 10 ''DONE'' x)
        # replicate (length (smr_log s) - Suc m) (done_segment x)"
    proof -
      have "length (smr_log s) - m = Suc (length (smr_log s) - Suc m)" using Suc.prems by simp
      then show ?thesis by (simp add: done_segment_def)
    qed
    have "SendReplicationReq (replay_request (factory_id s) (smr_log s) m) ?N = (''DONE'',
        ?N\<lparr>rx := replicate (length (smr_log s) - Suc m) (done_segment x),
          sent := sent ?N @ raw_replication (host ?N) (replay_request (factory_id s) (smr_log s) m)\<rparr>)"
      by (rule SendReplicationReq_segment [OF _ _ rx]) (simp_all add: assms(2,3))
    then show ?case
      using Suc i bounds by (simp add: for_loop_append replay_request_def)
  qed
  from this [of "length (smr_log s)"] show ?thesis
    by (auto simp: sendAllRequests_def replay_requests_def comp_def)
qed

lemma sint_of_nat_pred: "m < 2 ^ 31 \<Longrightarrow> sint (of_nat m - 1 :: cint) = int m - 1"
  using sint_of_small_int [of "int m - 1"] by simp

text \<open>A backup that has seen no request yet.\<close>

definition fresh_backup :: "LaptopFactory \<Rightarrow> bool" where
  "fresh_backup b \<longleftrightarrow> smr_log b = [] \<and> last_index b = -1 \<and> committed_index b = -1"

lemma replay_prefix:
  assumes "fresh_backup b" and "length l < 2 ^ 31" and "m \<le> length l"
  shows "for_loop IFA_apply (map (replay_request f l) [0 ..< m]) b =
    Inr (b\<lparr>primary_id := (if m = 0 then primary_id b else f), smr_log := take m l,
      last_index := of_nat m - 1, committed_index := (if m = 0 then -1 else of_nat m - 2),
      customer_record := imap.write_all (map op_write (take (m - 1) l)) (customer_record b)\<rparr>)"
  using assms(3)
proof (induction m)
  case 0
  have "b\<lparr>smr_log := smr_log b, last_index := last_index b, committed_index := committed_index b\<rparr> = b"
    by simp
  then show ?case
    using assms(1) by (cases b) (simp add: fresh_backup_def imap.write_all_def)
next
  case (Suc m)
  let ?b = "b\<lparr>primary_id := (if m = 0 then primary_id b else f), smr_log := take m l,
      last_index := of_nat m - 1, committed_index := (if m = 0 then -1 else of_nat m - 2),
      customer_record := imap.write_all (map op_write (take (m - 1) l)) (customer_record b)\<rparr>"
  have m: "m < length l" using Suc.prems by simp
  have c: "sint (of_nat m - 1 :: cint) = int m - 1"
    using m assms(2) by (intro sint_of_nat_pred) simp
  have loop: "for_loop IFA_apply (map (replay_request f l) [0 ..< Suc m]) b
      = IFA_apply (replay_request f l m) ?b"
    using Suc.IH m by (cases "IFA_apply (replay_request f l m) ?b") (simp_all add: for_loop_append)
  show ?case
  proof (cases m)
    case 0
    then show ?thesis
      unfolding loop using m assms(1)
      by (cases b) (simp add: IFA_apply_def replay_request_def fresh_backup_def Let_def
          imap.write_all_def take_Suc_conv_app_nth)
  next
    case (Suc k)
    have at: "(take m l @ [l ! m]) ! k = l ! k" using m Suc by (simp add: nth_append)
    have k: "nat (sint (of_nat m - 1 :: cint)) = k" "0 \<le> sint (of_nat m - 1 :: cint)"
      using c Suc by simp_all
    have "IFA_apply (replay_request f l m) ?b = Inr (?b\<lparr>primary_id := f,
        smr_log := take m l @ [l ! m], last_index := of_nat m,
        customer_record := map_assign (arg1 (l ! k)) (arg2 (l ! k)) (customer_record ?b),
        committed_index := of_nat m - 1\<rparr>)"
      using m Suc k at by (simp add: IFA_apply_def replay_request_def Let_def min_def)
    moreover have "map_assign (arg1 (l ! k)) (arg2 (l ! k))
        (imap.write_all (map op_write (take k l)) (customer_record b))
        = imap.write_all (map op_write (take m l)) (customer_record b)"
      using m Suc by (simp add: imap.write_all_def take_Suc_conv_app_nth op_write_def)
    ultimately show ?thesis
      unfolding loop using m Suc by (simp add: take_Suc_conv_app_nth)
  qed
qed

lemma replay_all:
  assumes "fresh_backup b" and "length l < 2 ^ 31" and "l \<noteq> []"
  shows "for_loop IFA_apply (replay_requests f l) b =
    Inr (b\<lparr>primary_id := f, smr_log := l, last_index := of_nat (length l) - 1,
      committed_index := of_nat (length l) - 2,
      customer_record := imap.write_all (map op_write (butlast l)) (customer_record b)\<rparr>)"
  using replay_prefix [OF assms(1,2) order_refl, of f] assms(3)
  by (simp add: replay_requests_def butlast_conv_take)

lemma for_loop_append_Inr:
  "for_loop f xs s = Inr t \<Longrightarrow> for_loop f (xs @ ys) s = for_loop f ys t"
  by (simp add: for_loop_append)

lemma replay_requests_factory: "r \<in> set (replay_requests f l) \<Longrightarrow> rr_factory_id r = f"
  by (auto simp: replay_requests_def replay_request_def)

lemma map_ok_write_all: "map_ok m \<Longrightarrow> map_ok (imap.write_all ws m)"
  by (rule imap.ok_write_all)

lemma write_all_last:
  "l \<noteq> [] \<Longrightarrow> map_assign (arg1 (last l)) (arg2 (last l)) (imap.write_all (map op_write (butlast l)) m)
     = imap.write_all (map op_write l) m"
  by (cases l rule: rev_cases) (simp_all add: imap.write_all_def op_write_def)

text \<open>
  C19. Replay after a reconnection: \<^verbatim>\<open>sendAllRequests\<close> sends a connected peer one request per log
  entry; a fresh backup that receives them has the whole log, has applied all of it but the last
  entry, and applies that one too when it takes over as primary.
\<close>

theorem replay_restores_log:
  assumes "peer_in_bounds i s" and "is_initialized (peerNodes s ! i)" and "tx (peerNodes s ! i) = []"
    and "rx (peerNodes s ! i) = replicate (length (smr_log s)) (done_segment x)"
    and "smr_log s \<noteq> []" and "length (smr_log s) < 2 ^ 31" and "factory_id s \<noteq> -1"
    and "fresh_backup b" and "map_ok (customer_record b)"
  shows "\<exists>n reqs. sendAllRequests i s = Inr (set_node i n s)
    \<and> sent n = sent (peerNodes s ! i) @ concat (map (raw_replication (host (peerNodes s ! i))) reqs)
    \<and> (\<forall>stub. is_initialized stub \<and> tx stub = []
          \<and> rx stub = map (\<lambda>r. Segment (raw_replication (host stub) r)) reqs \<longrightarrow>
        (\<exists>stub' b' b''. IFAFlow stub b = Inr (stub', b') \<and> smr_log b' = smr_log s
          \<and> customer_record b' =
              imap.write_all (map op_write (butlast (smr_log s))) (customer_record b)
          \<and> catch_up b' = Inr b'' \<and> customer_record b'' =
              imap.write_all (map op_write (smr_log s)) (customer_record b)))"
proof -
  let ?l = "smr_log s"
  let ?reqs = "replay_requests (factory_id s) ?l"
  let ?b = "b\<lparr>primary_id := -1, smr_log := ?l, last_index := of_nat (length ?l) - 1,
      committed_index := of_nat (length ?l) - 2,
      customer_record := imap.write_all (map op_write (butlast ?l)) (customer_record b)\<rparr>"
  have len: "0 < length ?l" using assms(5) by simp
  have idx: "sint (of_nat (length ?l) - 1 :: cint) = int (length ?l) - 1"
    "sint (of_nat (length ?l) - 2 :: cint) = int (length ?l) - 2"
    using sint_of_nat_pred [OF assms(6)] sint_of_small_int [of "int (length ?l) - 2"] assms(6)
    by simp_all
  have up: "catch_up ?b = Inr (caught_up ?b)"
    using idx len assms(9) map_ok_write_all
    by (intro catch_up_eq) (simp_all add: indices_ok_def Suc_le_eq)
  have rec: "customer_record (caught_up ?b)
      = imap.write_all (map op_write ?l) (customer_record b)"
    using idx write_all_last [OF assms(5)] by (simp add: caught_up_def)
  have ids: "\<forall>r \<in> set ?reqs. rr_factory_id r \<noteq> -1"
    using replay_requests_factory assms(7) by fastforce
  have flow: "\<exists>stub'. IFAFlow stub b = Inr (stub', ?b)" if "is_initialized stub" "tx stub = []"
      "rx stub = map (\<lambda>r. Segment (raw_replication (host stub) r)) ?reqs" for stub
    using IFAFlow_requests [OF that ids, of b] replay_all [OF assms(8,6,5)] by auto
  obtain n where n: "sendAllRequests i s = Inr (set_node i n s)"
    "sent n = sent (peerNodes s ! i) @ concat (map (raw_replication (host (peerNodes s ! i))) ?reqs)"
    using sendAllRequests_sent [OF assms(1-4)] by blast
  have backup: "\<exists>stub' b' b''. IFAFlow stub b = Inr (stub', b') \<and> smr_log b' = smr_log s
      \<and> customer_record b' = imap.write_all (map op_write (butlast ?l)) (customer_record b)
      \<and> catch_up b' = Inr b''
      \<and> customer_record b'' = imap.write_all (map op_write ?l) (customer_record b)"
    if conn: "is_initialized stub \<and> tx stub = []
      \<and> rx stub = map (\<lambda>r. Segment (raw_replication (host stub) r)) ?reqs" for stub
  proof -
    obtain stub' where "IFAFlow stub b = Inr (stub', ?b)" using flow conn by blast
    then show ?thesis
      using up rec by (intro exI [of _ stub'] exI [of _ ?b] exI [of _ "caught_up ?b"]) simp
  qed
  show ?thesis
    using n backup by (intro exI [of _ n] exI [of _ ?reqs]) blast
qed

text \<open>
  Witness: a primary with two logged operations, reconnected to a backup that starts empty.
\<close>

definition replay_primary :: LaptopFactory where
  "replay_primary = demo_primary\<lparr>last_index := 1, committed_index := 1,
     smr_log := [\<lparr>opcode = 1, arg1 = 0, arg2 = 51\<rparr>, \<lparr>opcode = 1, arg1 = 1, arg2 = 51\<rparr>],
     customer_record := [(0, 51), (1, 51)],
     peerNodes := [demo_stub [done_segment (demo_conn []), done_segment (demo_conn [])]]\<rparr>"

lemma replay_primary_facts [simp]:
  "peer_in_bounds 0 replay_primary" "factory_id replay_primary = 0"
  "peerNodes replay_primary ! 0 = demo_stub [done_segment (demo_conn []), done_segment (demo_conn [])]"
  "smr_log replay_primary = [\<lparr>opcode = 1, arg1 = 0, arg2 = 51\<rparr>, \<lparr>opcode = 1, arg1 = 1, arg2 = 51\<rparr>]"
  "indices_ok replay_primary" "nothing_pending replay_primary"
  "log_room n replay_primary \<longleftrightarrow> 2 + n < 2 ^ 31"
  "customer_record replay_primary = [(0, 51), (1, 51)]"
  by (simp_all add: replay_primary_def demo_primary_def peer_in_bounds_def indices_ok_def
      nothing_pending_def log_room_def)

lemma fresh_backup_demo [simp]: "fresh_backup demo_rm" "map_ok [(0, 50), (1, 50 :: cint)]"
  by (simp_all add: fresh_backup_def map_ok_def)

lemma replay_restores_log_witness:
  "\<exists>n reqs. sendAllRequests 0 replay_primary = Inr (set_node 0 n replay_primary)
     \<and> sent n = concat (map (raw_replication LittleEndian) reqs)
     \<and> (\<exists>stub' b' b''. IFAFlow (demo_conn (map (\<lambda>r. Segment (raw_replication LittleEndian r)) reqs))
            demo_rm = Inr (stub', b')
          \<and> customer_record b' = [(0, 51), (1, 50)]
          \<and> catch_up b' = Inr b'' \<and> customer_record b'' = [(0, 51), (1, 51)])"
proof -
  obtain n reqs where n: "sendAllRequests 0 replay_primary = Inr (set_node 0 n replay_primary)"
    "sent n = concat (map (raw_replication LittleEndian) reqs)"
    and all: "\<forall>stub. is_initialized stub \<and> tx stub = []
          \<and> rx stub = map (\<lambda>r. Segment (raw_replication (host stub) r)) reqs \<longrightarrow>
        (\<exists>stub' b' b''. IFAFlow stub demo_rm = Inr (stub', b') \<and> smr_log b' = smr_log replay_primary
          \<and> customer_record b' =
              imap.write_all (map op_write (butlast (smr_log replay_primary))) (customer_record demo_rm)
          \<and> catch_up b' = Inr b'' \<and> customer_record b'' =
              imap.write_all (map op_write (smr_log replay_primary)) (customer_record demo_rm))"
    using replay_restores_log [of 0 replay_primary "demo_conn []" demo_rm]
    by auto
  have "imap.write_all (map op_write (butlast (smr_log replay_primary))) (customer_record demo_rm)
      = [(0, 51), (1, 50)]"
    "imap.write_all (map op_write (smr_log replay_primary)) (customer_record demo_rm)
      = [(0, 51), (1, 51)]"
    by (simp_all add: imap.write_all_def op_write_def)
  with all [rule_format, of "demo_conn (map (\<lambda>r. Segment (raw_replication LittleEndian r)) reqs)"]
  have "\<exists>stub' b' b''. IFAFlow (demo_conn (map (\<lambda>r. Segment (raw_replication LittleEndian r)) reqs))
        demo_rm = Inr (stub', b') \<and> customer_record b' = [(0, 51), (1, 50)]
      \<and> catch_up b' = Inr b'' \<and> customer_record b'' = [(0, 51), (1, 51)]"
    by auto
  then show ?thesis using n by blast
qed

text \<open>
  C20. The first live request after a replay: the replay leaves the last entry pending on the backup,
  and the live request names the entry it carries itself, so the pending one is skipped. The backup
  has the primary's whole log, but its records lack the skipped write, also after it takes over.
\<close>

theorem replay_then_live_skips_entry:
  assumes "indices_ok p" and "nothing_pending p" and "smr_log p \<noteq> []" and "log_room 1 p"
    and "fresh_backup b" and "map_ok (customer_record b)"
  shows "\<exists>b' b''. for_loop IFA_apply
      (replay_requests (factory_id p) (smr_log p) @ [live_request p1 p]) b = Inr b'
    \<and> smr_log b' = smr_log (apply_locally p1 p)
    \<and> customer_record b' =
        imap.write_all (map op_write (butlast (smr_log p) @ [p1])) (customer_record b)
    \<and> catch_up b' = Inr b'' \<and> customer_record b'' = customer_record b'"
proof -
  let ?l = "smr_log p"
  let ?b = "b\<lparr>primary_id := factory_id p, smr_log := ?l, last_index := of_nat (length ?l) - 1,
      committed_index := of_nat (length ?l) - 2,
      customer_record := imap.write_all (map op_write (butlast ?l)) (customer_record b)\<rparr>"
  let ?b' = "?b\<lparr>smr_log := ?l @ [p1], last_index := of_nat (length ?l),
      committed_index := of_nat (length ?l) - 1,
      customer_record := imap.write_all (map op_write (butlast ?l @ [p1])) (customer_record b)\<rparr>"
  have len: "length ?l < 2 ^ 31" "length ?l + 1 < 2 ^ 31" "0 < length ?l"
    using assms(3,4) by (simp_all add: log_room_def)
  have c: "sint (committed_index p + 1) = int (length ?l)"
    using indices_room [OF assms(1,4)] assms(2) by (simp add: nothing_pending_def)
  have replay: "for_loop IFA_apply (replay_requests (factory_id p) ?l) b = Inr ?b"
    using replay_all [OF assms(5) len(1) assms(3)] by simp
  have live: "IFA_apply (live_request p1 p) ?b = Inr ?b'"
    by (simp add: IFA_apply_def live_request_def Let_def c imap.write_all_def op_write_def)
  have idx: "sint (of_nat (length ?l) :: cint) = int (length ?l)"
    "sint (of_nat (length ?l) - 1 :: cint) = int (length ?l) - 1"
    using sint_of_nat_pred [OF len(1)] sint_of_small_int [of "int (length ?l)"] len(1) by simp_all
  have ok: "map_ok (customer_record ?b')"
    using map_ok_write_all [OF assms(6), of "map op_write (butlast ?l @ [p1])"] by simp
  have up: "catch_up ?b' = Inr (caught_up ?b')"
    using idx len ok by (intro catch_up_eq) (simp_all add: indices_ok_def Suc_le_eq)
  have "customer_record (caught_up ?b')
      = map_assign (arg1 p1) (arg2 p1) (imap.write_all (map op_write (butlast ?l @ [p1])) (customer_record b))"
    using idx by (simp add: caught_up_def)
  also have "\<dots> = imap.write_all (map op_write (butlast ?l @ [p1])) (customer_record b)"
    using map_assign_idem [OF map_ok_write_all [OF assms(6)],
        of "arg1 p1" "arg2 p1" "map op_write (butlast ?l)"]
    by (simp add: imap.write_all_def op_write_def)
  finally show ?thesis
    using replay live up
    by (intro exI [of _ ?b'] exI [of _ "caught_up ?b'"]) (simp add: for_loop_append_Inr [OF replay])
qed

text \<open>Witness: the primary's own records have customer 1 at 51, the backup's at 50 for good.\<close>

lemma replay_then_live_skips_entry_witness:
  "\<exists>b' b''. for_loop IFA_apply (replay_requests 0 (smr_log replay_primary)
       @ [live_request \<lparr>opcode = 1, arg1 = 0, arg2 = 52\<rparr> replay_primary]) demo_rm = Inr b'
     \<and> catch_up b' = Inr b'' \<and> customer_record b'' = [(0, 52), (1, 50)]
     \<and> customer_record (apply_locally \<lparr>opcode = 1, arg1 = 0, arg2 = 52\<rparr> replay_primary)
         = [(0, 52), (1, 51)]"
proof -
  have "imap.write_all (map op_write (butlast (smr_log replay_primary)
      @ [\<lparr>opcode = 1, arg1 = 0, arg2 = 52\<rparr>])) (customer_record demo_rm) = [(0, 52), (1, 50)]"
    by (simp add: imap.write_all_def op_write_def)
  then show ?thesis
    using replay_then_live_skips_entry [of replay_primary demo_rm
        "\<lparr>opcode = 1, arg1 = 0, arg2 = 52\<rparr>"]
    by auto
qed

end
