(* ===== verification/Sessions.thy ===== *)
theory Sessions
  imports Replication
begin

text \<open>
  Whole connections of a resource manager, byte by byte: what the dispatcher
  (\<^verbatim>\<open>ReceiveIDMsgAndInitiateFlow\<close>) does with each message of a transaction manager, of a peer and of
  a reading client, that its call depth is bounded by the bytes received, and what happens to
  messages that are cut or not recognised.
\<close>

section \<open>Stubs that only lose input\<close>

lemma fresh_update [simp]:
  "fresh n (s\<lparr>rx := r\<rparr>) = fresh n s" "fresh n (s\<lparr>sent := w\<rparr>) = fresh n s"
  "fresh n (s\<lparr>is_initialized := b\<rparr>) = fresh n s"
  by (simp_all add: fresh_def)

lemma msg_bytes_update [simp]:
  "msg_bytes n m (s\<lparr>rx := r\<rparr>) = msg_bytes n m s" "msg_bytes n m (s\<lparr>sent := w\<rparr>) = msg_bytes n m s"
  by (simp_all add: msg_bytes_def)

text \<open>What a received message does to the stub: less input, the same memory.\<close>

definition drained :: "('a) Socket_scheme \<Rightarrow> ('a) Socket_scheme \<Rightarrow> bool" where
  "drained s t \<longleftrightarrow> rx_size (rx t) \<le> rx_size (rx s) \<and> mem_ok t = mem_ok s"

lemma drained_refl [simp]: "drained s s"
  by (simp add: drained_def)

lemma drained_trans: "drained s t \<Longrightarrow> drained t u \<Longrightarrow> drained s u"
  by (auto simp: drained_def)

lemma sys_recv_drains: "drained s (snd (snd (sys_recv n s)))"
  using sys_recv_rx_size [of n s]
  by (cases "sys_recv n s")
    (auto simp: drained_def sys_recv_def split: if_splits list.splits rx_event.splits)

lemma drained_Close [simp]: "drained s (Close t) = drained s t"
  by (simp add: drained_def Close_def)

lemma Recv_once_drained: "drained s (snd (snd (Recv_once n s)))"
  using sys_recv_drains [of s n] by (cases "sys_recv n s") (simp add: Recv_once_def)

lemma Recv_drained: "drained s (snd (snd (Recv n acc s)))"
proof (induction n acc s rule: Recv.induct)
  case (1 n acc s)
  obtain r got s' where step: "sys_recv n s = (r, got, s')" by (cases "sys_recv n s")
  have "drained s s'" using sys_recv_drains [of s n] by (simp add: step)
  then show ?case
    using "1.IH" [OF _ step [symmetric] refl] drained_trans [of s s']
    by (simp add: Recv.simps [of n acc s] step)
qed

lemma IdentificationMsg_drained: "drained s (snd (IdentificationMsg s))"
  using Recv_drained [of s 10 "[]"] by (cases "Recv 10 [] s") (simp add: IdentificationMsg_def)

lemma sys_send_drained: "drained s (snd (sys_send data s))"
  by (auto simp: sys_send_def drained_def split: list.splits tx_event.splits)

lemma Send_drained: "drained s (snd (Send data s))"
proof (induction data s rule: Send.induct)
  case (1 data s)
  obtain r s' where step: "sys_send data s = (r, s')" by force
  have "drained s s'" using sys_send_drained [of s data] by (simp add: step)
  then show ?case
    using "1.IH" [OF _ step [symmetric]] drained_trans [of s s']
    by (simp add: Send.simps [of data s] step)
qed

lemma SendResponse_drained: "drained s (snd (SendResponseReplicationReq m s))"
  by (simp add: SendResponseReplicationReq_def Send_drained)

lemma ReceiveTxnRequest_progress:
  assumes "ReceiveTxnRequest s = Inr (t, s')" and "mem_ok s"
  shows "rx_size (rx s') < rx_size (rx s) \<and> mem_ok s'"
proof -
  obtain r got s1 where recv: "Recv_once 200000 s = (r, got, s1)" by (cases "Recv_once 200000 s")
  have "0 < r" "s' = s1"
    using assms by (auto simp: ReceiveTxnRequest_def recv Let_def split: if_splits option.splits)
  then show ?thesis
    using Recv_once_rx_size [OF recv] Recv_once_drained [of s 200000] assms(2)
    by (simp add: recv drained_def)
qed

lemma ReceiveTxnId_progress:
  assumes "ReceiveTxnId s = Inr (i, s')"
  shows "rx_size (rx s') < rx_size (rx s) \<and> mem_ok s' = mem_ok s"
proof -
  obtain r got s1 where recv: "sys_recv 4 s = (r, got, s1)" by (cases "sys_recv 4 s")
  have "0 < r" "s' = s1"
    using assms by (auto simp: ReceiveTxnId_def readInt_def recv split: if_splits)
  then show ?thesis
    using sys_recv_rx_size [OF recv] sys_recv_drains [of s 4] by (simp add: recv drained_def)
qed

text \<open>Each handler consumes input before the dispatcher is called again.\<close>

definition consumed :: "ServerStub \<Rightarrow> ServerStub \<Rightarrow> bool" where
  "consumed s t \<longleftrightarrow> rx_size (rx t) < rx_size (rx s) \<and> mem_ok t"

lemma consumed_reply:
  "rx_size (rx s1) < rx_size (rx s) \<and> mem_ok s1 \<Longrightarrow>
   consumed s (snd (SendResponseReplicationReq m s1))"
  using SendResponse_drained [of s1 m] by (auto simp: consumed_def drained_def)

lemma handler_consumes:
  assumes "mem_ok s"
  shows "TMPrepare s f = Inr (s', f') \<Longrightarrow> consumed s s'"
    and "PeerPrepare s f = Inr (s', f') \<Longrightarrow> consumed s s'"
    and "TMCommit eng s f = Inr (s', f') \<Longrightarrow> consumed s s'"
    and "TMAbort s f = Inr (s', f') \<Longrightarrow> consumed s s'"
  using ReceiveTxnRequest_progress ReceiveTxnId_progress assms
  by (auto simp: handler_defs split: prod.splits intro!: consumed_reply)

lemma bindE_same: "(\<And>x. m = Inr x \<Longrightarrow> f x = g x) \<Longrightarrow> bindE m f = bindE m g"
  by (cases m) simp_all

text \<open>
  The call depth of the dispatcher: the handlers call the dispatcher again without returning, so
  the depth grows with every message of a connection; but every such call has consumed input, and
  any depth above the size of the input gives the same result.
\<close>

lemma dispatch_depth_enough:
  assumes "mem_ok stub" and "rx_size (rx stub) < d" and "rx_size (rx stub) < d'"
  shows "ReceiveIDMsgAndInitiateFlow d eng stub s = ReceiveIDMsgAndInitiateFlow d' eng stub s"
  using assms
proof (induction "rx_size (rx stub)" arbitrary: stub s d d' rule: less_induct)
  case less
  obtain k k' where d: "d = Suc k" "d' = Suc k'"
    using less.prems by (cases d; cases d') simp_all
  obtain m stub1 where id: "IdentificationMsg stub = (m, stub1)" by force
  have one: "rx_size (rx stub1) \<le> rx_size (rx stub)" "mem_ok stub1"
    using IdentificationMsg_drained [of stub] less.prems(1) by (simp_all add: id drained_def)
  have again: "ReceiveIDMsgAndInitiateFlow k eng stub2 s2 = ReceiveIDMsgAndInitiateFlow k' eng stub2 s2"
    if "consumed stub1 stub2" for stub2 s2
    using that one less.prems(2,3) d by (intro less.hyps) (auto simp: consumed_def)
  let ?next = "\<lambda>k (stub2, s2). ReceiveIDMsgAndInitiateFlow k eng stub2 s2"
  have same: "bindE m (?next k) = bindE m (?next k')"
    if "\<And>s' f'. m = Inr (s', f') \<Longrightarrow> consumed stub1 s'" for m :: "crash + ServerStub \<times> LaptopFactory"
    using that again by (intro bindE_same) auto
  show ?case
    by (simp only: d ReceiveIDMsgAndInitiateFlow.simps id prod.case
        same [OF handler_consumes(1) [OF one(2)]] same [OF handler_consumes(2) [OF one(2)]]
        same [OF handler_consumes(3) [OF one(2)]] same [OF handler_consumes(4) [OF one(2)]])
qed

lemma rx_size_demo: "rx_size (rx (demo_conn [Segment (msg_bytes 10 m x)])) = 11"
  by simp

lemma dispatch_depth_enough_witness:
  "ReceiveIDMsgAndInitiateFlow 12 1 (demo_conn [Segment (msg_bytes 10 ''CLIENT'' (demo_conn []))]) demo_rm
   = ReceiveIDMsgAndInitiateFlow 1000 1 (demo_conn [Segment (msg_bytes 10 ''CLIENT'' (demo_conn []))]) demo_rm"
  by (rule dispatch_depth_enough) (simp_all add: rx_size_demo del: demo_conn_fields(3))

section \<open>One message of the transaction manager\<close>

definition id_segment :: "string \<Rightarrow> ('a) Socket_scheme \<Rightarrow> rx_event" where
  "id_segment m x = Segment (msg_bytes 10 m x)"

text \<open>A connected stub with nothing to hold up its replies.\<close>

definition conn_ok :: "ServerStub \<Rightarrow> bool" where
  "conn_ok s \<longleftrightarrow> is_initialized s \<and> mem_ok s \<and> tx s = []"

text \<open>The stub after it has read up to \<open>r\<close> and replied \<open>m\<close>.\<close>

definition replied :: "rx_event list \<Rightarrow> string \<Rightarrow> ServerStub \<Rightarrow> ServerStub" where
  "replied r m s = s\<lparr>rx := r, sent := sent s @ msg_bytes 10 m s\<rparr>"

lemma conn_ok_replied [simp]: "conn_ok (replied r m s) = conn_ok s" "rx (replied r m s) = r"
  "sent (replied r m s) = sent s @ msg_bytes 10 m s" "junk (replied r m s) = junk s"
  "fresh n (replied r m s) = fresh n s" "msg_bytes n m' (replied r m s) = msg_bytes n m' s"
  "host (replied r m s) = host s"
  by (simp_all add: conn_ok_def replied_def)

lemma conn_ok_rx [simp]: "conn_ok (s\<lparr>rx := r\<rparr>) = conn_ok s"
  by (simp add: conn_ok_def)

lemma reply_idle:
  "conn_ok s \<Longrightarrow> snd (SendResponseReplicationReq m (s\<lparr>rx := r\<rparr>)) = replied r m s"
  by (simp add: SendResponse_idle conn_ok_def replied_def)

lemma Id_segment:
  "conn_ok s \<Longrightarrow> rx s = id_segment m x # r \<Longrightarrow> short_msg m \<Longrightarrow> IdentificationMsg s = (m, s\<lparr>rx := r\<rparr>)"
  by (rule IdentificationMsg_segment) (simp_all add: conn_ok_def id_segment_def)

lemma Txn_segment:
  "conn_ok s \<Longrightarrow> rx s = Segment (Transaction_Marshal e t) # r \<Longrightarrow> fits t \<Longrightarrow>
   ReceiveTxnRequest s = Inr (t, s\<lparr>rx := r\<rparr>)"
  by (rule ReceiveTxnRequest_segment) (simp_all add: conn_ok_def)

lemma TxnId_segment:
  "conn_ok s \<Longrightarrow> rx s = Segment (net_bytes i) # r \<Longrightarrow> ReceiveTxnId s = Inr (i, s\<lparr>rx := r\<rparr>)"
  by (simp add: ReceiveTxnId_def readInt_segment conn_ok_def)

lemma dispatch_prepare:
  assumes "conn_ok s" and "rx s = id_segment ''TMPrepare'' x # Segment (Transaction_Marshal e t) # r"
    and "fits t" and "prepare_txn t f = Inr (reply, f')"
  shows "ReceiveIDMsgAndInitiateFlow (Suc d) eng s f =
    ReceiveIDMsgAndInitiateFlow d eng (replied r reply s) f'"
  using assms Txn_segment [of "s\<lparr>rx := Segment (Transaction_Marshal e t) # r\<rparr>" e t r]
    reply_idle [OF assms(1), of reply r]
  by (simp add: Id_segment [OF assms(1,2)] TMPrepare_def)

lemma dispatch_peer_prepare:
  assumes "conn_ok s" and "rx s = id_segment ''PrPrepare'' x # Segment (Transaction_Marshal e t) # r"
    and "fits t" and "store_txn_log_in_txn_map t f = Inr f'"
  shows "ReceiveIDMsgAndInitiateFlow (Suc d) eng s f =
    ReceiveIDMsgAndInitiateFlow d eng (replied r ''Ok'' s) f'"
  using assms Txn_segment [of "s\<lparr>rx := Segment (Transaction_Marshal e t) # r\<rparr>" e t r]
    reply_idle [OF assms(1), of "''Ok''" r]
  by (simp add: Id_segment [OF assms(1,2)] PeerPrepare_def)

lemma dispatch_commit:
  assumes "conn_ok s" and "rx s = id_segment ''TMCommit'' x # Segment (net_bytes i) # r"
    and "commit_txn i eng f = Inr f'"
  shows "ReceiveIDMsgAndInitiateFlow (Suc d) eng s f =
    ReceiveIDMsgAndInitiateFlow d eng (replied r ''Done commit'' s) f'"
  using assms TxnId_segment [of "s\<lparr>rx := Segment (net_bytes i) # r\<rparr>" i r]
    reply_idle [OF assms(1), of "''Done commit''" r]
  by (simp add: Id_segment [OF assms(1,2)] TMCommit_def)

lemma dispatch_abort:
  assumes "conn_ok s" and "rx s = id_segment ''TMAbort'' x # Segment (net_bytes i) # r"
    and "abort_txn i f = Inr f'"
  shows "ReceiveIDMsgAndInitiateFlow (Suc d) eng s f =
    ReceiveIDMsgAndInitiateFlow d eng (replied r ''Done abort'' s) f'"
  using assms TxnId_segment [of "s\<lparr>rx := Segment (net_bytes i) # r\<rparr>" i r]
    reply_idle [OF assms(1), of "''Done abort''" r]
  by (simp add: Id_segment [OF assms(1,2)] TMAbort_def)

definition commands :: "string list" where
  "commands = [''CLIENT'', ''PFA'', ''TMPrepare'', ''TMCommit'', ''TMAbort'', ''PrPrepare'']"

lemma dispatch_unknown:
  "IdentificationMsg s = (m, s1) \<Longrightarrow> m \<notin> set commands \<Longrightarrow>
   ReceiveIDMsgAndInitiateFlow (Suc d) eng s f = Inr (s1, f)"
  by (simp add: commands_def)

text \<open>
  At the end of the connection the identification message is whatever the uninitialised buffer on the
  stack holds; \<open>quiet\<close> says that it does not spell a command.
\<close>

definition quiet :: "ServerStub \<Rightarrow> bool" where
  "quiet s \<longleftrightarrow> read_string (fresh 10 s) s \<notin> set commands"

lemma quiet_replied [simp]: "quiet (replied r m s) = quiet s"
  by (simp add: quiet_def read_string_def)

lemma dispatch_eof:
  "conn_ok s \<Longrightarrow> rx s = [] \<Longrightarrow> quiet s \<Longrightarrow>
   ReceiveIDMsgAndInitiateFlow (Suc d) eng s f = Inr (Close s, f)"
  by (rule dispatch_unknown) (simp_all add: IdentificationMsg_eof conn_ok_def quiet_def)

lemma thread_eq:
  "ReceiveIDMsgAndInitiateFlow d eng s f = Inr (s', f') \<Longrightarrow>
   EngineerIFAThread d s eng f = Inr (destroy_Socket s', f')"
  by (simp add: EngineerIFAThread_def)

lemma destroy_Close [simp]: "destroy_Socket (Close s) = Close s"
  by (simp add: destroy_Socket_def Close_def)

lemma Close_fields [simp]: "sent (Close s) = sent s" "\<not> is_initialized (Close s)"
  by (simp_all add: Close_def)

lemmas dispatch_rules = dispatch_prepare dispatch_peer_prepare dispatch_commit dispatch_abort

section \<open>Whole sessions\<close>

text \<open>
  C8. A committed transaction from the network to the files: on a connection that carries a prepare
  and then a commit of the same, new transaction id, whose reads are current, the node replies
  \<^verbatim>\<open>Ok\<close> and then the first ten bytes of \<^verbatim>\<open>Done commit\<close>, applies exactly the valid writes to its
  customer records, leaves them in the customer file, and closes the connection when the transaction
  manager does.
\<close>

theorem prepare_commit_session:
  assumes "rm_ready f" and "nothing_pending f" and "fits txn"
    and "log_room (length (writeRecords txn)) f"
    and "map_find (txn_id txn) (txn_log f) = None"
    and "\<forall>r \<in> set (readRecords txn).
          map_find (cr_customer_id r) (customer_record f) \<in> {None, Some (cr_last_order r)}"
    and "conn_ok s" and "quiet s"
    and "rx s = [id_segment ''TMPrepare'' x, Segment (Transaction_Marshal e txn),
          id_segment ''TMCommit'' y, Segment (net_bytes (txn_id txn))]"
  shows "\<exists>s' f'. EngineerIFAThread (Suc (Suc (Suc d))) s eng f = Inr (s', f')
    \<and> sent s' = sent s @ msg_bytes 10 ''Ok'' s @ ''Done commi'' \<and> \<not> is_initialized s'
    \<and> customer_record f' = imap.write_all
        (map order_write (takeWhile CustomerOrder_IsValid (writeRecords txn))) (customer_record f)
    \<and> custRecFile (files f') = Some (cust_text (customer_record f'))"
proof -
  obtain f1 where f1: "prepare_txn txn f = Inr (''Ok'', f1)" "only_net (prepared_state txn f) f1"
    using prepare_txn_ok [OF rm_readyD(1,4) [OF assms(1)] assms(3)] assms(6)
    by (auto simp: reads_consistent_iff)
  obtain f2 where f2: "commit_txn (txn_id txn) eng f1 = Inr f2"
    "customer_record f2 = imap.write_all
        (map order_write (takeWhile CustomerOrder_IsValid (writeRecords txn))) (customer_record f)"
    "custRecFile (files f2) = Some (cust_text (customer_record f2))"
    using prepared_commit [OF assms(1,2,4,5) f1(2)] by blast
  let ?s1 = "replied [id_segment ''TMCommit'' y, Segment (net_bytes (txn_id txn))] ''Ok'' s"
  let ?s2 = "replied [] ''Done commit'' ?s1"
  have "ReceiveIDMsgAndInitiateFlow (Suc (Suc (Suc d))) eng s f = Inr (Close ?s2, f2)"
    using dispatch_prepare [OF assms(7,9,3) f1(1)] dispatch_commit [of ?s1 y "txn_id txn" "[]" eng f1 f2]
      dispatch_eof [of ?s2] f2(1) assms(7,8) by (simp del: ReceiveIDMsgAndInitiateFlow.simps)
  then show ?thesis
    using f2(2,3) by (simp add: thread_eq msg_bytes_def)
qed

lemma conn_ok_demo [simp]: "conn_ok (demo_conn r)" "quiet (demo_conn r)"
  by (simp_all add: conn_ok_def quiet_def commands_def read_string_def fresh_def c_string_def)

text \<open>Customer 0 at order 50 is moved to order 51, over a connection from a big-endian host.\<close>

definition demo_session :: "string \<Rightarrow> rx_event list" where
  "demo_session verdict = [id_segment ''TMPrepare'' (demo_conn []),
     Segment (Transaction_Marshal BigEndian (demo_txn 7 0)), id_segment verdict (demo_conn []),
     Segment (net_bytes (txn_id (demo_txn 7 0)))]"

lemma demo_writes: "imap.write_all (map order_write (takeWhile CustomerOrder_IsValid
    (writeRecords (demo_txn 7 0)))) (customer_record demo_rm) = [(0, 51), (1, 50)]"
  by (simp add: CustomerOrder_IsValid_def order_write_def imap.write_all_def)

lemma demo_reads: "\<forall>r \<in> set (readRecords (demo_txn 7 0)).
    map_find (cr_customer_id r) (customer_record demo_rm) \<in> {None, Some (cr_last_order r)}"
  by simp

lemma demo_new_id: "map_find (txn_id (demo_txn 7 0)) (txn_log demo_rm) = None"
  "log_room (length (writeRecords (demo_txn 7 0))) demo_rm"
  by simp_all

lemma rx_demo_session: "rx (demo_conn (demo_session v)) = [id_segment ''TMPrepare'' (demo_conn []),
     Segment (Transaction_Marshal BigEndian (demo_txn 7 0)), id_segment v (demo_conn []),
     Segment (net_bytes (txn_id (demo_txn 7 0)))]"
  unfolding demo_conn_fields(3) by (rule demo_session_def)

lemma prepare_commit_session_witness:
  "\<exists>s' f'. EngineerIFAThread (Suc (Suc (Suc 0))) (demo_conn (demo_session ''TMCommit'')) 1 demo_rm
       = Inr (s', f')
     \<and> customer_record f' = [(0, 51), (1, 50)] \<and> \<not> is_initialized s'"
  using prepare_commit_session [OF rm_ready_demo nothing_pending_demo fits_demo demo_new_id(2)
      demo_new_id(1) demo_reads conn_ok_demo rx_demo_session, of 0 1]
  unfolding demo_writes by blast

text \<open>
  A transaction that the transaction manager aborts: after the prepare vote, whatever it was, an
  abort message leaves the customer records and the operation log as they were; the node replies the
  first ten bytes of \<^verbatim>\<open>Done abort\<close>.
\<close>

lemma prepare_abort_session:
  assumes "rm_ready f" and "fits txn" and "conn_ok s" and "quiet s"
    and "rx s = [id_segment ''TMPrepare'' x, Segment (Transaction_Marshal e txn),
          id_segment ''TMAbort'' y, Segment (net_bytes (txn_id txn))]"
  shows "\<exists>reply s' f'. EngineerIFAThread (Suc (Suc (Suc d))) s eng f = Inr (s', f')
    \<and> reply \<in> {''Ok'', ''No''} \<and> sent s' = sent s @ msg_bytes 10 reply s @ ''Done abort''
    \<and> \<not> is_initialized s' \<and> customer_record f' = customer_record f \<and> smr_log f' = smr_log f
    \<and> custRecFile (files f') = custRecFile (files f)"
proof -
  have "\<exists>reply f1. prepare_txn txn f = Inr (reply, f1) \<and> reply \<in> {''Ok'', ''No''} \<and> rm_ready f1
      \<and> customer_record f1 = customer_record f \<and> smr_log f1 = smr_log f
      \<and> custRecFile (files f1) = custRecFile (files f)"
  proof (cases "reads_consistent (readRecords txn) (customer_record f)")
    case True
    then obtain f1 where f1: "prepare_txn txn f = Inr (''Ok'', f1)" "only_net (prepared_state txn f) f1"
      using prepare_txn_ok [OF rm_readyD(1,4) [OF assms(1)] assms(2)] by blast
    have "rm_ready f1" using rm_ready_prepared [OF assms(1)] only_net_rm_ready [OF f1(2)] by simp
    then show ?thesis
      using f1 by (simp add: only_net_fields [OF f1(2)]) (simp add: prepared_state_def)
  next
    case False
    then show ?thesis using assms(1) by (simp add: prepare_txn_def)
  qed
  then obtain reply f1 where f1: "prepare_txn txn f = Inr (reply, f1)" "reply \<in> {''Ok'', ''No''}"
    "rm_ready f1" "customer_record f1 = customer_record f" "smr_log f1 = smr_log f"
    "custRecFile (files f1) = custRecFile (files f)" by blast
  let ?f2 = "aborted_state (txn_id txn) f1"
  have f2: "abort_txn (txn_id txn) f1 = Inr ?f2"
    using f1(3) by (simp add: abort_txn_eq rm_ready_def)
  let ?s1 = "replied [id_segment ''TMAbort'' y, Segment (net_bytes (txn_id txn))] reply s"
  let ?s2 = "replied [] ''Done abort'' ?s1"
  have "ReceiveIDMsgAndInitiateFlow (Suc (Suc (Suc d))) eng s f = Inr (Close ?s2, ?f2)"
    using dispatch_prepare [OF assms(3,5,2) f1(1)] dispatch_abort [of ?s1 y "txn_id txn" "[]" f1 ?f2]
      dispatch_eof [of ?s2] f2 assms(3,4) by (simp del: ReceiveIDMsgAndInitiateFlow.simps)
  then show ?thesis
    using f1 by (intro exI [of _ reply]) (simp add: thread_eq msg_bytes_def aborted_state_def)
qed

lemma prepare_abort_session_witness:
  "\<exists>s' f'. EngineerIFAThread (Suc (Suc (Suc 0))) (demo_conn (demo_session ''TMAbort'')) 1 demo_rm
       = Inr (s', f')
     \<and> customer_record f' = [(0, 50), (1, 50)] \<and> \<not> is_initialized s'"
  using prepare_abort_session [OF rm_ready_demo fits_demo conn_ok_demo rx_demo_session, of 0 1]
  unfolding demo_rm_fields by blast

text \<open>
  Messages that are not commands: a connection whose first message is none of the six commands
  (for instance a transaction that follows no identification message) is closed, and nothing of the
  node changes.
\<close>

lemma unknown_message_ignored:
  assumes "conn_ok s" and "rx s = id_segment m x # r" and "short_msg m" and "m \<notin> set commands"
  shows "\<exists>s'. EngineerIFAThread (Suc d) s eng f = Inr (s', f) \<and> \<not> is_initialized s'
    \<and> sent s' = sent s"
proof -
  have "ReceiveIDMsgAndInitiateFlow (Suc d) eng s f = Inr (s\<lparr>rx := r\<rparr>, f)"
    by (rule dispatch_unknown [OF Id_segment [OF assms(1-3)] assms(4)])
  then show ?thesis
    using assms(1) by (simp add: thread_eq destroy_Socket_def conn_ok_def)
qed

section \<open>Reading clients\<close>

text \<open>The records that the read requests among \<open>orders\<close> ask for.\<close>

definition answers :: "LaptopFactory \<Rightarrow> CustomerOrder list \<Rightarrow> CustomerRecord list" where
  "answers f orders = map (\<lambda>c. lookup_record (co_customer_id c) f)
     (filter (\<lambda>c. co_request_type c = 2) orders)"

lemma ReadEngineerFlow_answers:
  assumes "conn_ok s" and "rx s = map (\<lambda>c. Segment (raw_order (host s) c)) orders"
    and "\<forall>c \<in> set orders. CustomerOrder_IsValid c"
  shows "\<exists>s'. ReadEngineerFlow f s = Close s'
    \<and> sent s' = sent s @ concat (map (raw_record (host s)) (answers f orders))"
  using assms
proof (induction orders arbitrary: s)
  case Nil
  then show ?case
    by (intro exI [of _ s])
      (simp add: ReadEngineerFlow.simps [of f s] ReceiveRequest_closed conn_ok_def
        new_CustomerOrder_def CustomerOrder_IsValid_def answers_def)
next
  case (Cons c orders)
  let ?r = "map (\<lambda>c. Segment (raw_order (host s) c)) orders"
  have recv: "ReceiveRequest s = (c, s\<lparr>rx := ?r\<rparr>)"
    using Cons.prems by (intro ReceiveRequest_segment) (simp_all add: conn_ok_def)
  show ?case
  proof (cases "co_request_type c = 2")
    case True
    let ?t = "s\<lparr>rx := ?r, sent := sent s @ raw_record (host s) (lookup_record (co_customer_id c) f)\<rparr>"
    have "snd (ReturnRecord (lookup_record (co_customer_id c) f) (s\<lparr>rx := ?r\<rparr>)) = ?t"
      using Cons.prems(1) by (simp add: ReturnRecord_def Send_once_idle conn_ok_def)
    then show ?thesis
      using Cons.IH [of ?t] Cons.prems True
      by (simp add: ReadEngineerFlow.simps [of f s] recv answers_def conn_ok_def)
  next
    case False
    then show ?thesis
      using Cons.IH [of "s\<lparr>rx := ?r\<rparr>"] Cons.prems
      by (simp add: ReadEngineerFlow.simps [of f s] recv answers_def)
  qed
qed

text \<open>
  A reading client: on a connection that identifies itself as \<^verbatim>\<open>CLIENT\<close> and sends valid requests,
  the node answers every read request, in order, with the record it holds (or the empty record -1, -1
  for a customer it does not know), ignores requests of other types, and changes nothing.
\<close>

lemma client_session:
  assumes "conn_ok s" and "rx s = id_segment ''CLIENT'' x
      # map (\<lambda>c. Segment (raw_order (host s) c)) orders"
    and "\<forall>c \<in> set orders. CustomerOrder_IsValid c"
  shows "\<exists>s'. EngineerIFAThread (Suc d) s eng f = Inr (s', f) \<and> \<not> is_initialized s'
    \<and> sent s' = sent s @ concat (map (raw_record (host s)) (answers f orders))"
proof -
  let ?t = "s\<lparr>rx := map (\<lambda>c. Segment (raw_order (host s) c)) orders\<rparr>"
  obtain s' where s': "ReadEngineerFlow f ?t = Close s'"
    "sent s' = sent ?t @ concat (map (raw_record (host ?t)) (answers f orders))"
    using ReadEngineerFlow_answers [of ?t orders f] assms(1,3) by auto
  have "ReceiveIDMsgAndInitiateFlow (Suc d) eng s f = Inr (Close s', f)"
    using Id_segment [OF assms(1,2)] s'(1) by simp
  then show ?thesis using s'(2) by (simp add: thread_eq)
qed

section \<open>Messages that are cut\<close>

lemma mem_bytes_zero: "mem_bytes e 0 = replicate 4 NUL"
proof -
  have "le_bytes k 0 = replicate k NUL" for k
    by (induction k) (simp_all add: char_of_def)
  then show ?thesis by (cases e) (simp_all add: mem_bytes.simps del: le_bytes.simps)
qed

lemma zero_order_bytes: "replicate 12 NUL = net_bytes 0 @ net_bytes 0 @ net_bytes 0"
  unfolding mem_bytes_zero by (simp flip: replicate_add)

lemma unmarshal_orders_zero:
  "unmarshal_orders e (Suc 0) (length pre) (pre @ replicate 12 NUL @ rest) []
     = Some ([\<lparr>co_customer_id = 0, co_order_number = 0, co_request_type = 0\<rparr>], length pre + 12)"
  unfolding zero_order_bytes
  by (simp add: read_net_prefix [OF refl] read_net_prefix0 [OF refl] read_net_skip read_net_at_0
      SetOrder_def)

text \<open>
  C36. The transaction is received with a single \<^verbatim>\<open>recv\<close>: when the network delivers it in two pieces,
  the rest is not waited for. A transaction with one write, cut after its header, is taken as one
  with a valid write of order 0 for customer 0 when the receiving block was zero, and the cut-off
  write stays in the stream, where the next read finds it.
\<close>

theorem cut_transaction_misread:
  assumes "conn_ok s" and "junk s = []" and "lengths_ok t" and "readRecords t = []"
    and "writeRecords t = [w]"
    and "rx s = Segment (take 12 (Transaction_Marshal e t))
          # Segment (drop 12 (Transaction_Marshal e t)) # r"
  shows "ReceiveTxnRequest s = Inr
    (t\<lparr>writeRecords := [\<lparr>co_customer_id = 0, co_order_number = 0, co_request_type = 0\<rparr>]\<rparr>,
     s\<lparr>rx := Segment (marshal_order e w) # r\<rparr>)"
proof -
  let ?hdr = "net_bytes (txn_id t) @ net_bytes (lenReadRecords t) @ net_bytes (lenWriteRecords t)"
  let ?z = "replicate 200000 NUL"
  have buf: "Transaction_Marshal e t = ?hdr @ marshal_order e w"
    by (simp add: Transaction_Marshal_def assms(4,5) mem_bytes_htonl)
  have n: "nat (sint (lenReadRecords t)) = 0" "nat (sint (lenWriteRecords t)) = Suc 0"
    using assms(3-5) by (simp_all add: lengths_ok_def)
  have ne: "?hdr \<noteq> []" by (metis append_is_Nil_conv length_mem_bytes list.size(3) zero_neq_numeral)
  have recv: "Recv_once 200000 s = (12, ?hdr, s\<lparr>rx := Segment (marshal_order e w) # r\<rparr>)"
    using Recv_once_segment [of s ?hdr "Segment (marshal_order e w) # r" 200000] assms(1,6) ne
    by (simp add: buf conn_ok_def)
  have mem: "overlay ?hdr (fresh 200000 s) = ?hdr @ replicate 12 NUL @ replicate 199976 NUL"
  proof -
    have "drop 12 ?z = replicate 199988 NUL" by (simp add: drop_replicate)
    also have "\<dots> = replicate 12 NUL @ replicate 199976 NUL" by (simp flip: replicate_add)
    finally show ?thesis
      using assms(2) by (simp add: overlay_def fresh_def)
  qed
  have ord: "unmarshal_orders (host s) (Suc 0) 12
      (?hdr @ replicate 12 NUL @ replicate 199976 NUL) []
      = Some ([\<lparr>co_customer_id = 0, co_order_number = 0, co_request_type = 0\<rparr>], 24)"
    using unmarshal_orders_zero [of "host s" ?hdr "replicate 199976 NUL"] by simp
  have hdr: "read_net (host s) 0 (?hdr @ b) = Some (txn_id t)"
    "read_net (host s) 4 (?hdr @ b) = Some (lenReadRecords t)"
    "read_net (host s) 8 (?hdr @ b) = Some (lenWriteRecords t)" for b
    by (simp_all add: codec_simps)
  have dec: "Transaction_Unmarshal (host s)
      (?hdr @ replicate 12 NUL @ replicate 199976 NUL)
      (new_Transaction (uninit_txn s) [] []) = Some (t\<lparr>writeRecords :=
        [\<lparr>co_customer_id = 0, co_order_number = 0, co_request_type = 0\<rparr>]\<rparr>)"
    unfolding Transaction_Unmarshal_def hdr option.case prod.case n
    by (simp only: unmarshal_records.simps new_Transaction_def Transaction.select_convs
        option.case prod.case ord) (simp add: assms(4))
  show ?thesis
    using assms(1) by (simp add: ReceiveTxnRequest_def recv Let_def mem conn_ok_def
        dec [unfolded append_assoc])
qed

definition cut_txn :: Transaction where
  "cut_txn = \<lparr>txn_id = 7, lenReadRecords = 0, lenWriteRecords = 1, readRecords = [],
     writeRecords = [\<lparr>co_customer_id = 3, co_order_number = 51, co_request_type = 1\<rparr>]\<rparr>"

lemma cut_transaction_misread_witness:
  "\<exists>t s'. ReceiveTxnRequest (demo_conn [Segment (take 12 (Transaction_Marshal LittleEndian cut_txn)),
       Segment (drop 12 (Transaction_Marshal LittleEndian cut_txn))]) = Inr (t, s')
     \<and> writeRecords t = [\<lparr>co_customer_id = 0, co_order_number = 0, co_request_type = 0\<rparr>]"
proof -
  have t: "lengths_ok cut_txn" "readRecords cut_txn = []"
    "writeRecords cut_txn = [\<lparr>co_customer_id = 3, co_order_number = 51, co_request_type = 1\<rparr>]"
    by (simp_all add: cut_txn_def lengths_ok_def)
  show ?thesis
    using cut_transaction_misread [OF conn_ok_demo(1) demo_conn_fields(7) t demo_conn_fields(3)]
    by simp
qed

end
