(* ===== verification/Failover.thy ===== *)
theory Failover
  imports Sessions
begin

text \<open>
  What a failure of a primary or a backup costs: the connection that replicates a prepare is not
  usable for the commit that follows it, a prepared transaction survives a crash of its node and can
  still be committed, and the records a backup has applied are not written to its file.
\<close>

section \<open>The first commit after a start\<close>

text \<open>
  A replication request that arrives where an identification message is expected: its first bytes
  are the factory id as it lies in memory, and no small factory id spells a command.
\<close>

lemma le_bytes_small: "n < 65536 \<Longrightarrow> \<exists>a b. le_bytes 4 n = [a, b, NUL, NUL]"
proof -
  assume n: "n < 65536"
  have four: "4 = Suc (Suc (Suc (Suc 0)))" by simp
  have z: "n div 256 div 256 = 0" using n by (simp flip: div_mult2_eq)
  have nul: "char_of (0 :: nat) = NUL" by (simp add: char_of_def)
  show ?thesis by (simp only: four le_bytes.simps z) (simp add: nul)
qed

lemma small_id_string:
  assumes "unat (w :: cint) < 65536"
  shows "length (c_string (mem_bytes e w @ rest)) \<le> 2"
proof -
  obtain a b where "le_bytes 4 (unat w) = [a, b, NUL, NUL]"
    using le_bytes_small [OF assms] by blast
  then show ?thesis by (cases e) (simp_all add: mem_bytes.simps c_string_def del: le_bytes.simps)
qed

lemma commands_long: "m \<in> set commands \<Longrightarrow> 2 < length m"
  by (auto simp: commands_def)

lemma dispatch_stray_request:
  assumes "conn_ok s" and "rx s = [Segment (raw_replication (host s) req)]"
    and "unat (rr_factory_id req) < 65536"
  shows "\<exists>s1. ReceiveIDMsgAndInitiateFlow (Suc d) eng s f = Inr (s1, f) \<and> sent s1 = sent s"
proof -
  let ?raw = "raw_replication (host s) req"
  let ?s1 = "s\<lparr>rx := [Segment (drop 10 ?raw)]\<rparr>"
  have "sys_recv 10 s = (10, take 10 ?raw, ?s1)"
    using assms(1,2) by (simp add: sys_recv_def conn_ok_def)
  then have "Recv 10 [] s = (1, take 10 ?raw, ?s1)"
    by (simp add: Recv.simps [of 10 "[]" s])
  then have id: "IdentificationMsg s = (read_string (take 10 ?raw) ?s1, ?s1)"
    by (simp add: IdentificationMsg_def overlay_full)
  have "take 10 ?raw = mem_bytes (host s) (rr_factory_id req)
      @ take 6 (drop 4 ?raw)"
    by (simp add: raw_replication_def)
  then have "length (read_string (take 10 ?raw) ?s1) \<le> 2"
    using small_id_string [OF assms(3)] by (simp add: read_string_def)
  then have "read_string (take 10 ?raw) ?s1 \<notin> set commands"
    using commands_long by fastforce
  then show ?thesis
    using dispatch_unknown [OF id] by (intro exI [of _ ?s1]) (auto simp del: ReceiveIDMsgAndInitiateFlow.simps)
qed

text \<open>The primary's side: one peer, whose connection the prepare step opens.\<close>

definition opens_once :: "ServerStub \<Rightarrow> ClientStub \<Rightarrow> bool" where
  "opens_once x n \<longleftrightarrow> \<not> is_initialized n \<and> mem_ok n
     \<and> (\<exists>d. dials n = Established [id_segment ''Ok'' x] [] # d)"

text \<open>The stub after the prepare has been replicated over its fresh connection.\<close>

lemma copy_to_peer_opens:
  assumes "fits txn" and "peer_in_bounds i s" and "opens_once x (peerNodes s ! i)"
  shows "\<exists>n. copy_to_peer txn i s = Inr (set_node i n (set_live i True s))
    \<and> is_initialized n \<and> tx n = [] \<and> rx n = [] \<and> host n = host (peerNodes s ! i)
    \<and> sent n = msg_bytes 10 ''PrPrepare'' (peerNodes s ! i)
        @ Transaction_Marshal (host (peerNodes s ! i)) txn"
proof -
  let ?n = "peerNodes s ! i"
  obtain d where n: "\<not> is_initialized ?n" "mem_ok ?n" "dials ?n = Established [id_segment ''Ok'' x] [] # d"
    using assms(3) by (auto simp: opens_once_def)
  let ?n1 = "?n\<lparr>is_initialized := True, rx := [id_segment ''Ok'' x], tx := [], sent := [], dials := d,
      target := (peer_ip (peers s ! i), peer_port (peers s ! i))\<rparr>"
  have init: "ClientStub_Init (peer_ip (peers s ! i)) (peer_port (peers s ! i)) ?n = (1, ?n1)"
    using n by (simp add: ClientStub_Init_def ClientSocket_Init_def)
  let ?n2 = "?n1\<lparr>sent := msg_bytes 10 ''PrPrepare'' ?n1\<rparr>"
  have id: "SendIDMsg ''PrPrepare'' ?n1 = (1, ?n2)"
    by (simp add: SendIDMsg_idle)
  have same: "msg_bytes 10 ''PrPrepare'' ?n1 = msg_bytes 10 ''PrPrepare'' ?n"
    by (simp add: msg_bytes_def fresh_def)
  let ?n3 = "?n2\<lparr>rx := [], sent := sent ?n2 @ Transaction_Marshal (host ?n2) txn\<rparr>"
  have txn: "SendTxnPrepareRequest txn ?n2 = Inr (''Ok'', ?n3)"
    using assms(1) n(2)
    by (intro SendTxnPrepareRequest_segment [where s' = x]) (simp_all add: id_segment_def)
  have "copy_to_peer txn i s = Inr (set_node i ?n3 (set_live i True s))"
    unfolding copy_to_peer_def init id prod.case txn using assms(2) by simp
  then show ?thesis
    using same by (intro exI [of _ ?n3]) simp
qed

text \<open>
  A new primary whose only peer is on such a connection: \<^verbatim>\<open>Init\<close> says 0 for a connected stub, so no
  \<^verbatim>\<open>PFA\<close> goes out, and the replication request goes down the connection of the prepare.
\<close>

definition stray_round :: "MapOp \<Rightarrow> LaptopFactory \<Rightarrow> LaptopFactory" where
  "stray_round p1 s = (let n = peerNodes s ! 0 in
     set_live 0 False (set_node 0
       (Close (n\<lparr>sent := sent n @ raw_replication (host n) (live_request p1 s)\<rparr>))
       (apply_locally p1 (s\<lparr>primary_id := factory_id s\<rparr>))))"

lemma set_node_same: "i < length (peerNodes s) \<Longrightarrow> set_node i (peerNodes s ! i) s = s"
  by (simp add: set_node_def)

lemma AdminThread_round_stray:
  assumes "peer_in_bounds 0 s" and "peer_count s = 1" and "primary_id s \<noteq> factory_id s"
    and "nothing_pending s" and "livePeers s ! 0" and "is_initialized (peerNodes s ! 0)"
    and "tx (peerNodes s ! 0) = []" and "rx (peerNodes s ! 0) = []"
  shows "AdminThread_round aid req s =
    Inr (SetAdminId aid (ar_laptop req), stray_round (request_op req) s)"
proof -
  let ?n = "peerNodes s ! 0"
  let ?s = "s\<lparr>primary_id := factory_id s\<rparr>"
  let ?a = "apply_locally (request_op req) ?s"
  have range: "peer_range t = [0]" if "peer_count t = 1" for t
    using that by (simp add: peer_range_def)
  have bounds: "peer_in_bounds 0 ?s" "peer_in_bounds 0 ?a" "0 < length (peerNodes ?s)"
    using assms(1) by (simp_all add: peer_in_bounds_def)
  have "connect_peer 0 ?s = Inr ?s"
    using bounds assms(6) set_node_same [OF bounds(3)]
    by (simp add: connect_peer_def ClientStub_Init_def ClientSocket_Init_def)
  moreover have "catch_up ?s = Inr ?s"
    using assms(4) by (simp add: catch_up.simps [of ?s] nothing_pending_def)
  ultimately have primary: "become_primary s = Inr ?s"
    using assms(2,3) by (simp add: become_primary_def range)
  have "replicate_to (request_op req) 0 ?a = Inr (stray_round (request_op req) s)"
    using bounds assms(5-8) SendReplicationReq_eof [of ?n "live_request (request_op req) s"]
    by (simp add: replicate_to_def stray_round_def live_request_def Let_def)
  then show ?thesis
    using assms(2) by (simp add: AdminThread_round_def primary range)
qed

lemma CreateRegularLaptop_stray:
  assumes "peer_in_bounds 0 s" and "peer_count s = 1" and "primary_id s \<noteq> factory_id s"
    and "nothing_pending s" and "livePeers s ! 0" and "is_initialized (peerNodes s ! 0)"
    and "tx (peerNodes s ! 0) = []" and "rx (peerNodes s ! 0) = []" and "arq s = []"
  shows "CreateRegularLaptop order eng s =
    Inr (laptop_for order eng (admin_id s), stray_round (order_op order) s)"
proof -
  have same: "s\<lparr>arq := []\<rparr> = s" using assms(9) by (cases s) simp
  show ?thesis
    using AdminThread_round_stray [OF assms(1-8)]
    by (simp add: CreateRegularLaptop_def admin_serve.simps AdminThread_step_def assms(9) same
        laptop_for_def order_op_def request_op_def)
qed

lemma stray_round_fields [simp]:
  "files (stray_round p1 s) = files s"
  "customer_record (stray_round p1 s) = map_assign (arg1 p1) (arg2 p1) (customer_record s)"
  by (simp_all add: stray_round_def Let_def set_node_def set_live_def)

lemma stray_round_net:
  "peer_in_bounds 0 s \<Longrightarrow> \<not> livePeers (stray_round p1 s) ! 0"
  "peer_in_bounds 0 s \<Longrightarrow> sent (peerNodes (stray_round p1 s) ! 0) = sent (peerNodes s ! 0)
     @ raw_replication (host (peerNodes s ! 0)) (live_request p1 s)"
  by (simp_all add: stray_round_def Let_def set_node_def set_live_def peer_in_bounds_def)

lemma commit_one_stray:
  assumes "peer_in_bounds 0 s" and "peer_count s = 1" and "primary_id s \<noteq> factory_id s"
    and "nothing_pending s" and "livePeers s ! 0" and "is_initialized (peerNodes s ! 0)"
    and "tx (peerNodes s ! 0) = []" and "rx (peerNodes s ! 0) = []" and "arq s = []"
    and "disk_writable (files s)" and "logged t s = [r]"
  shows "\<exists>nl d. commit_txn t eng s = Inr ((stray_round (rec_op r) s)\<lparr>txn_log := nl, files := d\<rparr>)"
proof -
  have recs: "map_find t (txn_log s) = Some [r]"
    using assms(11) by (auto simp: logged_def split: option.splits)
  have step: "CreateRegularLaptop (SetOrder (tl_customer_id r) (tl_last_order_num r) c o') eng s =
      Inr (laptop_for (SetOrder (tl_customer_id r) (tl_last_order_num r) c o') eng (admin_id s),
        stray_round (rec_op r) s)" for c o'
    using CreateRegularLaptop_stray [OF assms(1-9)] order_op_rec by metis
  show ?thesis
    using assms(10)
    by (simp add: commit_txn_def recs step Let_def store_txn_log_record_eq store_cust_record_txn_eq
        disk_writable_def) blast
qed

lemma prepare_one_peer:
  assumes "rm_ready p" and "peer_count p = 1" and "opens_once x (peerNodes p ! 0)" and "fits txn"
    and "reads_consistent (readRecords txn) (customer_record p)"
  shows "\<exists>n. prepare_txn txn p = Inr (''Ok'', set_node 0 n (set_live 0 True (prepared_state txn p)))
    \<and> is_initialized n \<and> tx n = [] \<and> rx n = [] \<and> host n = host (peerNodes p ! 0)
    \<and> sent n = msg_bytes 10 ''PrPrepare'' (peerNodes p ! 0)
        @ Transaction_Marshal (host (peerNodes p ! 0)) txn"
proof -
  let ?s = "prepared_state txn p"
  have nodes: "peerNodes ?s = peerNodes p" "peer_count ?s = 1"
    using assms(2) by (simp_all add: prepared_state_def)
  have range: "peer_range ?s = [0]" by (simp add: peer_range_def nodes)
  have "peer_in_bounds 0 ?s"
    using assms(1) range peers_ok_in_bounds [of ?s 0] by (simp add: rm_ready_def rm_ok_def)
  then obtain n where "copy_to_peer txn 0 ?s = Inr (set_node 0 n (set_live 0 True ?s))"
    "is_initialized n" "tx n = []" "rx n = []" "host n = host (peerNodes p ! 0)"
    "sent n = msg_bytes 10 ''PrPrepare'' (peerNodes p ! 0)
        @ Transaction_Marshal (host (peerNodes p ! 0)) txn"
    using copy_to_peer_opens [OF assms(4), of 0 ?s x] assms(3) nodes by auto
  then show ?thesis
    using assms(1,5)
    by (intro exI [of _ n])
      (simp add: prepare_txn_def store_txn_log_eq rm_ready_def CopyTranlogReplica_def range)
qed

lemma only_net_local: "only_net s (set_node i n (set_live j v s))"
  by simp

lemma stray_request_at_backup:
  assumes "conn_ok c" and "rx c = [id_segment ''PrPrepare'' x, Segment (Transaction_Marshal e txn),
      Segment (raw_replication (host c) req)]"
    and "fits txn" and "disk_writable (files b)" and "unat (rr_factory_id req) < 65536"
  shows "\<exists>c' b'. EngineerIFAThread (Suc (Suc d)) c eng b = Inr (c', b')
    \<and> customer_record b' = customer_record b \<and> smr_log b' = smr_log b
    \<and> txn_log b' = map_insert (txn_id txn) (prepare_records txn) (txn_log b)"
proof -
  let ?c1 = "replied [Segment (raw_replication (host c) req)] ''Ok'' c"
  obtain c2 where "ReceiveIDMsgAndInitiateFlow (Suc d) eng ?c1 (prepared_state txn b)
      = Inr (c2, prepared_state txn b)"
    using dispatch_stray_request [of ?c1 req d eng "prepared_state txn b"] assms(1,5) by auto
  then have "ReceiveIDMsgAndInitiateFlow (Suc (Suc d)) eng c b = Inr (c2, prepared_state txn b)"
    using dispatch_peer_prepare [OF assms(1,2,3) store_txn_log_eq [OF assms(4)]] by simp
  then show ?thesis
    by (simp add: thread_eq) (simp add: prepared_state_def)
qed

text \<open>
  C31. The first commit after a start is not replicated, when the transaction has exactly one write and the primary
  exactly one peer. A primary that has not sent anything yet opens its connection to the peer for the prepare; the
  commit's only replication request then goes down that connection, where the peer waits for an identification
  message: the primary commits and marks the peer as failed, and the peer keeps the prepared transaction in its
  log but applies nothing. (With a second write the next round finds the peer marked as failed and reconnects.)
\<close>

theorem first_commit_not_replicated:
  assumes "rm_ready p" and "nothing_pending p" and "primary_id p \<noteq> factory_id p"
    and "peer_count p = 1" and "opens_once x (peerNodes p ! 0)" and "fits txn"
    and "reads_consistent (readRecords txn) (customer_record p)"
    and "map_find (txn_id txn) (txn_log p) = None" and "writeRecords txn = [w]"
    and "CustomerOrder_IsValid w" and "unat (factory_id p) < 65536" and "disk_writable (files b)"
  shows "\<exists>s1 s2 req. prepare_txn txn p = Inr (''Ok'', s1) \<and> commit_txn (txn_id txn) eng s1 = Inr s2
    \<and> customer_record s2 = map_assign (co_customer_id w) (co_order_number w) (customer_record p)
    \<and> \<not> livePeers s2 ! 0
    \<and> sent (peerNodes s2 ! 0) = msg_bytes 10 ''PrPrepare'' (peerNodes p ! 0)
        @ Transaction_Marshal (host (peerNodes p ! 0)) txn
        @ raw_replication (host (peerNodes p ! 0)) req
    \<and> (\<forall>c. conn_ok c \<and> rx c = [id_segment ''PrPrepare'' (peerNodes p ! 0),
            Segment (Transaction_Marshal (host (peerNodes p ! 0)) txn),
            Segment (raw_replication (host c) req)] \<longrightarrow>
        (\<exists>c' b'. EngineerIFAThread (Suc (Suc d)) c eng' b = Inr (c', b')
          \<and> customer_record b' = customer_record b \<and> smr_log b' = smr_log b
          \<and> txn_log b' = map_insert (txn_id txn) (prepare_records txn) (txn_log b)))"
proof -
  obtain n where n: "prepare_txn txn p = Inr (''Ok'', set_node 0 n (set_live 0 True (prepared_state txn p)))"
    "is_initialized n" "tx n = []" "rx n = []" "host n = host (peerNodes p ! 0)"
    "sent n = msg_bytes 10 ''PrPrepare'' (peerNodes p ! 0)
        @ Transaction_Marshal (host (peerNodes p ! 0)) txn"
    using prepare_one_peer [OF assms(1,4-7)] by blast
  let ?s1 = "set_node 0 n (set_live 0 True (prepared_state txn p))"
  let ?r = "mk_TxnLogRequest (txn_id txn) 1 (co_customer_id w) (co_order_number w) (co_request_type w)"
  have net: "only_net (prepared_state txn p) ?s1" by simp
  have log: "logged (txn_id txn) ?s1 = [?r]"
    using logged_prepared [of p "txn_id txn" txn] assms(1,8-10) logged_only_net [OF net]
    by (simp add: rm_ready_def rm_ok_def prepare_records_def)
  have bounds: "peer_in_bounds 0 ?s1"
    using assms(1,4) by (simp add: rm_ready_def rm_ok_def peers_ok_def peer_in_bounds_def
        set_node_def set_live_def prepared_state_def Suc_le_eq)
  then have at: "peerNodes ?s1 ! 0 = n" "livePeers ?s1 ! 0"
    by (simp_all add: set_node_def set_live_def peer_in_bounds_def)
  have s1: "peer_count ?s1 = 1" "primary_id ?s1 \<noteq> factory_id ?s1" "nothing_pending ?s1"
    "arq ?s1 = []" "disk_writable (files ?s1)" "customer_record ?s1 = customer_record p"
    "factory_id ?s1 = factory_id p"
    using assms(1-4) by (simp_all add: rm_ready_def set_node_def set_live_def prepared_state_def
        nothing_pending_def disk_writable_def)
  obtain nl dk where s2: "commit_txn (txn_id txn) eng ?s1 =
      Inr ((stray_round (rec_op ?r) ?s1)\<lparr>txn_log := nl, files := dk\<rparr>)"
    using commit_one_stray [OF bounds s1(1-3) at(2)] n(2-4) s1(4,5) log at(1) by fastforce
  let ?req = "live_request (rec_op ?r) ?s1"
  have backup: "\<exists>c' b'. EngineerIFAThread (Suc (Suc d)) c eng' b = Inr (c', b')
      \<and> customer_record b' = customer_record b \<and> smr_log b' = smr_log b
      \<and> txn_log b' = map_insert (txn_id txn) (prepare_records txn) (txn_log b)"
    if c: "conn_ok c" "rx c = [id_segment ''PrPrepare'' (peerNodes p ! 0),
        Segment (Transaction_Marshal (host (peerNodes p ! 0)) txn),
        Segment (raw_replication (host c) ?req)]" for c
    using stray_request_at_backup [OF c assms(6,12)] assms(11) s1(7) by (simp add: live_request_def)
  have op1: "arg1 (rec_op ?r) = co_customer_id w" "arg2 (rec_op ?r) = co_order_number w"
    by (simp_all add: rec_op_def mk_TxnLogRequest_def)
  show ?thesis
    using n(1,5,6) s2 backup stray_round_net [OF bounds, of "rec_op ?r"] s1(6) at(1)
    by (intro exI [of _ ?s1] exI [of _ "(stray_round (rec_op ?r) ?s1)\<lparr>txn_log := nl, files := dk\<rparr>"]
        exI [of _ ?req]) (simp add: op1)
qed

definition new_primary :: LaptopFactory where
  "new_primary = demo_rm\<lparr>peer_count := 1, livePeers := [False],
     peers := [\<lparr>peer_id = 1, peer_ip = ''backup'', peer_port = 5000, peer_backup_ip = [],
                peer_backup_port = 0\<rparr>],
     peerNodes := [new_ClientSocket LittleEndian True []
       [Established [id_segment ''Ok'' (demo_conn [])] []]]\<rparr>"

lemma new_primary_facts [simp]:
  "rm_ready new_primary" "nothing_pending new_primary"
  "primary_id new_primary \<noteq> factory_id new_primary" "peer_count new_primary = 1"
  "opens_once (demo_conn []) (peerNodes new_primary ! 0)"
  "customer_record new_primary = [(0, 50), (1, 50)]" "txn_log new_primary = []"
  "unat (factory_id new_primary) < 65536"
  by (simp_all add: new_primary_def rm_ready_def rm_ok_def peers_ok_def indices_ok_def
      nothing_pending_def demo_files_def disk_writable_def opens_once_def map_ok_def new_ClientSocket_def
      new_Socket_def Socket.extend_def ClientSocket.fields_def)

lemma disk_writable_demo: "disk_writable (files demo_rm)"
  by (simp add: demo_files_def disk_writable_def)

lemma first_commit_not_replicated_witness:
  "\<exists>s1 s2. prepare_txn (demo_txn 7 0) new_primary = Inr (''Ok'', s1) \<and> commit_txn 7 1 s1 = Inr s2
     \<and> customer_record s2 = [(0, 51), (1, 50)] \<and> \<not> livePeers s2 ! 0"
proof -
  let ?w = "\<lparr>co_customer_id = 0, co_order_number = 51, co_request_type = 1 :: cint\<rparr>"
  have hyps: "reads_consistent (readRecords (demo_txn 7 0)) (customer_record new_primary)"
    "map_find (txn_id (demo_txn 7 0)) (txn_log new_primary) = None"
    "writeRecords (demo_txn 7 0) = [?w]" "CustomerOrder_IsValid ?w"
    by (simp_all add: CustomerOrder_IsValid_def)
  have "map_assign (co_customer_id ?w) (co_order_number ?w) (customer_record new_primary)
      = [(0, 51), (1, 50)]"
    by simp
  then show ?thesis
    using first_commit_not_replicated [OF new_primary_facts(1-5) fits_demo hyps
        new_primary_facts(8) disk_writable_demo, of 1 0 1]
    unfolding demo_txn_fields(1) by metis
qed

section \<open>Crash between prepare and commit\<close>

lemma logged_subset_restart:
  assumes "node_inv s"
  shows "set (logged t s) \<subseteq> set (logged t (restart stub s))"
proof -
  obtain L where "log_on_disk L s" using assms by (auto simp: node_inv_def)
  then show ?thesis using logged_recovered [of s L t stub] by (auto simp: log_on_disk_def)
qed

text \<open>An id under which the log holds no record: the prepare adds none, and the commit applies none.\<close>

lemma commit_of_nothing:
  assumes "rm_ready s" and "nothing_pending s" and "log_room 0 s"
    and "map_find (txn_id txn) (txn_log s) = Some []" and s1: "only_net (prepared_state txn s) s1"
  shows "\<exists>s3. commit_txn (txn_id txn) eng s1 = Inr s3 \<and> customer_record s3 = customer_record s"
proof -
  have ready: "rm_ready s1" "nothing_pending s1"
    using assms(1,2) rm_ready_prepared only_net_rm_ready [OF s1] nothing_pending_only_net [OF s1] by simp_all
  have log: "logged (txn_id txn) s1 = []"
    using logged_prepared [of s "txn_id txn" txn] assms(1,4) logged_only_net [OF s1]
    by (simp add: rm_ready_def rm_ok_def) (simp add: logged_def)
  have "log_room 0 s1" using assms(3) by (simp add: log_room_only_net [OF s1])
  then obtain s3 where s3: "commit_txn (txn_id txn) eng s1 = Inr s3" "only_net (committed_state (txn_id txn) [] s1) s3"
    using commit_txn_eq [of s1 "txn_id txn" eng] ready(1) log by (auto simp: rm_ready_def)
  then show ?thesis
    using committed_customer_record [OF ready(2), of "txn_id txn" "[]"]
    by (simp add: only_net_fields [OF s3(2)] imap.write_all_def only_net_prepared_fields [OF s1])
qed

text \<open>
  C15. A prepared transaction survives the crash of its node: if a node that has served transactions, and
  no replication as a backup, votes \<^verbatim>\<open>Ok\<close> on a transaction id under which its log file holds no record, crashes
  after the vote and is restarted, the commit after the restart succeeds and brings
  the transaction's valid writes into the customer records and the customer file. On a node with nothing to catch
  up on and room in its operation log, to which the id was new, the commit without the crash has the same effect on both; but if the id was
  known already, with no record under it (prepared before with no valid write), the commit without the crash
  applies nothing.
\<close>

theorem commit_after_crash:
  assumes "rm_reachable False s" and "fits txn" and "prepare_txn txn s = Inr (''Ok'', s1)"
    and "logged (txn_id txn) (restart stub s) = []"
  shows "\<exists>s2. commit_txn (txn_id txn) eng (restart stub s1) = Inr s2
    \<and> customer_record s2 = imap.write_all
        (map order_write (takeWhile CustomerOrder_IsValid (writeRecords txn))) (customer_record s)
    \<and> custRecFile (files s2) = Some (cust_text (customer_record s2))
    \<and> (nothing_pending s \<and> log_room (length (writeRecords txn)) s \<longrightarrow>
         (\<exists>s3. commit_txn (txn_id txn) eng s1 = Inr s3
           \<and> (if map_find (txn_id txn) (txn_log s) = None
              then customer_record s3 = customer_record s2 \<and> custRecFile (files s3) = custRecFile (files s2)
              else customer_record s3 = customer_record s)))"
proof -
  let ?t = "txn_id txn"
  have inv: "node_inv s" "rm_ready s" using reachable_node_inv [OF assms(1)] by (auto simp: node_inv_def)
  have net: "only_net (prepared_state txn s) s1"
    using prepare_txn_cases [OF inv(2) assms(2,3)] by auto
  have reach: "rm_reachable False s1"
    by (rule rm_reachable.step [OF assms(1) rm_step.prepare [OF assms(2,3)]])
  let ?r = "restart stub s1"
  have ready: "rm_ready ?r"
    using node_inv_restart [OF reachable_node_inv [OF reach], of stub] by (simp add: node_inv_def)
  have rec: "customer_record ?r = customer_record s"
    using synced_restart(1) [OF reachable_node_inv [OF reach] reachable_synced [OF reach]]
      only_net_prepared_fields [OF net] by simp
  obtain L where L: "log_on_disk L s" using inv(1) by (auto simp: node_inv_def)
  then have old: "filter (\<lambda>r. tl_txn_id r = ?t) L = []"
    using logged_recovered [of s L ?t stub] assms(4) by (simp add: log_on_disk_def)
  have "log_content (files s1) = log_text (L @ prepare_records txn)"
    using L by (simp add: only_net_fields [OF net])
      (simp add: log_on_disk_def prepared_state_def log_content_def log_text_append)
  from logged_recovered [OF this, of ?t stub] have log: "logged ?t ?r = prepare_records txn"
    using old prepare_records_id [of _ txn] by (simp add: filter_id_conv)
  have small: "length (prepare_records txn) < 2 ^ 31"
  proof -
    have "length (prepare_records txn) \<le> length (writeRecords txn)"
      by (simp add: prepare_records_def length_takeWhile_le)
    also have "\<dots> < 2 ^ 31" using assms(2) by (simp add: fits_def)
    finally show ?thesis .
  qed
  obtain s2 where s2: "commit_txn ?t eng ?r = Inr s2" "only_net (committed_state ?t (logged ?t ?r) ?r) s2"
    using commit_txn_eq [of ?r ?t eng] ready small by (auto simp: rm_ready_def log log_room_def)
  have rec2: "customer_record s2 = imap.write_all
      (map order_write (takeWhile CustomerOrder_IsValid (writeRecords txn))) (customer_record s)"
    using committed_customer_record [OF nothing_pending_restart, of ?t _ stub s1] rec
    by (simp add: only_net_fields [OF s2(2)] log rec_write_prepare_records del: restart_fields)
  have file2: "custRecFile (files s2) = Some (cust_text (customer_record s2))"
    by (simp add: only_net_fields [OF s2(2)] files_committed)
  consider (new) "map_find ?t (txn_log s) = None" | (empty) "map_find ?t (txn_log s) = Some []"
    using assms(4) logged_subset_restart [OF inv(1), of ?t stub]
    by (cases "map_find ?t (txn_log s)") (auto simp: logged_def split: option.splits)
  then have "\<exists>s3. commit_txn ?t eng s1 = Inr s3
      \<and> (if map_find ?t (txn_log s) = None
         then customer_record s3 = customer_record s2 \<and> custRecFile (files s3) = custRecFile (files s2)
         else customer_record s3 = customer_record s)"
    if "nothing_pending s" "log_room (length (writeRecords txn)) s"
  proof cases
    case new
    then show ?thesis
      using prepared_commit [OF inv(2) that new net, of eng] rec2 file2 by auto
  next
    case empty
    have "log_room 0 s" using that(2) by (simp add: log_room_def)
    then show ?thesis using commit_of_nothing [OF inv(2) that(1) _ empty net, of eng] empty by simp
  qed
  then show ?thesis using s2(1) rec2 file2 by blast
qed

lemma commit_after_crash_witness:
  "\<exists>s1 s2 s3. prepare_txn (demo_txn 7 0) fresh_rm = Inr (''Ok'', s1)
     \<and> commit_txn 7 1 (restart no_stub s1) = Inr s2 \<and> customer_record s2 = [(0, 51)]
     \<and> commit_txn 7 1 s1 = Inr s3 \<and> customer_record s3 = [(0, 51)]"
proof -
  obtain s1 where s1: "prepare_txn (demo_txn 7 0) fresh_rm = Inr (''Ok'', s1)"
    using prepare_txn_ok [of fresh_rm "demo_txn 7 0"] rm_readyD [OF rm_ready_fresh] by auto
  have "logged 7 (restart no_stub fresh_rm) = []"
    using logged_recovered [of fresh_rm "[]" 7 no_stub] by (simp add: log_content_def empty_disk_def)
  then show ?thesis
    using commit_after_crash [OF reachable_fresh_rm fits_demo s1, of no_stub 1] s1
    by (auto simp: imap.write_all_def order_write_def CustomerOrder_IsValid_def)
qed

section \<open>What a backup keeps\<close>

lemma IFAFlow_files:
  "IFAFlow stub s = Inr (stub', s') \<Longrightarrow> files s' = files s \<and> factory_id s' = factory_id s
     \<and> peers s' = peers s \<and> peer_count s' = peer_count s"
proof (induction stub s rule: IFAFlow.induct)
  case (1 stub s)
  obtain req stub1 where recv: "ReceiveReplicationReq stub = (req, stub1)" by force
  show ?case
  proof (cases "rr_factory_id req = -1")
    case True
    then show ?thesis using "1.prems" by (auto simp: IFAFlow.simps [of stub s] recv)
  next
    case False
    then obtain s1 where s1: "IFA_apply req s = Inr s1"
      "IFAFlow (snd (SendResponseReplicationReq ''DONE'' stub1)) s1 = Inr (stub', s')"
      using "1.prems" by (auto simp: IFAFlow.simps [of stub s] recv)
    then show ?thesis
      using "1.IH" [OF recv [symmetric] False, of s1] IFA_apply_fields [OF s1(1)] by simp
  qed
qed

text \<open>
  C32. A backup does not write replicated records to its file: whatever a backup applied in a
  replication session (\<^verbatim>\<open>IFAFlow\<close>), a crash and restart brings back the records and the transaction
  log its files held before the session.
\<close>

theorem backup_restart_forgets:
  assumes "IFAFlow stub s = Inr (stub', s')"
  shows "customer_record (restart st s') = customer_record (restart st s)
    \<and> txn_log (restart st s') = txn_log (restart st s)"
  using IFAFlow_files [OF assms] by simp

lemma backup_restart_forgets_witness:
  "\<exists>c stub' s'. IFAFlow c demo_rm = Inr (stub', s') \<and> customer_record s' = [(0, 51), (1, 50)]
     \<and> customer_record (restart no_stub s') = [(0, 50), (1, 50)]"
proof -
  let ?op = "\<lparr>opcode = 1, arg1 = 0, arg2 = 51 :: cint\<rparr>"
  let ?c = "demo_conn (map (\<lambda>r. Segment (raw_replication LittleEndian r))
      (live.requests [?op] demo_primary))"
  obtain stub' b' where b': "IFAFlow ?c demo_rm = Inr (stub', b'\<lparr>primary_id := -1\<rparr>)"
    "in_step (fold apply_locally [?op] demo_primary) b'"
    using backup_follows [of demo_primary demo_rm "[?op]" ?c] by auto
  have "customer_record (restart no_stub demo_rm) = [(0, 50), (1, 50)]"
    by (simp add: recovered_records demo_files_def)
  then show ?thesis
    using backup_restart_forgets [OF b'(1), of no_stub] b'
    by (intro exI [of _ ?c] exI [of _ stub'] exI [of _ "b'\<lparr>primary_id := -1\<rparr>"])
      (simp add: in_step_def)
qed

end
