(* ===== verification/TransactionManager.thy ===== *)
theory TransactionManager
  imports Failover
begin

text \<open>
  \<^verbatim>\<open>TransactionManager.cpp\<close>: one run of \<^verbatim>\<open>transaction_manager\<close> for an accepted client connection
  (connect to every resource manager, prepare, decide, reply) and \<^verbatim>\<open>main\<close> with its argument list and
  accept loop. \<open>stub i\<close> is the i-th \<^verbatim>\<open>ClientStub()\<close> the run constructs, with its script. The lemmas
  give the exact messages each resource manager is sent and the reply to the client, and the
  properties relate them to the votes.
\<close>

section \<open>One transaction\<close>

text \<open>Connect to the primary of a cluster, or else to its backup.\<close>

definition connect_rm :: "peer_servers_info \<Rightarrow> ClientStub \<Rightarrow> bool \<times> ClientStub" where
  "connect_rm rm n =
     (case ClientStub_Init (peer_ip rm) (peer_port rm) n of (r1, n1) \<Rightarrow>
        if r1 = 0 then
          (case ClientStub_Init (peer_backup_ip rm) (peer_backup_port rm) n1 of (r2, n2) \<Rightarrow>
             (r2 \<noteq> 0, n2))
        else (True, n1))"

fun connect_loop ::
  "peer_servers_info list \<Rightarrow> (nat \<Rightarrow> ClientStub) \<Rightarrow> nat list \<Rightarrow> ClientStub list \<Rightarrow>
   crash + bool \<times> ClientStub list" where
  "connect_loop rms stub [] rmNodes = Inr (True, rmNodes)"
| "connect_loop rms stub (i # is) rmNodes =
     (if length rms \<le> i \<or> length rmNodes \<le> i then Inl Undefined
      else case connect_rm (rms ! i) (stub i) of (ok, n) \<Rightarrow>
        if ok then connect_loop rms stub is (rmNodes[i := n])
        else Inr (False, rmNodes[i := n]))"

text \<open>Send the prepare to one after the other; a \<^verbatim>\<open>No\<close> ends the loop.\<close>

fun prepare_loop ::
  "Transaction \<Rightarrow> nat list \<Rightarrow> ClientStub list \<Rightarrow> crash + bool \<times> ClientStub list" where
  "prepare_loop txn [] rmNodes = Inr (True, rmNodes)"
| "prepare_loop txn (i # is) rmNodes =
     (if length rmNodes \<le> i then Inl Undefined
      else bindE (SendTxnPrepareRequest txn (snd (SendIDMsg ''TMPrepare'' (rmNodes ! i))))
        (\<lambda>(response, n).
           if response = ''No'' then Inr (False, rmNodes[i := n])
           else prepare_loop txn is (rmNodes[i := n])))"

text \<open>Send the decision to every resource manager, whether it has been asked or not.\<close>

fun decide_loop :: "bool \<Rightarrow> cint \<Rightarrow> nat list \<Rightarrow> ClientStub list \<Rightarrow> crash + ClientStub list" where
  "decide_loop allOk t [] rmNodes = Inr rmNodes"
| "decide_loop allOk t (i # is) rmNodes =
     (if length rmNodes \<le> i then Inl Undefined
      else bindE (SendTxnId t (snd (SendIDMsg (if allOk then ''TMCommit'' else ''TMAbort'') (rmNodes ! i))))
        (\<lambda>(response, n). decide_loop allOk t is (rmNodes[i := n])))"

text \<open>
  The result: the stub of the client connection, the stubs of the resource managers, and the next
  transaction id.
\<close>

definition transaction_manager ::
  "ServerStub \<Rightarrow> cint \<Rightarrow> peer_servers_info list \<Rightarrow> (nat \<Rightarrow> ClientStub) \<Rightarrow> ClientStub list \<Rightarrow> cint \<Rightarrow>
   crash + ServerStub \<times> ClientStub list \<times> cint" where
  "transaction_manager client rms_count rms stub rmNodes transaction_id =
     bindE (ReceiveTxnRequest client) (\<lambda>(req, client1).
       let txn = setTxnId transaction_id req;
           range = [0 ..< nat (sint rms_count)]
       in bindE (connect_loop rms stub range rmNodes) (\<lambda>(connected, nodes1).
            if \<not> connected then
              Inr (snd (SendResponseReplicationReq ''Failed'' client1), nodes1, transaction_id + 1)
            else bindE (prepare_loop txn range nodes1) (\<lambda>(allOk, nodes2).
              bindE (decide_loop allOk (txn_id txn) range nodes2) (\<lambda>nodes3.
                Inr (snd (SendResponseReplicationReq (if allOk then ''Success'' else ''Failed'') client1),
                     nodes3, transaction_id + 1)))))"

section \<open>Arguments and accept loop\<close>

text \<open>\<^verbatim>\<open>atoi\<close>: white space, a sign, digits; 0 without digits. Overflow is undefined behaviour.\<close>

definition atoi :: "string \<Rightarrow> crash + cint" where
  "atoi s =
     (let (neg, s') = read_sign (dropWhile is_space s);
          n = int (read_nat (takeWhile is_digit s'));
          v = (if neg then - n else n)
      in if in_int_range v then Inr (word_of_int v) else Inl Undefined)"

text \<open>\<^verbatim>\<open>argv[i]\<close>: there is nothing behind the last argument that may be read.\<close>

definition arg :: "string list \<Rightarrow> nat \<Rightarrow> crash + string" where
  "arg argv i = (if i < length argv then Inr (argv ! i) else Inl Undefined)"

definition arg_int :: "string list \<Rightarrow> nat \<Rightarrow> crash + cint" where
  "arg_int argv i = bindE (arg argv i) atoi"

definition tm_peer :: "string list \<Rightarrow> nat \<Rightarrow> crash + peer_servers_info" where
  "tm_peer argv i =
     bindE (arg_int argv i) (\<lambda>pid.
     bindE (arg argv (i + 1)) (\<lambda>ip.
     bindE (arg_int argv (i + 2)) (\<lambda>port.
     bindE (arg argv (i + 3)) (\<lambda>bip.
     bindE (arg_int argv (i + 4)) (\<lambda>bport.
       Inr \<lparr>peer_id = pid, peer_ip = ip, peer_port = port, peer_backup_ip = bip,
            peer_backup_port = bport\<rparr>)))))"

fun tm_peers :: "nat \<Rightarrow> string list \<Rightarrow> nat \<Rightarrow> crash + peer_servers_info list" where
  "tm_peers 0 argv i = Inr []"
| "tm_peers (Suc k) argv i =
     bindE (tm_peer argv i) (\<lambda>p. bindE (tm_peers k argv (i + 5)) (\<lambda>ps. Inr (p # ps)))"

lemma Accept_backlog: "Accept_conn s = (Some c, s') \<Longrightarrow> length (backlog s') < length (backlog s)"
  by (auto simp: Accept_conn_def split: list.splits option.splits)

text \<open>
  The accept loop serves one connection after the other; \<open>stubs k\<close> are the stubs of the k-th run. The
  result lists the replies sent on the connections, in order.
\<close>

function tm_serve ::
  "ServerSocket \<Rightarrow> cint \<Rightarrow> peer_servers_info list \<Rightarrow> (nat \<Rightarrow> nat \<Rightarrow> ClientStub) \<Rightarrow> ClientStub list \<Rightarrow>
   nat \<Rightarrow> cint \<Rightarrow> crash + buffer list" where
  "tm_serve listen rms_count rms stubs rmNodes k transaction_id =
     (case Accept_conn listen of
        (None, _) \<Rightarrow> Inr []
      | (Some conn, listen') \<Rightarrow>
          bindE (transaction_manager conn rms_count rms (stubs k) rmNodes transaction_id)
            (\<lambda>(client, _, next_id).
               bindE (tm_serve listen' rms_count rms stubs rmNodes (Suc k) next_id)
                 (\<lambda>rest. Inr (sent client # rest))))"
  by pat_completeness auto
termination
  by (relation "measure (\<lambda>(listen, n, rms, stubs, nodes, k, t). length (backlog listen))")
    (auto dest: Accept_backlog [OF sym])

declare tm_serve.simps [simp del]

text \<open>\<open>None\<close>: \<^verbatim>\<open>main\<close> returns before it serves (too few arguments, or the port is taken).\<close>

definition tm_main ::
  "string list \<Rightarrow> ServerSocket \<Rightarrow> (nat \<Rightarrow> ClientStub) \<Rightarrow> (nat \<Rightarrow> nat \<Rightarrow> ClientStub) \<Rightarrow>
   crash + buffer list option" where
  "tm_main argv listen fresh_stub stubs =
     (if length argv < 4 then Inr None
      else bindE (arg_int argv 1) (\<lambda>port.
        bindE (arg_int argv 2) (\<lambda>rms_count.
        bindE (tm_peers (nat (sint rms_count)) argv 3) (\<lambda>rms.
          case ServerSocket_Init port listen of
            (False, _) \<Rightarrow> Inr None
          | (True, listen') \<Rightarrow>
              bindE (tm_serve listen' rms_count rms stubs
                (map fresh_stub [0 ..< nat (sint rms_count)]) 0 0) (\<lambda>r. Inr (Some r))))))"

section \<open>What the loops do to the stubs\<close>

text \<open>The stubs of a run as a function of their index; each loop replaces the ones it visits.\<close>

definition nodes :: "nat \<Rightarrow> (nat \<Rightarrow> ClientStub) \<Rightarrow> ClientStub list" where
  "nodes n f = map f [0 ..< n]"

lemma length_nodes [simp]: "length (nodes n f) = n"
  by (simp add: nodes_def)

lemma nodes_nth [simp]: "i < n \<Longrightarrow> nodes n f ! i = f i"
  by (simp add: nodes_def)

lemma nodes_update [simp]: "i < n \<Longrightarrow> (nodes n f)[i := x] = nodes n (f(i := x))"
  by (rule nth_equalityI) (auto simp: nth_list_update)

lemma nodes_cong: "(\<And>i. i < n \<Longrightarrow> f i = g i) \<Longrightarrow> nodes n f = nodes n g"
  by (simp add: nodes_def)

definition visited :: "nat set \<Rightarrow> (nat \<Rightarrow> ClientStub) \<Rightarrow> (nat \<Rightarrow> ClientStub) \<Rightarrow> nat \<Rightarrow> ClientStub" where
  "visited A g f = (\<lambda>i. if i \<in> A then g i else f i)"

lemma visited_empty [simp]: "visited {} g f = f"
  by (simp add: visited_def)

lemma visited_insert: "i \<notin> A \<Longrightarrow> visited A g (f(i := g i)) = visited (insert i A) g f"
  by (auto simp: visited_def)

lemma visited_at [simp]: "i \<in> A \<Longrightarrow> visited A g f i = g i" "i \<notin> A \<Longrightarrow> visited A g f i = f i"
  by (simp_all add: visited_def)

lemma visited_range [simp]: "nodes n (visited (set [0 ..< n]) g f) = nodes n g"
  by (rule nodes_cong) (simp add: visited_def)

lemma range_subset: "set [0 ..< n] \<subseteq> {..<n}"
  by auto

lemma nodes_list: "length xs = n \<Longrightarrow> xs = nodes n ((!) xs)"
  by (rule nth_equalityI) simp_all

lemma connect_loop_eq:
  assumes "distinct is" and "set is \<subseteq> {..<n}" and "n \<le> length rms"
    and "\<forall>i \<in> set is. connect_rm (rms ! i) (stub i) = (True, g i)"
  shows "connect_loop rms stub is (nodes n f) = Inr (True, nodes n (visited (set is) g f))"
  using assms
proof (induction "is" arbitrary: f)
  case (Cons i "is")
  then show ?case by (simp add: visited_insert not_le)
qed simp

text \<open>The resource managers that are asked to prepare: up to the first \<^verbatim>\<open>No\<close>.\<close>

fun asked :: "(nat \<Rightarrow> string) \<Rightarrow> nat list \<Rightarrow> nat list" where
  "asked v [] = []"
| "asked v (i # is) = i # (if v i = ''No'' then [] else asked v is)"

lemma asked_subset: "set (asked v is) \<subseteq> set is"
  by (induction "is") auto

lemma asked_all: "\<forall>i \<in> set is. v i \<noteq> ''No'' \<Longrightarrow> asked v is = is"
  by (induction "is") auto

lemma asked_votes: "i \<in> set is \<Longrightarrow> i \<notin> set (asked v is) \<Longrightarrow> \<exists>j \<in> set is. v j = ''No''"
  using asked_all [of "is" v] by metis

lemma asked_upt:
  "i \<in> set (asked v [k ..< n]) \<longleftrightarrow> k \<le> i \<and> i < n \<and> (\<forall>j. k \<le> j \<and> j < i \<longrightarrow> v j \<noteq> ''No'')"
proof (induction "n - k" arbitrary: k)
  case 0
  then show ?case by simp
next
  case (Suc d)
  have "k < n" using Suc.hyps(2) by simp
  then have k: "asked v [k ..< n] = k # (if v k = ''No'' then [] else asked v [Suc k ..< n])"
    by (simp add: upt_conv_Cons)
  have IH: "i \<in> set (asked v [Suc k ..< n]) \<longleftrightarrow>
      Suc k \<le> i \<and> i < n \<and> (\<forall>j. Suc k \<le> j \<and> j < i \<longrightarrow> v j \<noteq> ''No'')"
    using Suc.hyps(1) [of "Suc k"] Suc.hyps(2) by simp
  show ?case
  proof (cases "i \<le> k")
    case True
    then show ?thesis using \<open>k < n\<close> unfolding k by (auto simp: IH)
  next
    case False
    then have "k \<le> j \<and> j < i \<longleftrightarrow> (j = k \<or> Suc k \<le> j \<and> j < i)" for j by auto
    then show ?thesis using False unfolding k by (auto simp: IH)
  qed
qed

definition ask :: "Transaction \<Rightarrow> ClientStub \<Rightarrow> crash + string \<times> ClientStub" where
  "ask txn n = SendTxnPrepareRequest txn (snd (SendIDMsg ''TMPrepare'' n))"

definition tell :: "bool \<Rightarrow> cint \<Rightarrow> ClientStub \<Rightarrow> crash + string \<times> ClientStub" where
  "tell allOk t n = SendTxnId t (snd (SendIDMsg (if allOk then ''TMCommit'' else ''TMAbort'') n))"

lemma prepare_loop_eq:
  assumes "distinct is" and "set is \<subseteq> {..<n}" and "\<forall>i \<in> set (asked v is). ask txn (f i) = Inr (v i, g i)"
  shows "prepare_loop txn is (nodes n f) =
    Inr (\<forall>i \<in> set is. v i \<noteq> ''No'', nodes n (visited (set (asked v is)) g f))"
  using assms
proof (induction "is" arbitrary: f)
  case (Cons i "is")
  have i: "i < n" "i \<notin> set (asked v is)" using Cons.prems asked_subset [of v "is"] by auto
  have step: "SendTxnPrepareRequest txn (snd (SendIDMsg ''TMPrepare'' (f i))) = Inr (v i, g i)"
    using Cons.prems(3) by (simp add: ask_def)
  show ?case
  proof (cases "v i = ''No''")
    case True
    then show ?thesis
      using i step visited_insert [of i "{}" g f] by (simp add: not_le)
  next
    case False
    have "\<forall>j \<in> set (asked v is). ask txn ((f(i := g i)) j) = Inr (v j, g j)"
      using Cons.prems(3) False i(2) by auto
    from Cons.IH [OF _ _ this] have "prepare_loop txn is (nodes n (f(i := g i))) = Inr
        (\<forall>i \<in> set is. v i \<noteq> ''No'', nodes n (visited (insert i (set (asked v is))) g f))"
      using Cons.prems visited_insert [OF i(2), of g f] by (simp del: fun_upd_apply)
    then show ?thesis
      using i step False by (simp add: not_le del: fun_upd_apply)
  qed
qed simp

lemma decide_loop_eq:
  assumes "distinct is" and "set is \<subseteq> {..<n}" and "\<forall>i \<in> set is. tell ok t (f i) = Inr (r i, g i)"
  shows "decide_loop ok t is (nodes n f) = Inr (nodes n (visited (set is) g f))"
  using assms
proof (induction "is" arbitrary: f)
  case (Cons i "is")
  have step: "SendTxnId t (snd (SendIDMsg (if ok then ''TMCommit'' else ''TMAbort'') (f i)))
      = Inr (r i, g i)"
    using Cons.prems(3) by (simp add: tell_def)
  have i: "i < n" "i \<notin> set is" using Cons.prems by auto
  have "\<forall>j \<in> set is. tell ok t ((f(i := g i)) j) = Inr (r j, g j)"
    using Cons.prems(3) i(2) by auto
  from Cons.IH [OF _ _ this] have "decide_loop ok t is (nodes n (f(i := g i)))
      = Inr (nodes n (visited (insert i (set is)) g f))"
    using Cons.prems visited_insert [OF i(2), of g f] by (simp del: fun_upd_apply)
  then show ?case
    using i step by (simp add: not_le del: fun_upd_apply)
qed simp

text \<open>One exchange with a resource manager that is connected and answers.\<close>

lemma ask_answered:
  assumes "is_initialized n" and "mem_ok n" and "tx n = []" and "fits txn"
    and "rx n = id_segment m x # r" and "short_msg m"
  shows "ask txn n = Inr (m, n\<lparr>rx := r, sent := sent n @ msg_bytes 10 ''TMPrepare'' n
    @ Transaction_Marshal (host n) txn\<rparr>)"
proof -
  let ?n1 = "n\<lparr>sent := sent n @ msg_bytes 10 ''TMPrepare'' n\<rparr>"
  have "SendTxnPrepareRequest txn ?n1 = Inr (m, ?n1\<lparr>rx := r,
      sent := sent ?n1 @ Transaction_Marshal (host ?n1) txn\<rparr>)"
    using assms by (intro SendTxnPrepareRequest_segment [where s' = x]) (simp_all add: id_segment_def)
  then show ?thesis using assms(1,3) by (simp add: ask_def SendIDMsg_idle)
qed

lemma tell_answered:
  assumes "is_initialized n" and "tx n = []" and "rx n = id_segment m x # r"
  shows "\<exists>reply. tell ok t n = Inr (reply, n\<lparr>rx := r, sent := sent n
    @ msg_bytes 10 (if ok then ''TMCommit'' else ''TMAbort'') n @ net_bytes t\<rparr>)"
proof -
  let ?m = "if ok then ''TMCommit'' else ''TMAbort''"
  let ?n1 = "n\<lparr>sent := sent n @ msg_bytes 10 ?m n\<rparr>"
  have "\<exists>reply. SendTxnId t ?n1 = Inr (reply, ?n1\<lparr>rx := r, sent := sent ?n1 @ net_bytes t\<rparr>)"
    using assms SendTxnId_segment [of ?n1 m x r t] by (simp add: id_segment_def)
  then show ?thesis using assms(1,2) by (simp add: tell_def SendIDMsg_idle)
qed

section \<open>Connecting\<close>

text \<open>
  A stub whose primary, or else whose backup, accepts the connection and then sends \<open>r\<close>.
\<close>

definition up :: "rx_event list \<Rightarrow> ClientStub \<Rightarrow> bool" where
  "up r n \<longleftrightarrow> \<not> is_initialized n \<and> mem_ok n \<and> (\<exists>d. dials n = Established r [] # d
     \<or> dials n = Refused # Established r [] # d)"

lemma connect_rm_up:
  assumes "up r n"
  shows "\<exists>n'. connect_rm rm n = (True, n') \<and> is_initialized n' \<and> mem_ok n' \<and> tx n' = [] \<and> rx n' = r
    \<and> sent n' = [] \<and> host n' = host n \<and> junk n' = junk n"
  using assms
  by (auto simp: up_def connect_rm_def ClientStub_Init_def ClientSocket_Init_def)

lemma msg_bytes_junk: "junk s = junk t \<Longrightarrow> msg_bytes n m s = msg_bytes n m t"
  by (simp add: msg_bytes_def fresh_def)

lemma fits_setTxnId [simp]: "fits (setTxnId t txn) = fits txn"
  by (simp add: fits_def lengths_ok_def setTxnId_def)

lemma txn_setTxnId [simp]:
  "txn_id (setTxnId t txn) = t" "readRecords (setTxnId t txn) = readRecords txn"
  "writeRecords (setTxnId t txn) = writeRecords txn"
  by (simp_all add: setTxnId_def)

definition verdict :: "bool \<Rightarrow> string" where
  "verdict ok = (if ok then ''TMCommit'' else ''TMAbort'')"

text \<open>What a resource manager is sent in a transaction, and what it is expected to answer.\<close>

definition tm_output :: "bool \<Rightarrow> bool \<Rightarrow> Transaction \<Rightarrow> ClientStub \<Rightarrow> buffer" where
  "tm_output was_asked ok txn n =
     (if was_asked then msg_bytes 10 ''TMPrepare'' n @ Transaction_Marshal (host n) txn else [])
     @ msg_bytes 10 (verdict ok) n @ net_bytes (txn_id txn)"

definition rm_output :: "bool \<Rightarrow> string \<Rightarrow> string \<Rightarrow> ServerStub \<Rightarrow> rx_event list" where
  "rm_output was_asked vote done x =
     (if was_asked then [id_segment vote x] else []) @ [id_segment done x]"

lemma tm_rm_exchange:
  assumes "up (rm_output was_asked vote done x) n" and "connect_rm rm n = (True, n0)" and "fits txn"
    and "short_msg vote"
  shows "\<exists>n1. (was_asked \<longrightarrow> ask txn n0 = Inr (vote, n1)) \<and> (\<not> was_asked \<longrightarrow> n1 = n0)
    \<and> (\<exists>r n2. tell ok (txn_id txn) n1 = Inr (r, n2) \<and> sent n2 = tm_output was_asked ok txn n)"
proof -
  have n0: "is_initialized n0" "mem_ok n0" "tx n0 = []" "rx n0 = rm_output was_asked vote done x"
    "sent n0 = []" "host n0 = host n" "junk n0 = junk n"
    using connect_rm_up [OF assms(1), of rm] assms(2) by auto
  note msgs = msg_bytes_junk [OF n0(7)]
  show ?thesis
  proof (cases was_asked)
    case True
    let ?n1 = "n0\<lparr>rx := [id_segment done x], sent := sent n0 @ msg_bytes 10 ''TMPrepare'' n0
      @ Transaction_Marshal (host n0) txn\<rparr>"
    have "ask txn n0 = Inr (vote, ?n1)"
      using True n0(1-4) assms(3,4) by (intro ask_answered [where x = x]) (simp_all add: rm_output_def)
    moreover have "\<exists>r n2. tell ok (txn_id txn) ?n1 = Inr (r, n2)
        \<and> sent n2 = tm_output was_asked ok txn n"
      using tell_answered [of ?n1 "done" x "[]" ok "txn_id txn"] True n0
      by (auto simp: tm_output_def verdict_def msgs)
    ultimately show ?thesis using True by blast
  next
    case False
    then show ?thesis
      using tell_answered [of n0 "done" x "[]" ok "txn_id txn"] n0
      by (auto simp: tm_output_def rm_output_def verdict_def msgs)
  qed
qed

section \<open>The decision\<close>

text \<open>
  A run whose connections and exchanges succeed one by one, in general: \<open>v\<close> are the answers to the
  prepare message as the transaction manager sees them, \<open>Q\<close> what holds of each stub at the end.
\<close>

lemma transaction_manager_exchanges:
  assumes "n = nat (sint rms_count)" and "n \<le> length rms" and "length rmNodes = n"
    and "conn_ok client" and "rx client = [Segment (Transaction_Marshal e req)]" and "fits req"
    and connected: "\<forall>i \<in> {..<n}. connect_rm (rms ! i) (stub i) = (True, g0 i)"
    and exchange: "\<forall>i \<in> {..<n}. \<exists>n1.
        (i \<in> set (asked v [0 ..< n]) \<longrightarrow> ask (setTxnId t req) (g0 i) = Inr (v i, n1))
      \<and> (i \<notin> set (asked v [0 ..< n]) \<longrightarrow> n1 = g0 i)
      \<and> (\<exists>r n2. tell ok t n1 = Inr (r, n2) \<and> Q i n2)"
    and ok: "ok \<longleftrightarrow> (\<forall>i < n. v i \<noteq> ''No'')"
  shows "\<exists>client' nodes'. transaction_manager client rms_count rms stub rmNodes t =
      Inr (client', nodes', t + 1)
    \<and> sent client' = sent client @ msg_bytes 10 (if ok then ''Success'' else ''Failed'') client
    \<and> length nodes' = n \<and> (\<forall>i < n. Q i (nodes' ! i))"
proof -
  let ?txn = "setTxnId t req"
  let ?range = "[0 ..< n]"
  let ?as = "set (asked v ?range)"
  obtain g1 where g1: "\<forall>i \<in> {..<n}. (i \<in> ?as \<longrightarrow> ask ?txn (g0 i) = Inr (v i, g1 i))
      \<and> (i \<notin> ?as \<longrightarrow> g1 i = g0 i) \<and> (\<exists>r n2. tell ok t (g1 i) = Inr (r, n2) \<and> Q i n2)"
    using exchange by metis
  then obtain r g2 where g2: "\<forall>i \<in> {..<n}. tell ok t (g1 i) = Inr (r i, g2 i) \<and> Q i (g2 i)"
    by metis
  have as: "?as \<subseteq> {..<n}" using asked_subset [of v ?range] by auto
  have nodes: "rmNodes = nodes n ((!) rmNodes)" using assms(3) by (rule nodes_list)
  have c0: "connect_loop rms stub ?range (nodes n ((!) rmNodes)) = Inr (True, nodes n g0)"
    using connect_loop_eq [OF distinct_upt range_subset assms(2), of stub g0 "(!) rmNodes"] connected
    unfolding visited_range by simp
  have c: "connect_loop rms stub ?range rmNodes = Inr (True, nodes n g0)"
    by (subst nodes) (rule c0)
  have p: "prepare_loop ?txn ?range (nodes n g0) = Inr (ok, nodes n g1)"
  proof -
    have "prepare_loop ?txn ?range (nodes n g0)
        = Inr (\<forall>i \<in> set ?range. v i \<noteq> ''No'', nodes n (visited ?as g1 g0))"
      using g1 as by (intro prepare_loop_eq) auto
    moreover have "nodes n (visited ?as g1 g0) = nodes n g1"
      using g1 by (intro nodes_cong) (auto simp: visited_def)
    ultimately show ?thesis using ok by (simp add: Ball_def)
  qed
  have d: "decide_loop ok t ?range (nodes n g1) = Inr (nodes n g2)"
    using decide_loop_eq [OF distinct_upt range_subset, of n ok t g1 r g2] g2
    unfolding visited_range by simp
  let ?client = "replied [] (if ok then ''Success'' else ''Failed'') client"
  have "transaction_manager client rms_count rms stub rmNodes t = Inr (?client, nodes n g2, t + 1)"
    using Txn_segment [OF assms(4,5,6)] reply_idle [OF assms(4)]
    by (simp add: transaction_manager_def Let_def c p d flip: assms(1))
  then show ?thesis
    using g2 by (intro exI [of _ ?client] exI [of _ "nodes n g2"]) simp
qed

lemma connect_all:
  assumes "\<forall>i < n. up (r i) (stub i)"
  shows "\<exists>g0. \<forall>i \<in> {..<n}. connect_rm (rms ! i) (stub i) = (True, g0 i)"
proof -
  have "\<forall>i \<in> {..<n}. \<exists>n0. connect_rm (rms ! i) (stub i) = (True, n0)"
    using connect_rm_up assms by blast
  then show ?thesis by (rule bchoice)
qed

text \<open>Every resource manager answers what it is asked.\<close>

lemma transaction_manager_run:
  assumes "n = nat (sint rms_count)" and "n \<le> length rms" and "length rmNodes = n"
    and "conn_ok client" and "rx client = [Segment (Transaction_Marshal e req)]" and "fits req"
    and "\<forall>i < n. short_msg (v i)"
    and "\<forall>i < n. up (rm_output (i \<in> set (asked v [0 ..< n])) (v i) (w i) (x i)) (stub i)"
    and ok: "ok \<longleftrightarrow> (\<forall>i < n. v i \<noteq> ''No'')"
  shows "\<exists>client' nodes'. transaction_manager client rms_count rms stub rmNodes t =
      Inr (client', nodes', t + 1)
    \<and> sent client' = sent client @ msg_bytes 10 (if ok then ''Success'' else ''Failed'') client
    \<and> length nodes' = n \<and> (\<forall>i < n. sent (nodes' ! i) =
         tm_output (i \<in> set (asked v [0 ..< n])) ok (setTxnId t req) (stub i))"
proof -
  let ?txn = "setTxnId t req"
  let ?as = "set (asked v [0 ..< n])"
  obtain g0 where g0: "\<forall>i \<in> {..<n}. connect_rm (rms ! i) (stub i) = (True, g0 i)"
    using connect_all [where rms = rms, OF assms(8)] by (rule exE)
  have "\<forall>i \<in> {..<n}. \<exists>n1. (i \<in> ?as \<longrightarrow> ask ?txn (g0 i) = Inr (v i, n1)) \<and> (i \<notin> ?as \<longrightarrow> n1 = g0 i)
      \<and> (\<exists>r n2. tell ok t n1 = Inr (r, n2) \<and> sent n2 = tm_output (i \<in> ?as) ok ?txn (stub i))"
  proof
    fix i assume i: "i \<in> {..<n}"
    then show "\<exists>n1. (i \<in> ?as \<longrightarrow> ask ?txn (g0 i) = Inr (v i, n1)) \<and> (i \<notin> ?as \<longrightarrow> n1 = g0 i)
      \<and> (\<exists>r n2. tell ok t n1 = Inr (r, n2) \<and> sent n2 = tm_output (i \<in> ?as) ok ?txn (stub i))"
      using tm_rm_exchange [of "i \<in> ?as" "v i" "w i" "x i" "stub i" "rms ! i" "g0 i" ?txn ok]
        assms(6-8) g0 by simp
  qed
  then show ?thesis
    by (rule transaction_manager_exchanges [where v = v
          and Q = "\<lambda>i m. sent m = tm_output (i \<in> ?as) ok ?txn (stub i)",
          OF assms(1-6) g0 _ ok])
qed

section \<open>Properties of a run\<close>

text \<open>
  C5. The transaction manager's decision: with every resource manager reachable (at its primary's
  address or else its backup's) and answering, the prepare goes to the managers in order until one
  votes \<^verbatim>\<open>No\<close>; then every manager, asked or not, is sent the commit if no vote was \<^verbatim>\<open>No\<close> and the
  abort otherwise, under the id the transaction manager gave the transaction; the client is told
  \<^verbatim>\<open>Success\<close> or \<^verbatim>\<open>Failed\<close> accordingly.
\<close>

theorem decision_follows_votes:
  assumes "n = nat (sint rms_count)" and "n \<le> length rms" and "length rmNodes = n"
    and "conn_ok client" and "rx client = [Segment (Transaction_Marshal e req)]" and "fits req"
    and "\<forall>i < n. short_msg (v i)"
    and "\<forall>i < n. up (rm_output (i \<in> set (asked v [0 ..< n])) (v i) (w i) (x i)) (stub i)"
  shows "\<exists>client' nodes'. transaction_manager client rms_count rms stub rmNodes t =
      Inr (client', nodes', t + 1)
    \<and> sent client' = sent client
        @ msg_bytes 10 (if \<forall>i < n. v i \<noteq> ''No'' then ''Success'' else ''Failed'') client
    \<and> (\<forall>i < n. sent (nodes' ! i) =
         (if \<forall>j < i. v j \<noteq> ''No'' then msg_bytes 10 ''TMPrepare'' (stub i)
            @ Transaction_Marshal (host (stub i)) (setTxnId t req) else [])
         @ msg_bytes 10 (if \<forall>i < n. v i \<noteq> ''No'' then ''TMCommit'' else ''TMAbort'') (stub i)
         @ net_bytes t)"
proof -
  have as: "i \<in> set (asked v [0 ..< n]) \<longleftrightarrow> (\<forall>j < i. v j \<noteq> ''No'')" if "i < n" for i
    using that by (simp add: asked_upt)
  obtain client' nodes' where run: "transaction_manager client rms_count rms stub rmNodes t =
      Inr (client', nodes', t + 1)
    \<and> sent client' = sent client
        @ msg_bytes 10 (if \<forall>i < n. v i \<noteq> ''No'' then ''Success'' else ''Failed'') client
    \<and> length nodes' = n \<and> (\<forall>i < n. sent (nodes' ! i) = tm_output (i \<in> set (asked v [0 ..< n]))
      (\<forall>i < n. v i \<noteq> ''No'') (setTxnId t req) (stub i))"
    using transaction_manager_run [where t = t, OF assms refl] by (elim exE) (rule that)
  show ?thesis
  proof (intro exI conjI)
    show "transaction_manager client rms_count rms stub rmNodes t = Inr (client', nodes', t + 1)"
      using run by (rule conjunct1)
    show "sent client' = sent client
        @ msg_bytes 10 (if \<forall>i < n. v i \<noteq> ''No'' then ''Success'' else ''Failed'') client"
      using run by (elim conjE)
    show "\<forall>i < n. sent (nodes' ! i) =
         (if \<forall>j < i. v j \<noteq> ''No'' then msg_bytes 10 ''TMPrepare'' (stub i)
            @ Transaction_Marshal (host (stub i)) (setTxnId t req) else [])
         @ msg_bytes 10 (if \<forall>i < n. v i \<noteq> ''No'' then ''TMCommit'' else ''TMAbort'') (stub i)
         @ net_bytes t"
      using run as by (elim conjE) (simp add: tm_output_def verdict_def)
  qed
qed

lemma demo_peer: "nat (sint (1 :: cint)) = 1" by simp

text \<open>A client connection with the transaction of the examples, and a reachable manager.\<close>

definition demo_client :: ServerStub where
  "demo_client = demo_conn [Segment (Transaction_Marshal LittleEndian (demo_txn 0 0))]"

definition demo_rms :: "peer_servers_info list" where
  "demo_rms = [\<lparr>peer_id = 0, peer_ip = ''primary'', peer_port = 5000, peer_backup_ip = ''backup'',
     peer_backup_port = 5000\<rparr>]"

definition dialing :: "dial list \<Rightarrow> ClientStub" where
  "dialing d = new_ClientSocket LittleEndian True [] d"

lemma up_dialing: "up r (dialing (Established r [] # d))" "up r (dialing (Refused # Established r [] # d))"
  by (simp_all add: up_def dialing_def new_ClientSocket_def new_Socket_def Socket.extend_def
      ClientSocket.fields_def)

lemma dialing_fields [simp]:
  "sent (dialing d) = []" "dials (dialing d) = d" "\<not> is_initialized (dialing d)"
  by (simp_all add: dialing_def new_ClientSocket_def new_Socket_def Socket.extend_def
      ClientSocket.fields_def)

lemma demo_client_facts [simp]: "conn_ok demo_client"
  "rx demo_client = [Segment (Transaction_Marshal LittleEndian (demo_txn 0 0))]"
  "sent demo_client = []"
  by (simp_all add: demo_client_def)

lemma demo_rms_length [simp]: "length demo_rms = 1"
  by (simp add: demo_rms_def)

lemma decision_follows_votes_witness:
  "\<exists>client' nodes'. transaction_manager demo_client 1 demo_rms
       (\<lambda>i. dialing [Refused, Established [id_segment ''No'' (demo_conn []),
              id_segment ''Done abort'' (demo_conn [])] []]) [dialing []] 3
     = Inr (client', nodes', 4) \<and> sent client' = msg_bytes 10 ''Failed'' demo_client"
proof -
  let ?r = "rm_output (i \<in> set (asked (\<lambda>i. ''No'') [0 ..< 1])) ''No'' ''Done abort'' (demo_conn [])"
  have r: "rm_output (i \<in> set (asked (\<lambda>i. ''No'') [0 ..< 1])) ''No'' ''Done abort'' (demo_conn [])
      = [id_segment ''No'' (demo_conn []), id_segment ''Done abort'' (demo_conn [])]"
    if "i < 1" for i :: nat
    using that by (simp add: rm_output_def)
  have up: "\<forall>i < 1. up (rm_output (i \<in> set (asked (\<lambda>i. ''No'') [0 ..< 1])) ''No'' ''Done abort'' (demo_conn []))
      (dialing [Refused, Established [id_segment ''No'' (demo_conn []),
              id_segment ''Done abort'' (demo_conn [])] []])"
    using r up_dialing(2) by auto
  from decision_follows_votes [where n = 1 and rms_count = 1 and rms = demo_rms
      and rmNodes = "[dialing []]" and v = "\<lambda>i. ''No''" and t = 3, OF _ _ _ demo_client_facts(1,2) fits_demo _ up]
  show ?thesis by auto
qed

section \<open>Failures of resource managers\<close>

lemma tell_closed: "\<not> is_initialized n \<Longrightarrow> \<exists>r n2. tell ok t n = Inr (r, n2) \<and> sent n2 = sent n"
  by (simp add: tell_def SendIDMsg_def Send_closed SendTxnId_def writeInt_def sys_send_def
      Recv_once_closed Close_def)

lemma ask_eof:
  assumes "is_initialized n" and "mem_ok n" and "tx n = []" and "fits txn" and "rx n = []"
  shows "\<exists>n1. ask txn n = Inr (''ErrorNo'', n1) \<and> \<not> is_initialized n1
    \<and> sent n1 = sent n @ msg_bytes 10 ''TMPrepare'' n @ Transaction_Marshal (host n) txn"
  using assms SendTxnPrepareRequest_eof [of "n\<lparr>sent := sent n @ msg_bytes 10 ''TMPrepare'' n\<rparr>" txn]
  by (simp add: ask_def SendIDMsg_idle Close_def)

lemma tell_eof:
  assumes "is_initialized n" and "tx n = []" and "rx n = []"
  shows "tell ok t n = Inl Undefined"
  using assms by (simp add: tell_def SendIDMsg_idle SendTxnId_def writeInt_idle Recv_once_eof)

text \<open>
  C28. A lost vote counts as a yes: a resource manager that closes the connection instead of voting
  gives the reply \<^verbatim>\<open>ErrorNo\<close>, and only the reply \<^verbatim>\<open>No\<close> stops the transaction. With any number of such
  managers, and \<^verbatim>\<open>Ok\<close> from the others, every manager that voted is sent the commit, the ones that closed
  get nothing after the prepare, and the client is told \<^verbatim>\<open>Success\<close>.
\<close>

theorem lost_vote_counts_as_yes:
  assumes "n = nat (sint rms_count)" and "n \<le> length rms" and "length rmNodes = n"
    and "conn_ok client" and "rx client = [Segment (Transaction_Marshal e req)]" and "fits req"
    and "\<forall>i < n. up [] (stub i) \<or> up (rm_output True ''Ok'' (w i) (x i)) (stub i)"
  shows "\<exists>client' nodes'. transaction_manager client rms_count rms stub rmNodes t =
      Inr (client', nodes', t + 1)
    \<and> sent client' = sent client @ msg_bytes 10 ''Success'' client
    \<and> (\<forall>i < n. sent (nodes' ! i) = msg_bytes 10 ''TMPrepare'' (stub i)
          @ Transaction_Marshal (host (stub i)) (setTxnId t req)
          @ (if up [] (stub i) then [] else msg_bytes 10 ''TMCommit'' (stub i) @ net_bytes t))"
proof -
  define v where "v i = (if up [] (stub i) then ''ErrorNo'' else ''Ok'')" for i
  let ?txn = "setTxnId t req"
  let ?out = "\<lambda>i. msg_bytes 10 ''TMPrepare'' (stub i) @ Transaction_Marshal (host (stub i)) ?txn
    @ (if up [] (stub i) then [] else msg_bytes 10 ''TMCommit'' (stub i) @ net_bytes t)"
  have yes: "v i \<noteq> ''No''" for i by (simp add: v_def)
  have all: "asked v [0 ..< n] = [0 ..< n]" by (rule asked_all) (simp add: yes)
  have "\<exists>n0. connect_rm (rms ! i) (stub i) = (True, n0)" if "i < n" for i
    using assms(7) that connect_rm_up by blast
  then have "\<forall>i \<in> {..<n}. \<exists>n0. connect_rm (rms ! i) (stub i) = (True, n0)" by simp
  then obtain g0 where g0: "\<forall>i \<in> {..<n}. connect_rm (rms ! i) (stub i) = (True, g0 i)"
    by (metis (no_types))
  have exchange: "\<exists>n1. ask ?txn (g0 i) = Inr (v i, n1) \<and> (\<exists>r n2. tell True t n1 = Inr (r, n2) \<and> sent n2 = ?out i)"
    if i: "i < n" for i
  proof (cases "up [] (stub i)")
    case True
    have g: "is_initialized (g0 i)" "mem_ok (g0 i)" "tx (g0 i) = []" "rx (g0 i) = []" "sent (g0 i) = []"
      "host (g0 i) = host (stub i)" "junk (g0 i) = junk (stub i)"
      using connect_rm_up [OF True, of "rms ! i"] g0 i by auto
    obtain n1 where n1: "ask ?txn (g0 i) = Inr (''ErrorNo'', n1)" "\<not> is_initialized n1" "sent n1 = ?out i"
      using ask_eof [OF g(1-3) _ g(4), of ?txn] assms(6) True by (auto simp: g(5,6) msg_bytes_junk [OF g(7)])
    then show ?thesis using tell_closed [OF n1(2), of True t] True by (auto simp: v_def)
  next
    case False
    then have "up (rm_output True ''Ok'' (w i) (x i)) (stub i)" using assms(7) i by auto
    from tm_rm_exchange [OF this, of "rms ! i" "g0 i" ?txn True] show ?thesis
      using g0 i assms(6) False by (auto simp: v_def tm_output_def verdict_def)
  qed
  have "\<forall>i \<in> {..<n}. \<exists>n1. (i \<in> set (asked v [0 ..< n]) \<longrightarrow> ask ?txn (g0 i) = Inr (v i, n1))
      \<and> (i \<notin> set (asked v [0 ..< n]) \<longrightarrow> n1 = g0 i)
      \<and> (\<exists>r n2. tell True t n1 = Inr (r, n2) \<and> sent n2 = ?out i)"
    using exchange by (simp add: all)
  from transaction_manager_exchanges [where v = v and ok = True and Q = "\<lambda>i n2. sent n2 = ?out i",
      OF assms(1-6) g0 this] show ?thesis
    by (simp only: yes simp_thms if_True) blast
qed

lemma not_up_nil: "up (ev # r) n \<Longrightarrow> \<not> up [] n"
  by (auto simp: up_def)

text \<open>Witness: of two managers the first votes and the second closes the connection.\<close>

definition lost_vote_stubs :: "nat \<Rightarrow> ClientStub" where
  "lost_vote_stubs i =
     dialing [Established (if i = 0 then rm_output True ''Ok'' ''Done commit'' (demo_conn []) else []) []]"

lemma lost_vote_stubs_up:
  "up (rm_output True ''Ok'' ''Done commit'' (demo_conn [])) (lost_vote_stubs 0)" "up [] (lost_vote_stubs 1)"
  unfolding lost_vote_stubs_def using up_dialing(1) by simp_all

lemma dialing_like:
  "msg_bytes 10 m (dialing d) = msg_bytes 10 m (dialing [])" "host (dialing d) = LittleEndian"
  by (simp_all add: msg_bytes_def fresh_def dialing_def new_ClientSocket_def new_Socket_def Socket.extend_def)

lemma lost_vote_stubs_like:
  "msg_bytes 10 m (lost_vote_stubs i) = msg_bytes 10 m (dialing [])" "host (lost_vote_stubs i) = LittleEndian"
  unfolding lost_vote_stubs_def by (rule dialing_like)+

lemma lost_vote_stubs_voted: "\<not> up [] (lost_vote_stubs 0)"
  using lost_vote_stubs_up(1) by (intro not_up_nil) (simp only: rm_output_def if_True append_Cons)

lemma lost_vote_counts_as_yes_witness:
  "\<exists>client' nodes'. transaction_manager demo_client 2 (demo_rms @ demo_rms)
       lost_vote_stubs [dialing [], dialing []] 0 = Inr (client', nodes', 1)
     \<and> sent client' = msg_bytes 10 ''Success'' demo_client
     \<and> sent (nodes' ! 0) = msg_bytes 10 ''TMPrepare'' (dialing [])
          @ Transaction_Marshal LittleEndian (setTxnId 0 (demo_txn 0 0)) @ msg_bytes 10 ''TMCommit'' (dialing []) @ net_bytes 0
     \<and> sent (nodes' ! 1) = msg_bytes 10 ''TMPrepare'' (dialing [])
          @ Transaction_Marshal LittleEndian (setTxnId 0 (demo_txn 0 0))"
proof -
  have hyps: "(2 :: nat) = nat (sint (2 :: cint))" "2 \<le> length (demo_rms @ demo_rms)" "length [dialing [], dialing []] = 2"
    by simp_all
  have two: "i = 0 \<or> i = 1" if "i < 2" for i :: nat using that by linarith
  have ups: "\<forall>i < 2. up [] (lost_vote_stubs i) \<or> up (rm_output True ''Ok'' ''Done commit'' (demo_conn [])) (lost_vote_stubs i)"
    using lost_vote_stubs_up two by metis
  obtain client' nodes' where run: "transaction_manager demo_client 2 (demo_rms @ demo_rms) lost_vote_stubs
      [dialing [], dialing []] 0 = Inr (client', nodes', 0 + 1)"
    "sent client' = sent demo_client @ msg_bytes 10 ''Success'' demo_client"
    "\<forall>i < 2. sent (nodes' ! i) = msg_bytes 10 ''TMPrepare'' (lost_vote_stubs i)
       @ Transaction_Marshal (host (lost_vote_stubs i)) (setTxnId 0 (demo_txn 0 0))
       @ (if up [] (lost_vote_stubs i) then [] else msg_bytes 10 ''TMCommit'' (lost_vote_stubs i) @ net_bytes 0)"
    using lost_vote_counts_as_yes [OF hyps(1-3) demo_client_facts(1,2) fits_demo ups, of 0] by blast
  have "sent (nodes' ! 0) = msg_bytes 10 ''TMPrepare'' (dialing [])
      @ Transaction_Marshal LittleEndian (setTxnId 0 (demo_txn 0 0)) @ msg_bytes 10 ''TMCommit'' (dialing []) @ net_bytes 0"
    using run(3) [rule_format, of 0] lost_vote_stubs_voted
    by (simp only: lost_vote_stubs_like if_False zero_less_numeral simp_thms)
  moreover have "sent (nodes' ! 1) = msg_bytes 10 ''TMPrepare'' (dialing [])
      @ Transaction_Marshal LittleEndian (setTxnId 0 (demo_txn 0 0))"
    using run(3) [rule_format, of 1] lost_vote_stubs_up(2)
    by (simp only: lost_vote_stubs_like if_True append_Nil2 one_less_numeral_iff semiring_norm simp_thms)
  ultimately show ?thesis
    using run(1,2) by (intro exI [of _ client'] exI [of _ nodes']) (simp only: add_0 demo_client_facts append_Nil simp_thms)
qed

lemma upt_split: "k < n \<Longrightarrow> [0 ..< n] = [0 ..< k] @ k # [Suc k ..< n]"
proof -
  assume k: "k < n"
  then have "[0 ..< n] = [0 ..< k] @ [k ..< n]" using upt_add_eq_append [of 0 k "n - k"] by simp
  then show ?thesis using k by (simp add: upt_conv_Cons)
qed

lemma connect_loop_append:
  "connect_loop rms stub xs f = Inr (True, g) \<Longrightarrow>
   connect_loop rms stub (xs @ ys) f = connect_loop rms stub ys g"
  by (induction xs arbitrary: f) (auto split: if_splits prod.splits)

lemma decide_loop_append:
  "decide_loop ok t xs f = Inr g \<Longrightarrow> decide_loop ok t (xs @ ys) f = decide_loop ok t ys g"
  by (induction xs arbitrary: f) (auto split: if_splits)

text \<open>A cluster of which neither address accepts a connection.\<close>

definition down :: "ClientStub \<Rightarrow> bool" where
  "down n \<longleftrightarrow> \<not> is_initialized n \<and> sent n = [] \<and> (\<exists>d. dials n = Refused # Refused # d)"

lemma connect_rm_down: "down n \<Longrightarrow> \<exists>n'. connect_rm rm n = (False, n') \<and> sent n' = []"
  by (auto simp: down_def connect_rm_def ClientStub_Init_def ClientSocket_Init_def)

text \<open>
  C29. A cluster that cannot be reached: when neither the primary nor the backup of some resource
  manager accepts a connection, the transaction manager sends nothing to any resource manager and
  tells the client \<^verbatim>\<open>Failed\<close>; the transaction id is used up.
\<close>

theorem unreachable_cluster_fails:
  assumes "n = nat (sint rms_count)" and "n \<le> length rms" and "length rmNodes = n"
    and "conn_ok client" and "rx client = [Segment (Transaction_Marshal e req)]" and "fits req"
    and "k < n" and "\<forall>i < k. up (r i) (stub i)" and "down (stub k)"
    and "\<forall>i < n. sent (rmNodes ! i) = []"
  shows "\<exists>client' nodes'. transaction_manager client rms_count rms stub rmNodes t =
      Inr (client', nodes', t + 1)
    \<and> sent client' = sent client @ msg_bytes 10 ''Failed'' client
    \<and> (\<forall>i < n. sent (nodes' ! i) = [])"
proof -
  have "\<exists>n0. connect_rm (rms ! i) (stub i) = (True, n0) \<and> sent n0 = []" if "i < k" for i
    using assms(8) that connect_rm_up by blast
  then have "\<forall>i \<in> {..<k}. \<exists>n0. connect_rm (rms ! i) (stub i) = (True, n0) \<and> sent n0 = []" by simp
  then obtain g0 where g0: "\<forall>i \<in> {..<k}. connect_rm (rms ! i) (stub i) = (True, g0 i) \<and> sent (g0 i) = []"
    by (metis (no_types))
  obtain nk where nk: "connect_rm (rms ! k) (stub k) = (False, nk)" "sent nk = []"
    using connect_rm_down [OF assms(9)] by blast
  let ?f = "visited (set [0 ..< k]) g0 ((!) rmNodes)"
  have sub: "set [0 ..< k] \<subseteq> {..<n}" using assms(7) by auto
  have nodes: "rmNodes = nodes n ((!) rmNodes)" using assms(3) by (rule nodes_list)
  have "connect_loop rms stub [0 ..< k] (nodes n ((!) rmNodes)) = Inr (True, nodes n ?f)"
    using g0 by (intro connect_loop_eq [OF distinct_upt sub assms(2)]) simp
  from connect_loop_append [OF this, of "k # [Suc k ..< n]"]
  have "connect_loop rms stub [0 ..< n] (nodes n ((!) rmNodes)) = Inr (False, nodes n (?f(k := nk)))"
    using assms(2,7) nk(1) by (simp add: upt_split [OF assms(7)] not_le del: fun_upd_apply)
  then have loop: "connect_loop rms stub [0 ..< n] rmNodes = Inr (False, nodes n (?f(k := nk)))"
    by (subst nodes)
  have "transaction_manager client rms_count rms stub rmNodes t =
      Inr (replied [] ''Failed'' client, nodes n (?f(k := nk)), t + 1)"
    using Txn_segment [OF assms(4,5,6)] reply_idle [OF assms(4)]
    by (simp add: transaction_manager_def Let_def loop del: fun_upd_apply flip: assms(1))
  moreover have "sent (nodes n (?f(k := nk)) ! i) = []" if "i < n" for i
    using that g0 nk(2) assms(10) by (simp add: visited_def)
  ultimately show ?thesis
    by (intro exI [of _ "replied [] ''Failed'' client"] exI [of _ "nodes n (?f(k := nk))"]) simp
qed

lemma unreachable_cluster_fails_witness:
  "\<exists>client' nodes'. transaction_manager demo_client 1 demo_rms
       (\<lambda>i. dialing [Refused, Refused]) [dialing []] 0 = Inr (client', nodes', 1)
     \<and> sent client' = msg_bytes 10 ''Failed'' demo_client"
proof -
  have "down (dialing [Refused, Refused])" by (simp add: down_def)
  then show ?thesis
    using unreachable_cluster_fails [where n = 1 and rms_count = 1 and rms = demo_rms and k = 0
        and rmNodes = "[dialing []]" and stub = "\<lambda>i. dialing [Refused, Refused]" and t = 0,
        OF _ _ _ demo_client_facts(1,2) fits_demo]
    by auto
qed

lemma vote_then_silence:
  assumes "up [id_segment ''Ok'' x] stub" and "connect_rm rm stub = (True, n0)" and "fits txn"
  shows "\<exists>n1. ask txn n0 = Inr (''Ok'', n1) \<and> tell True t n1 = Inl Undefined"
proof -
  have n0: "is_initialized n0" "mem_ok n0" "tx n0 = []" "rx n0 = [id_segment ''Ok'' x]"
    using connect_rm_up [OF assms(1), of rm] assms(2) by auto
  let ?n1 = "n0\<lparr>rx := [], sent := sent n0 @ msg_bytes 10 ''TMPrepare'' n0 @ Transaction_Marshal (host n0) txn\<rparr>"
  have "ask txn n0 = Inr (''Ok'', ?n1)"
    using ask_answered [OF n0(1-3) _ n0(4), of txn] assms(3) by simp
  moreover have "tell True t ?n1 = Inl Undefined"
    using n0 by (intro tell_eof) simp_all
  ultimately show ?thesis by blast
qed

lemma decide_loop_silence:
  assumes "k < n" and "\<forall>i < k. \<exists>r m. tell True t (g i) = Inr (r, m)" and "tell True t (g k) = Inl Undefined"
  shows "decide_loop True t [0 ..< n] (nodes n g) = Inl Undefined"
proof -
  have "\<forall>i \<in> {..<k}. \<exists>rn. tell True t (g i) = Inr (fst rn, snd rn)"
    using assms(2) by fastforce
  then obtain rn where rn: "\<forall>i \<in> {..<k}. tell True t (g i) = Inr (fst (rn i), snd (rn i))"
    by metis
  have sub: "set [0 ..< k] \<subseteq> {..<n}" using assms(1) by auto
  let ?f = "visited (set [0 ..< k]) (snd \<circ> rn) g"
  have d: "decide_loop True t [0 ..< k] (nodes n g) = Inr (nodes n ?f)"
    using rn by (intro decide_loop_eq [OF distinct_upt sub, where r = "fst \<circ> rn"]) simp
  have "tell True t (?f k) = Inl Undefined" using assms(3) by (simp add: visited_def)
  then show ?thesis
    using decide_loop_append [OF d, of "k # [Suc k ..< n]"] assms(1)
    by (simp add: upt_split [OF assms(1)] tell_def not_le)
qed

text \<open>
  C30. A resource manager that votes \<^verbatim>\<open>Ok\<close> and then goes down: the transaction manager does not turn to
  the backup. It sends the decision down the old connection, and when that is closed without a reply,
  \<^verbatim>\<open>SendTxnId\<close> ends without a return value, which is undefined behaviour.
\<close>

theorem failure_after_vote_undefined:
  assumes "n = nat (sint rms_count)" and "n \<le> length rms" and "length rmNodes = n"
    and "conn_ok client" and "rx client = [Segment (Transaction_Marshal e req)]" and "fits req"
    and "k < n" and "\<forall>i < n. i \<noteq> k \<longrightarrow> up (rm_output True ''Ok'' (w i) (x i)) (stub i)"
    and "up [id_segment ''Ok'' (x k)] (stub k)"
  shows "transaction_manager client rms_count rms stub rmNodes t = Inl Undefined"
proof -
  let ?txn = "setTxnId t req"
  let ?v = "\<lambda>i :: nat. ''Ok''"
  have all: "asked ?v [0 ..< n] = [0 ..< n]" by (rule asked_all) simp
  have "\<exists>n0. connect_rm (rms ! i) (stub i) = (True, n0)" if "i < n" for i
    using assms(8,9) that connect_rm_up by (cases "i = k") blast+
  then have "\<forall>i \<in> {..<n}. \<exists>n0. connect_rm (rms ! i) (stub i) = (True, n0)" by simp
  then obtain g0 where g0: "\<forall>i \<in> {..<n}. connect_rm (rms ! i) (stub i) = (True, g0 i)"
    by (metis (no_types))
  have "\<exists>n1. ask ?txn (g0 i) = Inr (''Ok'', n1)
      \<and> (if i = k then tell True t n1 = Inl Undefined else \<exists>r n2. tell True t n1 = Inr (r, n2))"
    if i: "i \<in> {..<n}" for i
  proof (cases "i = k")
    case True
    then show ?thesis
      using vote_then_silence [OF assms(9), of "rms ! k" "g0 k" ?txn t] g0 i assms(6) by auto
  next
    case False
    then have "up (rm_output True ''Ok'' (w i) (x i)) (stub i)" using assms(8) i by auto
    from tm_rm_exchange [OF this, of "rms ! i" "g0 i" ?txn True] show ?thesis
      using g0 i assms(6) False by auto
  qed
  then obtain g1 where g1: "\<forall>i \<in> {..<n}. ask ?txn (g0 i) = Inr (''Ok'', g1 i)
      \<and> (if i = k then tell True t (g1 i) = Inl Undefined else \<exists>r n2. tell True t (g1 i) = Inr (r, n2))"
    by metis
  have nodes: "rmNodes = nodes n ((!) rmNodes)" using assms(3) by (rule nodes_list)
  have c0: "connect_loop rms stub [0 ..< n] (nodes n ((!) rmNodes)) = Inr (True, nodes n g0)"
    using connect_loop_eq [OF distinct_upt range_subset assms(2), of stub g0 "(!) rmNodes"] g0
    unfolding visited_range by simp
  have c: "connect_loop rms stub [0 ..< n] rmNodes = Inr (True, nodes n g0)"
    by (subst nodes) (rule c0)
  have p: "prepare_loop ?txn [0 ..< n] (nodes n g0) = Inr (True, nodes n g1)"
    using prepare_loop_eq [OF distinct_upt range_subset, of ?v n ?txn g0 g1] g1
    unfolding all visited_range by simp
  have "decide_loop True t [0 ..< n] (nodes n g1) = Inl Undefined"
    using g1 assms(7) by (intro decide_loop_silence [OF assms(7)]) auto
  then show ?thesis
    using Txn_segment [OF assms(4,5,6)]
    by (simp add: transaction_manager_def Let_def c p flip: assms(1))
qed

lemma failure_after_vote_undefined_witness:
  "transaction_manager demo_client 1 demo_rms
     (\<lambda>i. dialing [Established [id_segment ''Ok'' (demo_conn [])] []]) [dialing []] 0 = Inl Undefined"
  by (rule failure_after_vote_undefined [where n = 1 and k = 0 and x = "\<lambda>i. demo_conn []",
      OF _ _ _ demo_client_facts(1,2) fits_demo _ _ up_dialing(1)]) simp_all

end
