(* ===== verification/TwoPhase.thy ===== *)
theory TwoPhase
  imports TransactionManager
begin

text \<open>
  Two-phase commit as a contract between the transaction manager and its resource managers. The
  locale \<open>participant\<close> holds what a resource manager promises for one transaction; atomicity is
  proved from the promises alone, and the local handlers of the resource manager are shown to keep
  them. The last section closes the system: the byte streams of \<^verbatim>\<open>transaction_manager\<close> and of the
  resource managers' connection threads are fed to each other.
\<close>

section \<open>The contract\<close>

locale participant =
  fixes prepare :: "'t \<Rightarrow> 's \<Rightarrow> 'e + string \<times> 's"
    and commit :: "'t \<Rightarrow> 's \<Rightarrow> 'e + 's"
    and abort :: "'t \<Rightarrow> 's \<Rightarrow> 'e + 's"
    and db :: "'s \<Rightarrow> 'd"
    and write_db :: "'t \<Rightarrow> 'd \<Rightarrow> 'd"
    and accepts :: "'t \<Rightarrow> 'd \<Rightarrow> bool"
    and ready :: "'t \<Rightarrow> 's \<Rightarrow> bool"
    and prepared :: "'t \<Rightarrow> 's \<Rightarrow> 's \<Rightarrow> bool"
  assumes prepare_yes:
      "ready t s \<Longrightarrow> accepts t (db s) \<Longrightarrow> \<exists>s'. prepare t s = Inr (''Ok'', s') \<and> prepared t s s'"
    and prepare_no: "ready t s \<Longrightarrow> \<not> accepts t (db s) \<Longrightarrow> prepare t s = Inr (''No'', s)"
    and commit_prepared: "prepared t s s' \<Longrightarrow> \<exists>s''. commit t s' = Inr s'' \<and> db s'' = write_db t (db s)"
    and abort_prepared: "prepared t s s' \<Longrightarrow> \<exists>s''. abort t s' = Inr s'' \<and> db s'' = db s"
    and abort_ready: "ready t s \<Longrightarrow> \<exists>s'. abort t s = Inr s' \<and> db s' = db s"
begin

text \<open>The two phases over a list of participants, in the order of the transaction manager's loops.\<close>

fun prepare_all :: "'t \<Rightarrow> 's list \<Rightarrow> 'e + bool \<times> 's list" where
  "prepare_all t [] = Inr (True, [])"
| "prepare_all t (s # ss) = bindE (prepare t s) (\<lambda>(vote, s').
     if vote = ''No'' then Inr (False, s' # ss)
     else bindE (prepare_all t ss) (\<lambda>(ok, ss'). Inr (ok, s' # ss')))"

fun decide_all :: "bool \<Rightarrow> 't \<Rightarrow> 's list \<Rightarrow> 'e + 's list" where
  "decide_all ok t [] = Inr []"
| "decide_all ok t (s # ss) = bindE (if ok then commit t s else abort t s) (\<lambda>s'.
     bindE (decide_all ok t ss) (\<lambda>ss'. Inr (s' # ss')))"

definition two_phase :: "'t \<Rightarrow> 's list \<Rightarrow> 'e + bool \<times> 's list" where
  "two_phase t ss = bindE (prepare_all t ss) (\<lambda>(ok, ss').
     bindE (decide_all ok t ss') (\<lambda>ss''. Inr (ok, ss'')))"

definition after_prepare :: "'t \<Rightarrow> 's \<Rightarrow> 's \<Rightarrow> bool" where
  "after_prepare t s s' \<longleftrightarrow> prepared t s s' \<or> ready t s \<and> s' = s"

lemma prepare_all_outcome:
  "\<forall>s \<in> set ss. ready t s \<Longrightarrow>
   \<exists>ss'. prepare_all t ss = Inr (\<forall>s \<in> set ss. accepts t (db s), ss')
     \<and> list_all2 (after_prepare t) ss ss'
     \<and> ((\<forall>s \<in> set ss. accepts t (db s)) \<longrightarrow> list_all2 (prepared t) ss ss')"
proof (induction ss)
  case Nil
  then show ?case by simp
next
  case (Cons s ss)
  have rest: "list_all2 (after_prepare t) ss ss"
    using Cons.prems by (intro list.rel_refl_strong) (simp add: after_prepare_def)
  obtain ss' where ss': "prepare_all t ss = Inr (\<forall>s \<in> set ss. accepts t (db s), ss')"
    "list_all2 (after_prepare t) ss ss'"
    "(\<forall>s \<in> set ss. accepts t (db s)) \<longrightarrow> list_all2 (prepared t) ss ss'"
    using Cons by auto
  show ?case
  proof (cases "accepts t (db s)")
    case True
    then obtain s' where s': "prepare t s = Inr (''Ok'', s')" "prepared t s s'"
      using prepare_yes [of t s] Cons.prems by auto
    then have "after_prepare t s s'" by (simp add: after_prepare_def)
    then show ?thesis using ss' True s' by auto
  next
    case False
    then have "prepare t s = Inr (''No'', s)" "after_prepare t s s"
      using prepare_no [of t s] Cons.prems by (simp_all add: after_prepare_def)
    then show ?thesis using False rest by auto
  qed
qed

lemma commit_all:
  "list_all2 (prepared t) ss ss' \<Longrightarrow>
   \<exists>ss''. decide_all True t ss' = Inr ss'' \<and> map db ss'' = map (\<lambda>s. write_db t (db s)) ss"
proof (induction rule: list_all2_induct)
  case Nil
  then show ?case by simp
next
  case (Cons s ss s' ss')
  then show ?case using commit_prepared [of t s s'] by fastforce
qed

lemma abort_all:
  "list_all2 (after_prepare t) ss ss' \<Longrightarrow>
   \<exists>ss''. decide_all False t ss' = Inr ss'' \<and> map db ss'' = map db ss"
proof (induction rule: list_all2_induct)
  case Nil
  then show ?case by simp
next
  case (Cons s ss s' ss')
  have "\<exists>s''. abort t s' = Inr s'' \<and> db s'' = db s"
    using Cons.hyps(1) abort_prepared [of t s s'] abort_ready [of t s]
    by (auto simp: after_prepare_def)
  then show ?case using Cons.IH by fastforce
qed

lemma all_or_nothing:
  assumes "\<forall>s \<in> set ss. ready t s"
  shows "\<exists>ss'. two_phase t ss = Inr (\<forall>s \<in> set ss. accepts t (db s), ss')
    \<and> map db ss' = (if \<forall>s \<in> set ss. accepts t (db s)
        then map (\<lambda>s. write_db t (db s)) ss else map db ss)"
proof -
  obtain ss1 where ss1: "prepare_all t ss = Inr (\<forall>s \<in> set ss. accepts t (db s), ss1)"
    "list_all2 (after_prepare t) ss ss1"
    "(\<forall>s \<in> set ss. accepts t (db s)) \<longrightarrow> list_all2 (prepared t) ss ss1"
    using prepare_all_outcome [OF assms] by blast
  show ?thesis
  proof (cases "\<forall>s \<in> set ss. accepts t (db s)")
    case True
    then obtain ss2 where "decide_all True t ss1 = Inr ss2"
      "map db ss2 = map (\<lambda>s. write_db t (db s)) ss"
      using ss1(3) commit_all by blast
    then show ?thesis using ss1(1) True by (simp add: two_phase_def)
  next
    case False
    then obtain ss2 where ss2: "decide_all False t ss1 = Inr ss2" "map db ss2 = map db ss"
      using ss1(2) abort_all by blast
    have no: "(\<forall>s \<in> set ss. accepts t (db s)) = False" using False by blast
    show ?thesis using ss1(1) ss2 unfolding no two_phase_def by simp
  qed
qed

end

section \<open>The resource manager keeps the contract\<close>

definition txn_write :: "Transaction \<Rightarrow> cint imap \<Rightarrow> cint imap" where
  "txn_write txn m =
     imap.write_all (map order_write (takeWhile CustomerOrder_IsValid (writeRecords txn))) m"

definition txn_accepts :: "Transaction \<Rightarrow> cint imap \<Rightarrow> bool" where
  "txn_accepts txn m \<longleftrightarrow> reads_consistent (readRecords txn) m"

text \<open>A node between transactions, for a transaction with an id it does not know.\<close>

definition txn_ready :: "Transaction \<Rightarrow> LaptopFactory \<Rightarrow> bool" where
  "txn_ready txn s \<longleftrightarrow> rm_ready s \<and> nothing_pending s \<and> fits txn
     \<and> log_room (length (writeRecords txn)) s \<and> map_find (txn_id txn) (txn_log s) = None"

definition txn_prepared :: "Transaction \<Rightarrow> LaptopFactory \<Rightarrow> LaptopFactory \<Rightarrow> bool" where
  "txn_prepared txn s s' \<longleftrightarrow> txn_ready txn s \<and> only_net (prepared_state txn s) s'"

lemma abort_ready_txn: "rm_ready s \<Longrightarrow> \<exists>s'. abort_txn t s = Inr s' \<and> customer_record s' = customer_record s"
  by (simp add: abort_txn_eq rm_ready_def aborted_state_def)

lemma rm_ready_txn_prepared: "txn_prepared txn s s' \<Longrightarrow> rm_ready s'"
  using rm_ready_prepared only_net_rm_ready by (auto simp: txn_prepared_def txn_ready_def)

interpretation rm: participant prepare_txn "\<lambda>t. commit_txn (txn_id t) eng" "\<lambda>t. abort_txn (txn_id t)"
  customer_record txn_write txn_accepts txn_ready txn_prepared for eng
proof unfold_locales
  fix t :: Transaction and s :: LaptopFactory
  assume ready: "txn_ready t s" and "txn_accepts t (customer_record s)"
  then show "\<exists>s'. prepare_txn t s = Inr (''Ok'', s') \<and> txn_prepared t s s'"
    using prepare_txn_ok [of s t] rm_readyD(1,4) [of s]
    by (auto simp: txn_prepared_def txn_ready_def txn_accepts_def)
next
  fix t :: Transaction and s :: LaptopFactory
  assume "\<not> txn_accepts t (customer_record s)"
  then show "prepare_txn t s = Inr (''No'', s)" by (simp add: prepare_txn_def txn_accepts_def)
next
  fix t :: Transaction and s s' :: LaptopFactory
  assume "txn_prepared t s s'"
  then show "\<exists>s''. commit_txn (txn_id t) eng s' = Inr s'' \<and>
      customer_record s'' = txn_write t (customer_record s)"
    using prepared_commit [of s t s' eng] by (auto simp: txn_prepared_def txn_ready_def txn_write_def)
next
  fix t :: Transaction and s s' :: LaptopFactory
  assume prep: "txn_prepared t s s'"
  then have "customer_record s' = customer_record s"
    using only_net_prepared_fields by (auto simp: txn_prepared_def)
  then show "\<exists>s''. abort_txn (txn_id t) s' = Inr s'' \<and> customer_record s'' = customer_record s"
    using abort_ready_txn [OF rm_ready_txn_prepared [OF prep]] by simp
next
  fix t :: Transaction and s :: LaptopFactory
  assume "txn_ready t s"
  then show "\<exists>s'. abort_txn (txn_id t) s = Inr s' \<and> customer_record s' = customer_record s"
    using abort_ready_txn by (simp add: txn_ready_def)
qed

text \<open>
  Atomicity of the protocol on the resource managers' own operations: preparing at one node after
  the other until one refuses and then committing or aborting at all of them leaves every node with
  the transaction's writes, when all reads were current, and none with any, when one was not.
\<close>

lemma two_phase_all_or_nothing:
  assumes "\<forall>s \<in> set ss. txn_ready txn s"
  shows "\<exists>ss'. rm.two_phase eng txn ss =
      Inr (\<forall>s \<in> set ss. txn_accepts txn (customer_record s), ss')
    \<and> map customer_record ss' = (if \<forall>s \<in> set ss. txn_accepts txn (customer_record s)
        then map (\<lambda>s. txn_write txn (customer_record s)) ss else map customer_record ss)"
  using rm.all_or_nothing [OF assms] .

text \<open>Two nodes with customers 0 and 1 at order 50; the transaction moves customer 0 to order 51.\<close>

lemma txn_ready_demo [simp]: "txn_ready (demo_txn 7 0) demo_rm"
  by (simp add: txn_ready_def)

lemma two_phase_all_or_nothing_witness:
  "\<exists>ss'. rm.two_phase 1 (demo_txn 7 0) [demo_rm, demo_rm] = Inr (True, ss')
     \<and> map customer_record ss' = [[(0, 51), (1, 50)], [(0, 51), (1, 50)]]"
  using two_phase_all_or_nothing [of "[demo_rm, demo_rm]" "demo_txn 7 0" 1]
  by (simp add: txn_accepts_def txn_write_def CustomerOrder_IsValid_def order_write_def
      imap.write_all_def)

section \<open>The closed system\<close>

text \<open>The connection thread of a resource manager on the messages of one transaction.\<close>

definition tm_messages :: "bool \<Rightarrow> bool \<Rightarrow> Transaction \<Rightarrow> ClientStub \<Rightarrow> rx_event list" where
  "tm_messages was_asked ok txn n =
     (if was_asked then [id_segment ''TMPrepare'' n, Segment (Transaction_Marshal (host n) txn)] else [])
     @ [id_segment (verdict ok) n, Segment (net_bytes (txn_id txn))]"

definition done_msg :: "bool \<Rightarrow> string" where
  "done_msg ok = (if ok then ''Done commit'' else ''Done abort'')"

definition vote_of :: "Transaction \<Rightarrow> LaptopFactory \<Rightarrow> string" where
  "vote_of txn f = (if txn_accepts txn (customer_record f) then ''Ok'' else ''No'')"

lemma dispatch_verdict:
  assumes "conn_ok c" and "quiet c" and "rx c = [id_segment (verdict ok) n, Segment (net_bytes i)]"
    and "(if ok then commit_txn i eng f else abort_txn i f) = Inr f'"
  shows "ReceiveIDMsgAndInitiateFlow (Suc (Suc d)) eng c f = Inr (Close (replied [] (done_msg ok) c), f')"
  using assms dispatch_commit [of c n i "[]" eng f f' "Suc d"] dispatch_abort [of c n i "[]" f f' "Suc d" eng]
    dispatch_eof [of "replied [] (done_msg ok) c" d eng f']
  by (cases ok) (simp_all add: verdict_def done_msg_def del: ReceiveIDMsgAndInitiateFlow.simps)

text \<open>The states a connection thread takes its node through.\<close>

definition decided :: "cint \<Rightarrow> Transaction \<Rightarrow> bool \<Rightarrow> LaptopFactory \<Rightarrow> LaptopFactory \<Rightarrow> LaptopFactory \<Rightarrow> bool" where
  "decided eng txn ok f f1 f' \<longleftrightarrow> rm.after_prepare txn f f1 \<and> (ok \<longrightarrow> txn_prepared txn f f1)
     \<and> (if ok then commit_txn (txn_id txn) eng f1 else abort_txn (txn_id txn) f1) = Inr f'"

lemma decided_records:
  "decided eng txn ok f f1 f' \<Longrightarrow>
   customer_record f' = (if ok then txn_write txn (customer_record f) else customer_record f)"
  using rm.commit_prepared [of txn f f1 eng] rm.abort_prepared [of txn f f1] rm.abort_ready [of txn f]
  by (cases ok) (auto simp: decided_def rm.after_prepare_def)

lemma participant_session:
  assumes "txn_ready txn f" and "conn_ok c" and "quiet c" and "sent c = []"
    and "rx c = tm_messages was_asked ok txn n"
    and "ok \<longrightarrow> was_asked \<and> txn_accepts txn (customer_record f)"
  shows "\<exists>c' f1 f'. EngineerIFAThread (Suc (Suc (Suc d))) c eng f = Inr (c', f')
    \<and> sent c' = pending (rm_output was_asked (vote_of txn f) (done_msg ok) c)
    \<and> decided eng txn ok f f1 f'"
proof -
  have fits: "fits txn" using assms(1) by (simp add: txn_ready_def)
  have len: "msg_bytes 10 m x \<noteq> []" for m and x :: ServerStub by simp
  have vote: "\<exists>f1. prepare_txn txn f = Inr (vote_of txn f, f1) \<and> rm.after_prepare txn f f1
      \<and> (txn_accepts txn (customer_record f) \<longrightarrow> txn_prepared txn f f1)"
    using rm.prepare_yes [of txn f] rm.prepare_no [of txn f] assms(1)
    by (auto simp: vote_of_def rm.after_prepare_def)
  have finish: "\<exists>f2. decided eng txn ok f f1 f2"
    if "rm.after_prepare txn f f1" "ok \<longrightarrow> txn_prepared txn f f1" for f1
    using that rm.commit_prepared [of txn f f1 eng] rm.abort_prepared [of txn f f1] rm.abort_ready [of txn f]
    by (cases ok) (auto simp: rm.after_prepare_def decided_def)
  show ?thesis
  proof (cases was_asked)
    case True
    obtain f1 where f1: "prepare_txn txn f = Inr (vote_of txn f, f1)" "rm.after_prepare txn f f1"
      "txn_accepts txn (customer_record f) \<longrightarrow> txn_prepared txn f f1"
      using vote by blast
    then obtain f2 where f2: "decided eng txn ok f f1 f2" using finish assms(6) by blast
    let ?r = "[id_segment (verdict ok) n, Segment (net_bytes (txn_id txn))]"
    let ?c1 = "replied ?r (vote_of txn f) c"
    have "ReceiveIDMsgAndInitiateFlow (Suc (Suc (Suc d))) eng c f
        = Inr (Close (replied [] (done_msg ok) ?c1), f2)"
      using dispatch_prepare [OF assms(2) _ fits f1(1), of n "host n" ?r "Suc (Suc d)" eng] True assms(5)
        dispatch_verdict [of ?c1 ok n "txn_id txn" eng f1 f2 d] f2 assms(2,3)
      by (simp add: tm_messages_def decided_def del: ReceiveIDMsgAndInitiateFlow.simps)
    then show ?thesis
      using f2 True assms(4) len by (auto simp add: thread_eq rm_output_def id_segment_def)
  next
    case False
    then have ok: "\<not> ok" using assms(6) by blast
    have "rm.after_prepare txn f f" using assms(1) by (simp add: rm.after_prepare_def)
    then obtain f2 where f2: "decided eng txn ok f f f2" using finish ok by blast
    have "ReceiveIDMsgAndInitiateFlow (Suc (Suc (Suc d))) eng c f
        = Inr (Close (replied [] (done_msg ok) c), f2)"
      using dispatch_verdict [of c ok n "txn_id txn" eng f f2 "Suc d"] False ok f2 assms(2,3,5)
      by (simp add: tm_messages_def decided_def del: ReceiveIDMsgAndInitiateFlow.simps)
    then show ?thesis
      using f2 False ok assms(4) len by (auto simp add: thread_eq rm_output_def id_segment_def)
  qed
qed

lemma pending_tm_messages:
  "fits txn \<Longrightarrow> pending (tm_messages was_asked ok txn n) = tm_output was_asked ok txn n"
proof -
  have ne: "msg_bytes 10 m n \<noteq> []" "net_bytes i \<noteq> []" for m i
    using length_mem_bytes [of BigEndian i] by (auto simp del: length_mem_bytes)
  have "Transaction_Marshal e txn \<noteq> []" for e
    using length_Transaction_Marshal [of e txn] by auto
  then show ?thesis by (simp add: tm_messages_def tm_output_def id_segment_def ne)
qed

end
