(* ===== verification/Client.thy ===== *)
theory Client
  imports TwoPhase
begin

text \<open>
  The client programs: the bodies of the client threads (\<^verbatim>\<open>ClientThread.cpp\<close>), the two-stage client
  (\<^verbatim>\<open>ClientMain.cpp\<close>) and the abort-rate experiment (\<^verbatim>\<open>Experimental.cpp\<close>). What they print is in
  \<open>Console\<close>; the timers around each request are not modelled here. The write threads of one client push to a shared vector under a lock;
  the order in which they get the lock is a schedule, over which the lemmas quantify.
\<close>

section \<open>Thread bodies\<close>

text \<open>The loop of \<^verbatim>\<open>ThreadBody\<close>: one read request per index, until an empty record comes back.\<close>

fun read_loop ::
  "cint \<Rightarrow> cint list \<Rightarrow> ClientStub \<Rightarrow> CustomerRecord list \<Rightarrow> ClientStub \<times> CustomerRecord list" where
  "read_loop request_type [] stub reads = (stub, reads)"
| "read_loop request_type (i # is) stub reads =
     (if request_type = 3 then
        (case ReadRecord (SetOrder i (-1) 2 new_CustomerOrder) stub of (record, stub1) \<Rightarrow>
           if cr_customer_id record = -1 then (stub1, reads @ [record])
           else read_loop request_type is stub1 (reads @ [record]))
      else (stub, reads))"

definition counted :: "cint \<Rightarrow> cint list" where
  "counted n = map of_nat [0 ..< nat (sint n)]"

text \<open>Connect and send the identification message; \<open>False\<close> when one of them fails.\<close>

definition client_hello :: "string \<Rightarrow> cint \<Rightarrow> ClientStub \<Rightarrow> bool \<times> ClientStub" where
  "client_hello ip port stub =
     (case ClientStub_Init ip port stub of (ok, stub1) \<Rightarrow>
        if ok = 0 then (False, stub1)
        else case SendIDMsg ''CLIENT'' stub1 of (r, stub2) \<Rightarrow> (\<not> r \<le> 0, stub2))"

definition ThreadBody ::
  "string \<Rightarrow> cint \<Rightarrow> cint \<Rightarrow> cint \<Rightarrow> ClientStub \<Rightarrow> CustomerRecord list \<Rightarrow>
   ClientStub \<times> CustomerRecord list" where
  "ThreadBody ip port orders request_type stub reads =
     (case client_hello ip port stub of (ok, stub1) \<Rightarrow>
        if \<not> ok then (stub1, reads)
        else read_loop request_type (counted orders) stub1 reads)"

definition ThreadBodyReadRequestSingle ::
  "string \<Rightarrow> cint \<Rightarrow> cint \<Rightarrow> cint \<Rightarrow> ClientStub \<Rightarrow> CustomerRecord list \<Rightarrow>
   ClientStub \<times> CustomerRecord list" where
  "ThreadBodyReadRequestSingle ip port orders request_type stub reads =
     (case client_hello ip port stub of (ok, stub1) \<Rightarrow>
        if \<not> ok then (stub1, reads)
        else if request_type = 3 then
          (case ReadRecord (SetOrder orders (-1) 2 new_CustomerOrder) stub1 of (record, stub2) \<Rightarrow>
             (stub2, reads @ [record]))
        else (stub1, reads))"

text \<open>
  \<^verbatim>\<open>ThreadBodyWriteRequest\<close>: the orders one write thread pushes. The comparison
  \<^verbatim>\<open>customer_id < readRecords.size()\<close> is one of \<^verbatim>\<open>size_t\<close>.
\<close>

definition last_order_read :: "cint \<Rightarrow> CustomerRecord list \<Rightarrow> cint" where
  "last_order_read customer_id reads =
     (if unat (scast customer_id :: 64 word) < length reads
         \<and> 0 < sint (cr_last_order (reads ! unat (scast customer_id :: 64 word)))
      then cr_last_order (reads ! unat (scast customer_id :: 64 word)) else 0)"

definition ThreadBodyWriteRequest ::
  "cint \<Rightarrow> cint \<Rightarrow> cint \<Rightarrow> CustomerRecord list \<Rightarrow> CustomerOrder list" where
  "ThreadBodyWriteRequest customer_id num_orders request_type reads =
     map (\<lambda>i. SetOrder customer_id (of_nat i + last_order_read customer_id reads) request_type
           new_CustomerOrder) [1 ..< Suc (nat (sint num_orders))]"

text \<open>The shared vector after all threads have pushed, in the order of the schedule.\<close>

fun merge :: "nat list \<Rightarrow> 'a list list \<Rightarrow> 'a list option" where
  "merge [] xss = (if \<forall>xs \<in> set xss. xs = [] then Some [] else None)"
| "merge (k # ks) xss =
     (if k < length xss then
        (case xss ! k of [] \<Rightarrow> None
         | x # xs \<Rightarrow> map_option ((#) x) (merge ks (xss[k := xs])))
      else None)"

section \<open>The programs\<close>

text \<open>The transaction a client builds; the id is left uninitialised.\<close>

definition client_txn :: "cint \<Rightarrow> CustomerRecord list \<Rightarrow> CustomerOrder list \<Rightarrow> Transaction" where
  "client_txn uninit reads writes =
     setLenWriteRecords (of_nat (length writes)) (setLenReadRecords (of_nat (length reads))
       (new_Transaction (uninit, 0, 0) reads writes))"

text \<open>One line of input: request type, address, and the two counts.\<close>

record stage =
  st_request_type :: cint
  st_ip :: string
  st_port :: cint
  st_num_customers :: cint
  st_num_orders :: cint

text \<open>
  \<^verbatim>\<open>main\<close> of the client. More than one reading thread would push to the shared vector without a
  lock, which is undefined. \<open>None\<close>: the schedule does not fit the threads. The result is the printed reply.
\<close>

definition client_main ::
  "stage \<Rightarrow> stage \<Rightarrow> nat list \<Rightarrow> cint \<Rightarrow> ClientStub \<Rightarrow> ClientStub \<Rightarrow> (crash + string \<times> ClientStub) option" where
  "client_main st1 st2 schedule uninit rm_stub tm_stub =
     (if 1 < sint (st_num_customers st1) then Some (Inl Undefined) else
      let reads = (if st_num_customers st1 = 1
            then snd (ThreadBody (st_ip st1) (st_port st1) (st_num_orders st1) (st_request_type st1)
                   rm_stub [])
            else []);
          pushed = map (\<lambda>i. ThreadBodyWriteRequest i (st_num_orders st2) (st_request_type st2) reads)
            (counted (st_num_customers st2))
      in case merge schedule pushed of
           None \<Rightarrow> None
         | Some writes \<Rightarrow>
             Some (SendTxnPrepareRequest (client_txn uninit reads writes)
                     (snd (ClientStub_Init (st_ip st2) (st_port st2) tm_stub))))"

text \<open>\<^verbatim>\<open>experiment\<close>: one read and one write thread; the result is 0 for the reply \<^verbatim>\<open>Failed\<close>, else 1.\<close>

definition experiment_txn :: "cint \<Rightarrow> CustomerRecord list \<Rightarrow> cint \<Rightarrow> cint \<Rightarrow> Transaction" where
  "experiment_txn uninit reads num_orders curr_customer =
     client_txn uninit reads (ThreadBodyWriteRequest curr_customer num_orders 1 reads)"

definition run_experiment ::
  "string \<Rightarrow> cint \<Rightarrow> string \<Rightarrow> cint \<Rightarrow> cint \<Rightarrow> cint \<Rightarrow> cint \<Rightarrow> ClientStub \<Rightarrow> ClientStub \<Rightarrow> crash + cint" where
  "run_experiment tmip tmport rmip rmport num_orders curr_customer uninit rm_stub tm_stub =
     (let reads = snd (ThreadBodyReadRequestSingle rmip rmport curr_customer 3 rm_stub [])
      in bindE (SendTxnPrepareRequest (experiment_txn uninit reads num_orders curr_customer)
                  (snd (ClientStub_Init tmip tmport tm_stub)))
           (\<lambda>(result, _). Inr (if result = ''Failed'' then 0 else 1)))"

text \<open>The aborts that \<^verbatim>\<open>main\<close> of the experiment counts over the rounds' results.\<close>

definition count_aborts :: "cint list list \<Rightarrow> cint" where
  "count_aborts rounds =
     fold (\<lambda>results aborts. fold (\<lambda>result a. if result = 0 then a + 1 else a) results aborts) rounds 0"

section \<open>Reading from a node\<close>

text \<open>The records a reading thread gets from a node: up to and with the first unknown customer.\<close>

fun read_until :: "LaptopFactory \<Rightarrow> cint list \<Rightarrow> CustomerRecord list" where
  "read_until f [] = []"
| "read_until f (i # is) =
     (let r = lookup_record i f in r # (if cr_customer_id r = -1 then [] else read_until f is))"

definition read_order :: "cint \<Rightarrow> CustomerOrder" where
  "read_order i = SetOrder i (-1) 2 new_CustomerOrder"

definition requested :: "LaptopFactory \<Rightarrow> cint list \<Rightarrow> cint list" where
  "requested f is = take (length (read_until f is)) is"

lemma requested_Cons: "requested f (i # is) =
    i # (if cr_customer_id (lookup_record i f) = -1 then [] else requested f is)"
  by (simp add: requested_def Let_def)

lemma read_loop_replies:
  assumes "is_initialized stub" and "tx stub = []"
    and "rx stub = map (\<lambda>r. Segment (raw_record (host stub) r)) (read_until f is)"
  shows "\<exists>stub'. read_loop 3 is stub rs = (stub', rs @ read_until f is)
    \<and> sent stub' = sent stub @ concat (map (\<lambda>i. raw_order (host stub) (read_order i)) (requested f is))"
  using assms
proof (induction "is" arbitrary: stub rs)
  case Nil
  then show ?case by (simp add: requested_def)
next
  case (Cons i "is")
  let ?rec = "lookup_record i f"
  let ?rest = "if cr_customer_id ?rec = -1 then [] else read_until f is"
  let ?r = "map (\<lambda>r. Segment (raw_record (host stub) r)) ?rest"
  let ?stub1 = "stub\<lparr>rx := ?r, sent := sent stub @ raw_order (host stub) (read_order i)\<rparr>"
  have step: "ReadRecord (read_order i) stub = (?rec, ?stub1)"
    using Cons.prems by (intro ReadRecord_segment) (simp_all add: Let_def)
  show ?case
  proof (cases "cr_customer_id ?rec = -1")
    case True
    then show ?thesis
      using step by (simp add: requested_Cons Let_def flip: read_order_def)
  next
    case False
    then show ?thesis
      using step Cons.IH [of ?stub1 "rs @ [?rec]"] Cons.prems
      by (simp add: requested_Cons Let_def flip: read_order_def)
  qed
qed

lemma answers_requested: "answers f (map read_order (requested f is)) = read_until f is"
proof (induction "is")
  case Nil
  then show ?case by (simp add: answers_def requested_def)
next
  case (Cons i "is")
  then show ?case
    by (simp add: requested_Cons answers_def Let_def read_order_def SetOrder_def)
qed

lemma counted_nonneg: "i \<in> set (counted n) \<Longrightarrow> 0 \<le> sint i"
proof -
  assume "i \<in> set (counted n)"
  then obtain j where j: "i = of_nat j" "j < nat (sint n)" by (auto simp: counted_def)
  have "sint n < 2 ^ 31" using sint_range_size [of n] by (simp add: word_size)
  then show ?thesis using j sint_of_small_int [of "int j"] by simp
qed

lemma counted_valid: "i \<in> set (counted n) \<Longrightarrow> i \<noteq> -1"
  using counted_nonneg [of i n] by auto

text \<open>A client whose connection is accepted: the first connection attempt and the identification message.\<close>

lemma client_connects:
  fixes ip :: string and port :: cint
  assumes "\<not> is_initialized stub" and "dials stub = Established r [] # dd"
  defines "s1 \<equiv> stub\<lparr>is_initialized := True, rx := r, tx := [], sent := [], dials := dd, target := (ip, port)\<rparr>"
  shows "ClientStub_Init ip port stub = (1, s1)"
    and "SendIDMsg ''CLIENT'' s1 = (1, s1\<lparr>sent := msg_bytes 10 ''CLIENT'' s1\<rparr>)"
  using assms(1,2) by (simp_all add: s1_def ClientStub_Init_def ClientSocket_Init_def SendIDMsg_idle)

text \<open>
  C33. A client's read stage against a node: the thread's requests and the node's answers, each
  side running on the bytes of the other, give the client the node's records of customers 0, 1, 2,
  and so on, up to the number asked for or to the first customer the node does not know, whose empty
  record ends the list; the node is unchanged.
\<close>

theorem client_reads_node:
  assumes "\<not> is_initialized stub"
    and "dials stub = Established (map (\<lambda>r. Segment (raw_record (host stub) r))
          (read_until f (counted k))) [] # dd"
    and "conn_ok c" and "host c = host stub" and "sent c = []"
    and "rx c = id_segment ''CLIENT'' stub # map (\<lambda>i. Segment (raw_order (host c) (read_order i)))
          (requested f (counted k))"
  shows "\<exists>stub' c'. ThreadBody ip port k 3 stub [] = (stub', read_until f (counted k))
    \<and> sent stub' = pending (rx c)
    \<and> EngineerIFAThread (Suc d) c eng f = Inr (c', f)
    \<and> sent c' = concat (map (raw_record (host stub)) (read_until f (counted k)))"
proof -
  let ?replies = "map (\<lambda>r. Segment (raw_record (host stub) r)) (read_until f (counted k))"
  let ?s1 = "stub\<lparr>is_initialized := True, rx := ?replies, tx := [], sent := [], dials := dd,
      target := (ip, port)\<rparr>"
  let ?s2 = "?s1\<lparr>sent := msg_bytes 10 ''CLIENT'' ?s1\<rparr>"
  have hello: "client_hello ip port stub = (True, ?s2)"
    using client_connects [OF assms(1,2), of ip port] by (simp add: client_hello_def)
  have same: "msg_bytes 10 ''CLIENT'' ?s1 = msg_bytes 10 ''CLIENT'' stub"
    by (rule msg_bytes_junk) simp
  obtain stub' where stub': "read_loop 3 (counted k) ?s2 [] = (stub', read_until f (counted k))"
    "sent stub' = sent ?s2 @ concat (map (\<lambda>i. raw_order (host ?s2) (read_order i)) (requested f (counted k)))"
    using read_loop_replies [of ?s2 f "counted k" "[]"] by auto
  have valid: "\<forall>o' \<in> set (map read_order (requested f (counted k))). CustomerOrder_IsValid o'"
    using counted_valid [of _ k] set_take_subset [of "length (read_until f (counted k))" "counted k"]
    by (auto simp: read_order_def CustomerOrder_IsValid_def SetOrder_def requested_def)
  obtain c' where c': "EngineerIFAThread (Suc d) c eng f = Inr (c', f)"
    "sent c' = sent c @ concat (map (raw_record (host c))
        (answers f (map read_order (requested f (counted k)))))"
    using client_session [OF assms(3) _ valid, of stub d eng f] assms(6) by (auto simp: comp_def)
  have bytes: "pending (map (\<lambda>i. Segment (raw_order e (read_order i))) is)
      = concat (map (\<lambda>i. raw_order e (read_order i)) is)" for e "is"
    by (induction "is") simp_all
  have "sent stub' = pending (rx c)"
    using stub'(2) by (simp add: assms(4,6) same id_segment_def bytes)
  then show ?thesis
    using hello stub'(1) c' assms(4,5) by (simp add: ThreadBody_def answers_requested)
qed

text \<open>Witness: a client that asks the node with customers 0 and 1 for three records.\<close>

lemma counted_3: "counted 3 = [0, 1, 2]"
proof -
  have "nat (sint (3 :: cint)) = Suc (Suc (Suc 0))" by simp
  then show ?thesis by (simp only: counted_def) (simp add: upt_rec)
qed

lemma read_until_demo: "read_until demo_rm (counted 3) = [\<lparr>cr_customer_id = 0, cr_last_order = 50\<rparr>,
    \<lparr>cr_customer_id = 1, cr_last_order = 50\<rparr>, \<lparr>cr_customer_id = -1, cr_last_order = -1\<rparr>]"
  by (simp add: counted_3 Let_def lookup_record_def setLastOrder_def setCustomerId_def
      new_CustomerRecord_def)

lemma client_reads_node_witness:
  "\<exists>stub0 c0 stub' c'. ThreadBody ''rm'' 5000 3 3 stub0 [] = (stub', [\<lparr>cr_customer_id = 0,
       cr_last_order = 50\<rparr>, \<lparr>cr_customer_id = 1, cr_last_order = 50\<rparr>,
       \<lparr>cr_customer_id = -1, cr_last_order = -1\<rparr>])
     \<and> EngineerIFAThread (Suc 0) c0 1 demo_rm = Inr (c', demo_rm)"
proof -
  let ?stub = "dialing [Established (map (\<lambda>r. Segment (raw_record LittleEndian r))
      (read_until demo_rm (counted 3))) []]"
  let ?c = "demo_conn (id_segment ''CLIENT'' ?stub # map (\<lambda>i. Segment (raw_order LittleEndian
      (read_order i))) (requested demo_rm (counted 3)))"
  have host: "host ?stub = LittleEndian"
    by (simp add: dialing_def new_ClientSocket_def new_Socket_def Socket.extend_def)
  have stub: "\<not> is_initialized ?stub" "dials ?stub = Established (map (\<lambda>r. Segment (raw_record
      (host ?stub) r)) (read_until demo_rm (counted 3))) [] # []"
    by (simp_all add: host)
  have c: "host ?c = host ?stub" "sent ?c = []" "rx ?c = id_segment ''CLIENT'' ?stub
      # map (\<lambda>i. Segment (raw_order (host ?c) (read_order i))) (requested demo_rm (counted 3))"
    by (simp_all add: host)
  show ?thesis
    using client_reads_node [OF stub conn_ok_demo(1) c, of "''rm''" 5000 0 1]
    unfolding read_until_demo by blast
qed

section \<open>Conflicts\<close>

lemma read_until_records:
  "r \<in> set (read_until f is) \<Longrightarrow> \<exists>i \<in> set is. r = lookup_record i f"
  by (induction "is") (auto simp: Let_def split: if_splits)

lemma lookup_known: "map_find i (customer_record f) = Some v \<Longrightarrow>
    lookup_record i f = \<lparr>cr_customer_id = i, cr_last_order = v\<rparr>"
  by (simp add: lookup_record_def setLastOrder_def setCustomerId_def new_CustomerRecord_def)

lemma lookup_unknown: "map_find i (customer_record f) = None \<Longrightarrow>
    lookup_record i f = \<lparr>cr_customer_id = -1, cr_last_order = -1\<rparr>"
  by (simp add: lookup_record_def new_CustomerRecord_def)

text \<open>
  C18. Conflict detection: a transaction built from what a client read at one time is accepted by the
  node at a later time exactly when no customer that was found by the read and still exists has
  got another last order in between. (Customer -1 stands for the customers that were not found; a
  customer that has appeared since the read is not noticed.)
\<close>

theorem conflict_detection:
  assumes "map_find (-1) (customer_record later) \<in> {None, Some (-1)}"
    and "\<forall>i \<in> set is. i \<noteq> -1"
  shows "txn_accepts (client_txn uninit (read_until f is) writes) (customer_record later) \<longleftrightarrow>
    (\<forall>r \<in> set (read_until f is). \<forall>v. cr_customer_id r \<noteq> -1 \<longrightarrow>
       map_find (cr_customer_id r) (customer_record later) = Some v \<longrightarrow>
       map_find (cr_customer_id r) (customer_record f) = Some v)"
proof -
  have rec: "(cr_customer_id r = -1 \<and> cr_last_order r = -1) \<or> (cr_customer_id r \<noteq> -1
      \<and> map_find (cr_customer_id r) (customer_record f) = Some (cr_last_order r))"
    if r: "r \<in> set (read_until f is)" for r
  proof -
    obtain i where i: "i \<in> set is" "r = lookup_record i f" using read_until_records [OF r] by blast
    then show ?thesis
      using assms(2) lookup_known [of i f] lookup_unknown [of i f]
      by (cases "map_find i (customer_record f)") auto
  qed
  have "map_find (cr_customer_id r) (customer_record later) \<in> {None, Some (cr_last_order r)}
      \<longleftrightarrow> (\<forall>v. cr_customer_id r \<noteq> -1 \<longrightarrow>
        map_find (cr_customer_id r) (customer_record later) = Some v \<longrightarrow>
        map_find (cr_customer_id r) (customer_record f) = Some v)"
    if "r \<in> set (read_until f is)" for r
    using rec [OF that] assms(1) by (cases "map_find (cr_customer_id r) (customer_record later)") auto
  then show ?thesis
    by (simp add: txn_accepts_def reads_consistent_iff client_txn_def setLenReadRecords_def
        setLenWriteRecords_def new_Transaction_def)
qed

lemma conflict_detection_witness:
  "txn_accepts (client_txn 0 (read_until demo_rm (counted 3)) []) (customer_record demo_rm)
   \<and> \<not> txn_accepts (client_txn 0 (read_until demo_rm (counted 3)) [])
       (customer_record (demo_rm\<lparr>customer_record := [(0, 51), (1, 50)]\<rparr>))"
proof -
  have ids: "\<forall>i \<in> set (counted 3). i \<noteq> -1" by (simp add: counted_3)
  show ?thesis
    using conflict_detection [OF _ ids, of demo_rm 0 demo_rm "[]"]
      conflict_detection [OF _ ids, of "demo_rm\<lparr>customer_record := [(0, 51), (1, 50)]\<rparr>" 0 demo_rm "[]"]
    unfolding read_until_demo by simp
qed

section \<open>What a client writes\<close>

lemma merge_filter:
  assumes "merge ks xss = Some ws" and "k < length xss"
    and "\<forall>j < length xss. \<forall>x \<in> set (xss ! j). P x \<longleftrightarrow> j = k"
  shows "filter P ws = xss ! k"
  using assms
proof (induction ks arbitrary: xss ws)
  case Nil
  then have "\<forall>xs \<in> set xss. xs = []" "ws = []" by (simp_all split: if_splits)
  then show ?case using nth_mem [OF Nil.prems(2)] by auto
next
  case (Cons j ks)
  then obtain x xs ws' where j: "j < length xss" "xss ! j = x # xs" "ws = x # ws'"
    "merge ks (xss[j := xs]) = Some ws'"
    by (auto split: if_splits list.splits)
  have sub: "\<forall>i < length xss. \<forall>y \<in> set (xss[j := xs] ! i). P y \<longleftrightarrow> i = k"
    using Cons.prems(3) j(1,2) by (auto simp: nth_list_update)
  have rest: "filter P ws' = xss[j := xs] ! k"
    using Cons.IH [OF j(4)] Cons.prems(2) sub by simp
  have "P x \<longleftrightarrow> j = k" using Cons.prems(3) j(1,2) by auto
  then show ?case using rest j Cons.prems(2) by (cases "j = k") simp_all
qed

lemma map_of_rev_filter:
  "map_of (rev xs) k = (if filter (\<lambda>p. fst p = k) xs = [] then None
     else Some (snd (last (filter (\<lambda>p. fst p = k) xs))))"
  by (induction xs) (auto simp: map_add_def split: option.splits)

lemma merge_elements: "merge ks xss = Some ws \<Longrightarrow> set ws = \<Union> (set ` set xss)"
proof (induction ks arbitrary: xss ws)
  case Nil
  then show ?case by (auto split: if_splits)
next
  case (Cons j ks)
  then obtain x xs ws' where j: "j < length xss" "xss ! j = x # xs" "ws = x # ws'"
    "merge ks (xss[j := xs]) = Some ws'"
    by (auto split: if_splits list.splits)
  have "set xss = set (take j xss) \<union> {x # xs} \<union> set (drop (Suc j) xss)"
  proof -
    have "xss = take j xss @ (x # xs) # drop (Suc j) xss"
      using id_take_nth_drop [OF j(1)] j(2) by simp
    then have "set xss = set (take j xss @ (x # xs) # drop (Suc j) xss)" by (rule arg_cong)
    then show ?thesis by (simp add: Un_commute)
  qed
  moreover have "set (xss[j := xs]) = set (take j xss) \<union> {xs} \<union> set (drop (Suc j) xss)"
    using j(1) by (simp add: upd_conv_take_nth_drop)
  ultimately have "\<Union> (set ` set xss) = insert x (\<Union> (set ` set (xss[j := xs])))"
    by auto
  then show ?case using Cons.IH [OF j(4)] j(3) by simp
qed

text \<open>The orders of one write thread, and the last of them.\<close>

lemma write_orders: "w \<in> set (ThreadBodyWriteRequest c n ty rs) \<Longrightarrow> co_customer_id w = c"
  by (auto simp: ThreadBodyWriteRequest_def SetOrder_def)

lemma last_write_order:
  assumes "0 < sint n"
  shows "ThreadBodyWriteRequest c n ty rs \<noteq> []"
    and "co_order_number (last (ThreadBodyWriteRequest c n ty rs)) = last_order_read c rs + n"
proof -
  have pos: "0 < nat (sint n)" using assms by simp
  have upt: "[1 ..< Suc (nat (sint n))] = [1 ..< nat (sint n)] @ [nat (sint n)]"
    by (rule upt_Suc_append) (use pos in linarith)
  show "ThreadBodyWriteRequest c n ty rs \<noteq> []" unfolding ThreadBodyWriteRequest_def upt by simp
  have "(of_nat (nat (sint n)) :: cint) = word_of_int (sint n)" using assms by simp
  then show "co_order_number (last (ThreadBodyWriteRequest c n ty rs)) = last_order_read c rs + n"
    unfolding ThreadBodyWriteRequest_def upt by (simp add: SetOrder_def add.commute)
qed

lemma nth_counted:
  assumes "i < nat (sint n)"
  shows "counted n ! i = of_nat i" and "length (counted n) = nat (sint n)"
  using assms by (simp_all add: counted_def)

lemma of_nat_counted_inj:
  assumes "i < nat (sint (n :: cint))" and "j < nat (sint n)" and "(of_nat i :: cint) = of_nat j"
  shows "i = j"
proof -
  have n: "sint n < 2 ^ 31" using sint_range_size [of n] by (simp add: word_size)
  have "int i = sint (of_nat i :: cint)"
    using n assms(1) sint_of_small_int [of "int i"] by simp
  also have "\<dots> = sint (of_nat j :: cint)" by (simp only: assms(3))
  also have "\<dots> = int j"
    using n assms(2) sint_of_small_int [of "int j"] by simp
  finally show ?thesis by simp
qed

text \<open>
  C17. The effect of a client's transaction does not depend on how its write threads interleave:
  whatever the schedule, committing the transaction moves each of the customers 0 to \<open>m - 1\<close> on by
  the number of orders, from the last order the client read (or from 0), and changes no other
  customer.
\<close>

theorem client_transaction_effect:
  assumes "merge schedule (map (\<lambda>i. ThreadBodyWriteRequest i n ty rs) (counted m)) = Some ws"
    and "0 < sint n" and "map_ok db"
  shows "map_find k (txn_write (client_txn uninit rs ws) db) =
    (if k \<in> set (counted m) then Some (last_order_read k rs + n) else map_find k db)"
proof -
  let ?xss = "map (\<lambda>i. ThreadBodyWriteRequest i n ty rs) (counted m)"
  have ids: "\<exists>i \<in> set (counted m). co_customer_id w = i" if "w \<in> set ws" for w
    using that merge_elements [OF assms(1)] write_orders by fastforce
  have valid: "takeWhile CustomerOrder_IsValid ws = ws"
    using ids counted_valid by (fastforce simp: takeWhile_eq_all_conv CustomerOrder_IsValid_def)
  have "filter (\<lambda>p. fst p = k) (map order_write ws) = map order_write (filter (\<lambda>w. co_customer_id w = k) ws)"
    by (simp add: filter_map comp_def order_write_def)
  moreover have "filter (\<lambda>w. co_customer_id w = k) ws
      = (if k \<in> set (counted m) then ThreadBodyWriteRequest k n ty rs else [])"
  proof (cases "k \<in> set (counted m)")
    case True
    then obtain i where i: "i < nat (sint m)" "k = of_nat i" by (auto simp: counted_def)
    have own: "\<forall>j < length ?xss. \<forall>w \<in> set (?xss ! j). co_customer_id w = k \<longleftrightarrow> j = i"
    proof (intro allI impI ballI)
      fix j w
      assume j: "j < length ?xss" and w: "w \<in> set (?xss ! j)"
      then have "j < nat (sint m)" by (simp add: counted_def)
      then have "co_customer_id w = of_nat j"
        using w write_orders by (simp add: nth_counted counted_def)
      then show "co_customer_id w = k \<longleftrightarrow> j = i"
        using i of_nat_counted_inj [OF \<open>j < nat (sint m)\<close> i(1)] by auto
    qed
    have "i < length ?xss" using i(1) by (simp add: counted_def)
    from merge_filter [OF assms(1) this own] show ?thesis
      using True i by (simp add: counted_def)
  next
    case False
    then show ?thesis using ids by (auto simp: filter_empty_conv)
  qed
  ultimately have "map_of (rev (map order_write ws)) k =
      (if k \<in> set (counted m) then Some (last_order_read k rs + n) else None)"
    using last_write_order [OF assms(2)]
    by (simp add: map_of_rev_filter last_map order_write_def)
  then show ?thesis
    using imap.find_write_all [OF assms(3)]
    by (simp add: txn_write_def client_txn_def setLenReadRecords_def setLenWriteRecords_def
        new_Transaction_def valid)
qed

text \<open>Witness: customers 0 and 1, two orders each, the threads' pushes alternating.\<close>

lemma client_transaction_effect_witness:
  "\<exists>ws. merge [0, 1, 0, 1] (map (\<lambda>i. ThreadBodyWriteRequest i 2 1
       (read_until demo_rm (counted 3))) (counted 2)) = Some ws
     \<and> map_find 1 (txn_write (client_txn 0 (read_until demo_rm (counted 3)) ws)
          (customer_record demo_rm)) = Some 52"
proof -
  let ?rs = "read_until demo_rm (counted 3)"
  have two: "counted 2 = [0, 1]"
  proof -
    have "nat (sint (2 :: cint)) = Suc (Suc 0)" by simp
    then show ?thesis by (simp only: counted_def) (simp add: upt_rec)
  qed
  have last: "last_order_read 0 ?rs = 50" "last_order_read 1 ?rs = 50"
    by (simp_all add: last_order_read_def read_until_demo)
  have orders: "ThreadBodyWriteRequest c 2 1 ?rs = [SetOrder c (1 + last_order_read c ?rs) 1 new_CustomerOrder,
      SetOrder c (2 + last_order_read c ?rs) 1 new_CustomerOrder]" for c
  proof -
    have "nat (sint (2 :: cint)) = Suc (Suc 0)" by simp
    then show ?thesis by (simp only: ThreadBodyWriteRequest_def) (simp add: upt_rec)
  qed
  have "\<exists>ws. merge [0, 1, 0, 1] (map (\<lambda>i. ThreadBodyWriteRequest i 2 1 ?rs) (counted 2)) = Some ws"
    by (simp add: two orders)
  then obtain ws where ws: "merge [0, 1, 0, 1] (map (\<lambda>i. ThreadBodyWriteRequest i 2 1 ?rs) (counted 2)) = Some ws"
    by blast
  have "map_ok (customer_record demo_rm)" by (simp add: map_ok_def)
  from client_transaction_effect [OF ws _ this, of 1 0] show ?thesis
    using ws by (auto simp: two last)
qed

text \<open>
  The experiment's write does not use what was read: its reading thread keeps a single record, at
  index 0, and the write thread looks the customer up by number, so for every customer but 0 the
  order number written is 1, whatever the customer's last order.
\<close>

lemma experiment_restarts_numbering:
  assumes "length rs \<le> 1" and "0 < sint c"
  shows "writeRecords (experiment_txn uninit rs 1 c) =
    [\<lparr>co_customer_id = c, co_order_number = 1, co_request_type = 1\<rparr>]"
proof -
  have "unat (scast c :: 64 word) \<noteq> 0"
  proof
    assume "unat (scast c :: 64 word) = 0"
    then have "(scast c :: 64 word) = 0" by (simp only: unat_eq_0)
    then have "sint (scast c :: 64 word) = 0" by (simp only: signed_0)
    moreover have "sint (scast c :: 64 word) = sint c"
      by (rule sint_up_scast) (simp add: is_up)
    ultimately show False using assms(2) by linarith
  qed
  then have "last_order_read c rs = 0" using assms(1) by (simp add: last_order_read_def)
  moreover have "nat (sint (1 :: cint)) = Suc 0" by simp
  ultimately have "ThreadBodyWriteRequest c 1 1 rs
      = [\<lparr>co_customer_id = c, co_order_number = 1, co_request_type = 1\<rparr>]"
    by (simp only: ThreadBodyWriteRequest_def) (simp add: SetOrder_def new_CustomerOrder_def upt_rec)
  then show ?thesis
    by (simp add: experiment_txn_def client_txn_def setLenWriteRecords_def setLenReadRecords_def
        new_Transaction_def)
qed

lemma experiment_restarts_numbering_witness:
  "writeRecords (experiment_txn 0 [\<lparr>cr_customer_id = 3, cr_last_order = 50\<rparr>] 1 3) =
     [\<lparr>co_customer_id = 3, co_order_number = 1, co_request_type = 1\<rparr>]"
  by (rule experiment_restarts_numbering) simp_all

end
