(* ===== verification/Startup.thy ===== *)
theory Startup
  imports Client
begin

text \<open>
  The start of the programs: \<^verbatim>\<open>main\<close> of the resource manager (\<^verbatim>\<open>ServerMain.cpp\<close>), with the arguments it
  reads, the state it builds and the connections it then serves, and what both servers do with
  too short an argument list. Connections are served one after the other here, each by its thread
  function; the program runs the threads concurrently.
\<close>

section \<open>Resource manager\<close>

text \<open>The backup fields of a peer stay empty; its backup port is never initialised (\<open>uninit\<close>).\<close>

definition server_peer :: "cint \<Rightarrow> string list \<Rightarrow> nat \<Rightarrow> crash + peer_servers_info" where
  "server_peer uninit argv i =
     bindE (arg_int argv i) (\<lambda>pid.
     bindE (arg argv (i + 1)) (\<lambda>ip.
     bindE (arg_int argv (i + 2)) (\<lambda>port.
       Inr \<lparr>peer_id = pid, peer_ip = ip, peer_port = port, peer_backup_ip = [],
            peer_backup_port = uninit\<rparr>)))"

fun server_peers :: "cint \<Rightarrow> nat \<Rightarrow> string list \<Rightarrow> nat \<Rightarrow> crash + peer_servers_info list" where
  "server_peers uninit 0 argv i = Inr []"
| "server_peers uninit (Suc k) argv i =
     bindE (server_peer uninit argv i) (\<lambda>p.
       bindE (server_peers uninit k argv (i + 3)) (\<lambda>ps. Inr (p # ps)))"

text \<open>
  Up to the accept loop. \<open>None\<close>: too few arguments. When the port cannot be opened, \<^verbatim>\<open>main\<close> returns
  while the admin thread is joinable, and its destructor ends the process. The admin thread has id 0.
\<close>

definition server_start ::
  "cint \<Rightarrow> string list \<Rightarrow> (nat \<Rightarrow> ClientStub) \<Rightarrow> disk \<Rightarrow> ServerSocket \<Rightarrow>
   crash + (LaptopFactory \<times> ServerSocket) option" where
  "server_start uninit argv stub d socket =
     (if length argv < 4 then Inr None
      else bindE (arg_int argv 1) (\<lambda>port.
        bindE (arg_int argv 2) (\<lambda>unique_id.
        bindE (arg_int argv 3) (\<lambda>peer_cnt.
        bindE (server_peers uninit (nat (sint peer_cnt)) argv 4) (\<lambda>ps.
          let factory = setFactoryId unique_id (new_LaptopFactory stub ps peer_cnt d)
          in case ServerSocket_Init port socket of
               (False, _) \<Rightarrow> Inl Terminate
             | (True, socket') \<Rightarrow> Inr (Some (factory, socket')))))))"

text \<open>The accept loop; \<open>engineer_cnt\<close> numbers the connections from 1.\<close>

function server_serve ::
  "nat \<Rightarrow> ServerSocket \<Rightarrow> cint \<Rightarrow> LaptopFactory \<Rightarrow> crash + LaptopFactory" where
  "server_serve depth socket engineer_cnt factory =
     (case Accept_conn socket of
        (None, _) \<Rightarrow> Inr factory
      | (Some conn, socket') \<Rightarrow>
          bindE (EngineerIFAThread depth conn engineer_cnt factory)
            (\<lambda>(_, factory'). server_serve depth socket' (engineer_cnt + 1) factory'))"
  by pat_completeness auto
termination
  by (relation "measure (\<lambda>(depth, socket, n, f). length (backlog socket))")
    (auto dest: Accept_backlog [OF sym])

declare server_serve.simps [simp del]

text \<open>
  The whole \<^verbatim>\<open>main\<close>: it returns only when there are too few arguments. Behind the accept loop the vector of
  threads is destroyed while the admin thread, which never ends, is joinable: \<^verbatim>\<open>std::terminate\<close>.
\<close>

definition server_main ::
  "nat \<Rightarrow> cint \<Rightarrow> string list \<Rightarrow> (nat \<Rightarrow> ClientStub) \<Rightarrow> disk \<Rightarrow> ServerSocket \<Rightarrow> crash + unit" where
  "server_main depth uninit argv stub d socket =
     bindE (server_start uninit argv stub d socket) (\<lambda>r.
       case r of None \<Rightarrow> Inr ()
       | Some (factory, socket') \<Rightarrow> bindE (server_serve depth socket' 1 factory) (\<lambda>_. Inl Terminate))"

lemma server_start_None: "server_start u argv stub d socket = Inr None \<Longrightarrow> length argv < 4"
proof (rule ccontr)
  assume run: "server_start u argv stub d socket = Inr None" and "\<not> length argv < 4"
  then obtain port uid pc ps where "(case ServerSocket_Init port socket of (False, _) \<Rightarrow> Inl Terminate
      | (True, s1) \<Rightarrow> Inr (Some (setFactoryId uid (new_LaptopFactory stub ps pc d), s1))) = Inr None"
    by (auto simp: server_start_def Let_def)
  then show False by (cases "ServerSocket_Init port socket") (auto split: bool.splits)
qed

lemma server_main_returns: "server_main depth uninit argv stub d socket = Inr x \<Longrightarrow> length argv < 4"
  using server_start_None [of uninit argv stub d socket]
  by (auto simp: server_main_def split: option.splits) (metis not_None_eq old.prod.exhaust)

section \<open>Argument lists that are too short\<close>

lemma arg_int_Undefined: "arg_int argv i = Inl e \<Longrightarrow> e = Undefined"
  by (auto simp: arg_int_def arg_def atoi_def bindE_eq_Inl Let_def split: if_splits prod.splits)

lemma arg_Undefined: "arg argv i = Inl e \<Longrightarrow> e = Undefined"
  by (auto simp: arg_def split: if_splits)

lemma arg_missing: "length argv \<le> i \<Longrightarrow> arg argv i = Inl Undefined"
  "length argv \<le> i \<Longrightarrow> arg_int argv i = Inl Undefined"
  by (simp_all add: arg_def arg_int_def)

lemma bindE_Undefined:
  "(\<And>e. m = Inl e \<Longrightarrow> e = Undefined) \<Longrightarrow> (\<And>x. m = Inr x \<Longrightarrow> f x = Inl Undefined) \<Longrightarrow>
   bindE m f = Inl Undefined"
  by (cases m) auto

lemma server_peer_Undefined: "server_peer u argv i = Inl e \<Longrightarrow> e = Undefined"
  by (auto simp: server_peer_def bindE_eq_Inl dest: arg_int_Undefined arg_Undefined)

lemma tm_peer_Undefined: "tm_peer argv i = Inl e \<Longrightarrow> e = Undefined"
  by (auto simp: tm_peer_def bindE_eq_Inl dest: arg_int_Undefined arg_Undefined)

lemma server_peer_short: "length argv < i + 3 \<Longrightarrow> server_peer u argv i = Inl Undefined"
  unfolding server_peer_def
  by (intro bindE_Undefined arg_int_Undefined arg_Undefined)
    (auto simp: arg_def arg_int_def split: if_splits)

lemma tm_peer_short: "length argv < i + 5 \<Longrightarrow> tm_peer argv i = Inl Undefined"
  unfolding tm_peer_def
  by (intro bindE_Undefined arg_int_Undefined arg_Undefined)
    (auto simp: arg_def arg_int_def split: if_splits)

lemma server_peers_short:
  "length argv < i + 3 * k \<Longrightarrow> server_peers u k argv i = Inl Undefined \<or> k = 0"
proof (induction k arbitrary: i)
  case (Suc k)
  show ?case
  proof (cases "length argv < i + 3")
    case True
    then show ?thesis by (simp add: server_peer_short)
  next
    case False
    then have "server_peers u k argv (i + 3) = Inl Undefined"
      using Suc.IH [of "i + 3"] Suc.prems by auto
    then have "server_peers u (Suc k) argv i = Inl Undefined"
      using server_peer_Undefined by (auto intro!: bindE_Undefined)
    then show ?thesis by blast
  qed
qed simp

lemma tm_peers_short:
  "length argv < i + 5 * k \<Longrightarrow> tm_peers k argv i = Inl Undefined \<or> k = 0"
proof (induction k arbitrary: i)
  case (Suc k)
  show ?case
  proof (cases "length argv < i + 5")
    case True
    then show ?thesis by (simp add: tm_peer_short)
  next
    case False
    then have "tm_peers k argv (i + 5) = Inl Undefined"
      using Suc.IH [of "i + 5"] Suc.prems by auto
    then have "tm_peers (Suc k) argv i = Inl Undefined"
      using tm_peer_Undefined by (auto intro!: bindE_Undefined)
    then show ?thesis by blast
  qed
qed simp

text \<open>
  C38. The argument checks are too weak: with at least four arguments but fewer than the announced
  number of peers (or of resource managers) needs, both servers read past the end of \<^verbatim>\<open>argv\<close>.
\<close>

theorem missing_arguments_undefined:
  assumes "4 \<le> length argv"
  shows "(\<forall>peer_cnt. arg_int argv 3 = Inr peer_cnt \<and> length argv < 4 + 3 * nat (sint peer_cnt) \<longrightarrow>
      server_start u argv stub d socket = Inl Undefined)
    \<and> (\<forall>rms_count. arg_int argv 2 = Inr rms_count \<and> length argv < 3 + 5 * nat (sint rms_count) \<longrightarrow>
      tm_main argv socket fresh_stub stubs = Inl Undefined)"
proof (intro conjI allI impI)
  fix peer_cnt
  assume p: "arg_int argv 3 = Inr peer_cnt \<and> length argv < 4 + 3 * nat (sint peer_cnt)"
  then have "server_peers u (nat (sint peer_cnt)) argv 4 = Inl Undefined"
    using server_peers_short [of argv 4 "nat (sint peer_cnt)" u] assms by auto
  then show "server_start u argv stub d socket = Inl Undefined"
    using assms p by (auto simp: server_start_def intro!: bindE_Undefined dest: arg_int_Undefined)
next
  fix rms_count
  assume p: "arg_int argv 2 = Inr rms_count \<and> length argv < 3 + 5 * nat (sint rms_count)"
  then have "tm_peers (nat (sint rms_count)) argv 3 = Inl Undefined"
    using tm_peers_short [of argv 3 "nat (sint rms_count)"] assms by auto
  then show "tm_main argv socket fresh_stub stubs = Inl Undefined"
    using assms p by (auto simp: tm_main_def intro!: bindE_Undefined dest: arg_int_Undefined)
qed

text \<open>Witness: \<^verbatim>\<open>./server 16000 0 1\<close> announces one peer and \<^verbatim>\<open>./tm 16000 1 0\<close> one cluster, and both name none.\<close>

definition listening :: ServerSocket where
  "listening = Socket.extend (new_Socket LittleEndian True []) (ServerSocket.fields True True [])"

lemma demo_args: "arg_int [''server'', ''16000'', ''0'', ''1''] 3 = Inr 1"
    "arg_int [''tm'', ''16000'', ''1'', ''0''] 2 = Inr 1"
  by (simp_all add: arg_int_def arg_def atoi_def is_space_def read_sign_def is_digit_def read_nat_def
      digit_val_def in_int_range_def numeral_3_eq_3 numeral_2_eq_2)

lemma missing_arguments_undefined_witness:
  "server_start 0 [''server'', ''16000'', ''0'', ''1''] no_stub empty_disk listening = Inl Undefined
   \<and> tm_main [''tm'', ''16000'', ''1'', ''0''] listening no_stub (\<lambda>k. no_stub) = Inl Undefined"
  using missing_arguments_undefined [of "[''server'', ''16000'', ''0'', ''1'']" 0 no_stub empty_disk listening]
    missing_arguments_undefined [of "[''tm'', ''16000'', ''1'', ''0'']" 0 no_stub empty_disk listening
      no_stub "\<lambda>k. no_stub"] demo_args
  by auto

section \<open>The state a server starts with\<close>

lemma server_peers_length: "server_peers u k argv i = Inr ps \<Longrightarrow> length ps = k"
  by (induction k arbitrary: i ps) auto

text \<open>
  C39. A server started in a directory without files of an earlier run begins in a state from which all
  invariants of reachable nodes hold: no customers, no transactions, nothing pending, the id and the
  peers of the command line.
\<close>

theorem server_starts_reachable:
  assumes "server_start u argv stub d socket = Inr (Some (f, socket'))"
    and "custRecFile d = None" and "logFile d = None" and "disk_writable d"
  shows "rm_reachable ifa f \<and> customer_record f = [] \<and> txn_log f = [] \<and> nothing_pending f
    \<and> arg_int argv 2 = Inr (factory_id f) \<and> length (peers f) = nat (sint (peer_count f))"
proof -
  obtain port uid pc ps where run: "arg_int argv 2 = Inr uid"
    "server_peers u (nat (sint pc)) argv 4 = Inr ps"
    "(case ServerSocket_Init port socket of (False, _) \<Rightarrow> Inl Terminate
        | (True, s1) \<Rightarrow> Inr (Some (setFactoryId uid (new_LaptopFactory stub ps pc d), s1)))
      = Inr (Some (f, socket'))"
    using assms(1) by (auto simp: server_start_def Let_def split: if_splits)
  then have "f = setFactoryId uid (new_LaptopFactory stub ps pc d)"
    by (cases "ServerSocket_Init port socket") (auto split: bool.splits)
  note parts = run(1,2) this
  have len: "length ps = nat (sint pc)" by (rule server_peers_length [OF parts(2)])
  have "rm_reachable ifa f"
    unfolding parts(3) using assms(2-4) len by (intro rm_reachable.start) simp_all
  moreover have "txn_log (new_LaptopFactory stub ps pc d) = []"
    using recovered_log [of d "[]" stub ps pc] assms(3) by (simp add: log_content_def)
  ultimately show ?thesis
    using parts len assms(2)
    by (simp add: setFactoryId_def recovered_no_records nothing_pending_def)
qed

lemma server_starts_reachable_witness:
  "\<exists>f socket'. server_start 0 [''server'', ''16000'', ''5'', ''0''] no_stub empty_disk listening
       = Inr (Some (f, socket')) \<and> rm_reachable True f \<and> factory_id f = 5"
proof -
  let ?argv = "[''server'', ''16000'', ''5'', ''0'']"
  have args: "arg_int ?argv 1 = Inr 16000" "arg_int ?argv 2 = Inr 5" "arg_int ?argv 3 = Inr 0"
    by (simp_all add: arg_int_def arg_def atoi_def is_space_def read_sign_def is_digit_def read_nat_def
        digit_val_def in_int_range_def numeral_3_eq_3 numeral_2_eq_2)
  have "ServerSocket_Init 16000 listening = (True, listening\<lparr>is_initialized := True\<rparr>)"
    by (simp add: ServerSocket_Init_def listening_def new_Socket_def Socket.extend_def
        ServerSocket.fields_def)
  then obtain f socket' where f: "server_start 0 ?argv no_stub empty_disk listening = Inr (Some (f, socket'))"
    by (simp add: server_start_def args del: One_nat_def)
  have d: "custRecFile empty_disk = None" "logFile empty_disk = None" "disk_writable empty_disk"
    by (simp_all add: empty_disk_def disk_writable_def)
  show ?thesis
    using server_starts_reachable [OF f d, of True] f args(2) by auto
qed

end
