(* ===== verification/Wire.thy ===== *)
theory Wire
  imports Sessions
begin

text \<open>
  The wire and file formats as properties: what arrives of what was sent, on hosts of either byte
  order and however the stream is cut, where the formats depend on the host, which messages do not
  fit, and that the two files are read back as they were written.
\<close>

section \<open>Messages\<close>

text \<open>
  C26. A transaction over the wire: the bytes a client's prepare request puts on the connection, received
  in one piece by a server of either byte order, are decoded to the transaction; their number is
  what \<^verbatim>\<open>Size\<close> computes.
\<close>

theorem transaction_over_the_wire:
  assumes "is_initialized c" and "mem_ok c" and "tx c = []" and "sent c = []" and "fits t"
    and "rx c = [id_segment m x]" and "short_msg m"
    and "conn_ok s" and "rx s = [Segment (sent c')]"
    and "SendTxnPrepareRequest t c = Inr (reply, c')"
  shows "reply = m \<and> ReceiveTxnRequest s = Inr (t, s\<lparr>rx := []\<rparr>)
    \<and> sint (Transaction_Size t) = int (length (sent c'))"
proof -
  have size: "length (Transaction_Marshal (host c) t) \<le> 200000"
    by (rule fits_marshal [OF assms(5)])
  have "SendTxnPrepareRequest t c =
      Inr (m, c\<lparr>rx := [], sent := sent c @ Transaction_Marshal (host c) t\<rparr>)"
    using assms(1-3,6,7) fits_lengths_ok [OF assms(5)] size
    by (intro SendTxnPrepareRequest_segment [where s' = x]) (simp_all add: id_segment_def)
  then have c': "reply = m" "sent c' = Transaction_Marshal (host c) t"
    using assms(4,10) by auto
  have "sint (Transaction_Size t) = int (length (Transaction_Marshal (host c) t))"
    by (rule Transaction_Size_length [OF fits_lengths_ok [OF assms(5)]])
      (use size in simp)
  then show ?thesis
    using c' Txn_segment [OF assms(8), of "host c" t "[]"] assms(5,9) by simp
qed

lemma transaction_over_the_wire_witness:
  "\<exists>c'. SendTxnPrepareRequest (demo_txn 7 0) (demo_stub [id_segment ''Ok'' (demo_conn [])]) = Inr (''Ok'', c')
     \<and> ReceiveTxnRequest (demo_conn [Segment (sent c')]) =
         Inr (demo_txn 7 0, (demo_conn [Segment (sent c')])\<lparr>rx := []\<rparr>)"
proof -
  let ?c = "demo_stub [id_segment ''Ok'' (demo_conn [])]"
  have c: "is_initialized ?c" "mem_ok ?c" "tx ?c = []" "sent ?c = []"
    "rx ?c = [id_segment ''Ok'' (demo_conn [])]" by simp_all
  obtain reply c' where send: "SendTxnPrepareRequest (demo_txn 7 0) ?c = Inr (reply, c')"
    using SendTxnPrepareRequest_total [OF fits_demo] by blast
  show ?thesis
    using transaction_over_the_wire [OF c(1-4) fits_demo c(5) short_msgs(7) conn_ok_demo(1)
        demo_conn_fields(3) send] send by blast
qed

text \<open>
  C35. Identification messages and replies of at most nine characters are read whole, in whatever pieces
  the stream arrives; what follows them stays in the stream.
\<close>

theorem short_message_any_segmentation:
  assumes "is_initialized s" and "pending (rx s) = msg_bytes 10 m x @ rest" and "short_msg m"
  shows "\<exists>r. IdentificationMsg s = (m, s\<lparr>rx := r\<rparr>) \<and> pending r = rest"
  using IdentificationMsg_stream [OF assms] by blast

lemma pending_bytes: "pending (map (\<lambda>b. Segment [b]) bs) = bs"
  by (induction bs) auto

text \<open>Witness: one byte at a time.\<close>

lemma short_message_any_segmentation_witness:
  "\<exists>r. IdentificationMsg (demo_conn (map (\<lambda>b. Segment [b]) (msg_bytes 10 ''TMCommit'' (demo_conn []) @ ''more'')))
       = (''TMCommit'', (demo_conn (map (\<lambda>b. Segment [b])
            (msg_bytes 10 ''TMCommit'' (demo_conn []) @ ''more'')))\<lparr>rx := r\<rparr>) \<and> pending r = ''more''"
  by (rule short_message_any_segmentation) (simp_all only: demo_conn_fields pending_bytes short_msgs)

text \<open>
  Replies of ten characters or more lose their terminator: \<^verbatim>\<open>Done commit\<close> goes out as its first ten
  characters, and what the receiver takes for the reply is these ten and whatever it finds in memory
  behind its buffer.
\<close>

lemma long_reply_unterminated:
  assumes "conn_ok s" and "NUL \<notin> set m" and "10 \<le> length m"
  shows "sent (snd (SendResponseReplicationReq m s)) = sent s @ take 10 m
    \<and> read_string (take 10 m) r = take 10 m @ c_string (junk r)"
proof -
  have bytes: "msg_bytes 10 m s = take 10 m" using assms(3) by (simp add: msg_bytes_def)
  have "sent (snd (SendResponseReplicationReq m s)) = sent s @ msg_bytes 10 m s"
    using reply_idle [OF assms(1), of m "rx s"] by simp
  then show ?thesis
    using read_string_long [OF assms(2,3), of s r] unfolding bytes by simp
qed

lemma long_reply_unterminated_witness:
  "read_string (take 10 ''Done commit'') ((demo_conn [])\<lparr>junk := ''XYZ''\<rparr>) = ''Done commiXYZ''"
  using long_reply_unterminated [OF conn_ok_demo(1) [of "[]"], of "''Done commit''"
      "(demo_conn [])\<lparr>junk := ''XYZ''\<rparr>"]
  by (simp add: c_string_def)

section \<open>Byte order\<close>

definition swap_request :: "ReplicationRequest \<Rightarrow> ReplicationRequest" where
  "swap_request r = \<lparr>rr_factory_id = htonl LittleEndian (rr_factory_id r),
     rr_committed_index = htonl LittleEndian (rr_committed_index r),
     rr_last_index = htonl LittleEndian (rr_last_index r),
     rr_oprn = \<lparr>opcode = htonl LittleEndian (opcode (rr_oprn r)),
       arg1 = htonl LittleEndian (arg1 (rr_oprn r)), arg2 = htonl LittleEndian (arg2 (rr_oprn r))\<rparr>\<rparr>"

lemma mem_word_other: "e \<noteq> e' \<Longrightarrow> mem_word e' (mem_bytes e w) = htonl LittleEndian w"
  by (cases e; cases e') (simp_all add: htonl.simps mem_bytes.simps mem_word.simps del: le_bytes.simps)

text \<open>
  Replication requests are sent as they lie in memory: a backup of the primary's byte order reads
  the request that was sent, and one of the other byte order reads every field with its bytes
  reversed.
\<close>

lemma replication_request_host_order:
  "unraw_replication e' (raw_replication e r) = (if e' = e then r else swap_request r)"
proof (cases "e' = e")
  case True
  then show ?thesis by simp
next
  case False
  then have "e \<noteq> e'" by simp
  then show ?thesis
    using False
    by (simp add: unraw_replication_def raw_replication_def swap_request_def mem_word_other)
qed

section \<open>Sizes\<close>

text \<open>
  C37. The bound of the prepare buffer: a transaction whose marshalled form has at most 200000 bytes is
  sent (or refused with an error string) without undefined behaviour; a larger one, on a connected
  stub, overruns the buffer.
\<close>

theorem prepare_buffer_bound:
  assumes "lengths_ok t" and "is_initialized s" and "mem_ok s"
  shows "(\<exists>r s'. SendTxnPrepareRequest t s = Inr (r, s')) \<longleftrightarrow>
    12 + 8 * length (readRecords t) + 12 * length (writeRecords t) \<le> 200000"
proof (cases "12 + 8 * length (readRecords t) + 12 * length (writeRecords t) \<le> 200000")
  case True
  then have "fits t" using assms(1) by (simp add: fits_def)
  then show ?thesis using SendTxnPrepareRequest_total [of t s] True by simp
next
  case False
  then show ?thesis
    using assms(2,3)
    by (simp add: SendTxnPrepareRequest_def getIsInitialized_def length_Transaction_Marshal)
qed

lemma prepare_buffer_bound_witness:
  "\<exists>r s'. SendTxnPrepareRequest (demo_txn 7 0) (demo_stub []) = Inr (r, s')"
  using prepare_buffer_bound [of "demo_txn 7 0" "demo_stub []"] fits_lengths_ok [OF fits_demo]
  by simp

section \<open>Files\<close>

text \<open>
  C27. The files are read back as they were written: the customer file gives the same map, and the log
  file gives every transaction its records, in the order in which they were logged.
\<close>

theorem files_read_back:
  assumes "map_ok m"
  shows "read_cust_lines (cust_text m) [] = m
    \<and> map_find t (read_log_lines (log_text L) []) =
        (if \<forall>r \<in> set L. tl_txn_id r \<noteq> t then None else Some (filter (\<lambda>r. tl_txn_id r = t) L))"
proof -
  have "read_cust_lines (cust_text m) [] = m"
    using read_cust_text [of "[]" m "[]"] imap.insert_all_entries [OF assms] by simp
  moreover have "map_ok ([] :: TxnLogRequest list imap)" by (simp add: map_ok_def)
  then have "map_find t (fold add_to_log L []) =
      (if \<forall>r \<in> set L. tl_txn_id r \<noteq> t then None else Some (filter (\<lambda>r. tl_txn_id r = t) L))"
    using find_fold_add [of "[]" t L] by (simp add: Let_def filter_empty_conv)
  ultimately show ?thesis
    using read_log_text [of "[]" L "[]"] by simp
qed

lemma files_read_back_witness:
  "read_cust_lines (cust_text [(-1, 7), (0, 50)]) [] = [(-1, 7), (0, 50)]"
  using files_read_back [of "[(-1, 7), (0, 50 :: cint)]"] by (simp add: map_ok_def)

end
