(* ===== verification/History.thy ===== *)
theory History
  imports TwoPhase
begin

text \<open>
  Histories: transactions run one after the other over all resource managers, as the transaction
  manager's accept loop runs them. The specification is a single store that takes each transaction
  or leaves it; the resource managers together refine it.
\<close>

section \<open>The contract of a history\<close>

text \<open>
  A participant that, being ready for a sequence of transactions, is ready for the rest of it after the
  first one has been committed or aborted.
\<close>

locale participant_history = participant prepare commit abort db write_db accepts ready prepared
  for prepare :: "'t \<Rightarrow> 's \<Rightarrow> 'e + string \<times> 's" and commit :: "'t \<Rightarrow> 's \<Rightarrow> 'e + 's"
    and abort :: "'t \<Rightarrow> 's \<Rightarrow> 'e + 's" and db :: "'s \<Rightarrow> 'd" and write_db :: "'t \<Rightarrow> 'd \<Rightarrow> 'd"
    and accepts :: "'t \<Rightarrow> 'd \<Rightarrow> bool" and ready :: "'t \<Rightarrow> 's \<Rightarrow> bool"
    and prepared :: "'t \<Rightarrow> 's \<Rightarrow> 's \<Rightarrow> bool" +
  fixes ready_for :: "'t list \<Rightarrow> 's \<Rightarrow> bool"
  assumes ready_for_first: "ready_for (t # ts) s \<Longrightarrow> ready t s"
    and ready_for_commit:
      "ready_for (t # ts) s \<Longrightarrow> prepared t s s1 \<Longrightarrow> commit t s1 = Inr s2 \<Longrightarrow> ready_for ts s2"
    and ready_for_abort:
      "ready_for (t # ts) s \<Longrightarrow> prepared t s s1 \<Longrightarrow> abort t s1 = Inr s2 \<Longrightarrow> ready_for ts s2"
    and ready_for_refuse: "ready_for (t # ts) s \<Longrightarrow> abort t s = Inr s2 \<Longrightarrow> ready_for ts s2"
begin

text \<open>The specification: one store, one transaction after the other.\<close>

fun serial :: "'t list \<Rightarrow> 'd \<Rightarrow> bool list \<times> 'd" where
  "serial [] d = ([], d)"
| "serial (t # ts) d =
     (case serial ts (if accepts t d then write_db t d else d) of (oks, d') \<Rightarrow> (accepts t d # oks, d'))"

lemma serial_length [simp]: "length (fst (serial ts d)) = length ts"
  by (induction ts arbitrary: d) (simp_all split: prod.splits, metis fst_conv)

lemma serial_nth:
  "j < length ts \<Longrightarrow> fst (serial ts d) ! j = accepts (ts ! j) (snd (serial (take j ts) d))"
proof (induction ts arbitrary: j d)
  case (Cons t ts)
  then show ?case by (cases j) (simp_all add: case_prod_beta)
qed simp

lemma serial_take_Suc:
  "j < length ts \<Longrightarrow> snd (serial (take (Suc j) ts) d) =
     (if fst (serial ts d) ! j then write_db (ts ! j) (snd (serial (take j ts) d))
      else snd (serial (take j ts) d))"
proof (induction ts arbitrary: j d)
  case (Cons t ts)
  then show ?case by (cases j) (simp_all add: case_prod_beta)
qed simp

fun run_all :: "'t list \<Rightarrow> 's list \<Rightarrow> 'e + bool list \<times> 's list" where
  "run_all [] ss = Inr ([], ss)"
| "run_all (t # ts) ss = bindE (two_phase t ss) (\<lambda>(ok, ss1).
     bindE (run_all ts ss1) (\<lambda>(oks, ss2). Inr (ok # oks, ss2)))"

lemma commit_all_ready:
  assumes "list_all2 (prepared t) ss ss1" and "\<forall>s \<in> set ss. ready_for (t # ts) s"
    and "decide_all True t ss1 = Inr ss2"
  shows "\<forall>s \<in> set ss2. ready_for ts s"
  using assms
proof (induction arbitrary: ss2 rule: list_all2_induct)
  case (Cons s ss s1 ss1)
  then show ?case using ready_for_commit [of t ts s s1] by auto
qed simp

lemma abort_all_ready:
  assumes "list_all2 (after_prepare t) ss ss1" and "\<forall>s \<in> set ss. ready_for (t # ts) s"
    and "decide_all False t ss1 = Inr ss2"
  shows "\<forall>s \<in> set ss2. ready_for ts s"
  using assms
proof (induction arbitrary: ss2 rule: list_all2_induct)
  case (Cons s ss s1 ss1)
  then show ?case
    using ready_for_abort [of t ts s s1] ready_for_refuse [of t ts s] by (auto simp: after_prepare_def)
qed simp

lemma decide_all_length: "decide_all ok t ss = Inr ss' \<Longrightarrow> length ss' = length ss"
  by (induction ss arbitrary: ss') (auto split: if_splits)

text \<open>One transaction keeps all participants at one store, ready for the rest.\<close>

lemma two_phase_step:
  assumes "ss \<noteq> []" and "\<forall>s \<in> set ss. ready_for (t # ts) s \<and> db s = d"
  shows "\<exists>ss'. two_phase t ss = Inr (accepts t d, ss') \<and> ss' \<noteq> []
    \<and> (\<forall>s \<in> set ss'. ready_for ts s \<and> db s = (if accepts t d then write_db t d else d))"
proof -
  have ready: "\<forall>s \<in> set ss. ready t s" using assms(2) ready_for_first by blast
  have all: "(\<forall>s \<in> set ss. accepts t (db s)) = accepts t d"
    using assms by (cases ss) auto
  obtain ss1 where ss1: "prepare_all t ss = Inr (accepts t d, ss1)" "list_all2 (after_prepare t) ss ss1"
    "accepts t d \<longrightarrow> list_all2 (prepared t) ss ss1"
    using prepare_all_outcome [OF ready] unfolding all by blast
  obtain ss2 where ss2: "decide_all (accepts t d) t ss1 = Inr ss2"
    "map db ss2 = (if accepts t d then map (\<lambda>s. write_db t (db s)) ss else map db ss)"
    using ss1(2,3) commit_all [of t ss ss1] abort_all [of t ss ss1] by (cases "accepts t d") auto
  have "\<forall>s \<in> set ss2. ready_for ts s"
    using ss1(2,3) ss2(1) assms(2) commit_all_ready [of t ss ss1 ts ss2] abort_all_ready [of t ss ss1 ts ss2]
    by (cases "accepts t d") auto
  moreover have "\<forall>s \<in> set ss2. db s = (if accepts t d then write_db t d else d)"
  proof
    fix s
    assume "s \<in> set ss2"
    then have "db s \<in> set (map db ss2)" by simp
    then show "db s = (if accepts t d then write_db t d else d)"
      using assms(2) unfolding ss2(2) by (auto split: if_splits)
  qed
  moreover have "ss2 \<noteq> []"
    using decide_all_length [OF ss2(1)] list_all2_lengthD [OF ss1(2)] assms(1) by auto
  ultimately show ?thesis using ss1(1) ss2(1) by (simp add: two_phase_def)
qed

lemma run_all_refines_serial:
  assumes "ss \<noteq> []" and "\<forall>s \<in> set ss. ready_for ts s \<and> db s = d"
  shows "\<exists>ss'. run_all ts ss = Inr (fst (serial ts d), ss') \<and> (\<forall>s \<in> set ss'. db s = snd (serial ts d))"
  using assms
proof (induction ts arbitrary: ss d)
  case (Cons t ts)
  obtain ss1 where ss1: "two_phase t ss = Inr (accepts t d, ss1)" "ss1 \<noteq> []"
    "\<forall>s \<in> set ss1. ready_for ts s \<and> db s = (if accepts t d then write_db t d else d)"
    using two_phase_step [OF Cons.prems] by blast
  show ?case
    using ss1(1) Cons.IH [OF ss1(2,3)] by (auto split: prod.splits)
qed simp

end

section \<open>The resource manager keeps the contract\<close>

text \<open>
  Ready for a sequence: well formed, nothing pending, none of the ids in the log and none used twice, and
  room in the operation log for all writes.
\<close>

definition history_ready :: "Transaction list \<Rightarrow> LaptopFactory \<Rightarrow> bool" where
  "history_ready ts s \<longleftrightarrow> rm_ready s \<and> nothing_pending s \<and> (\<forall>t \<in> set ts. fits t)
     \<and> distinct (map txn_id ts) \<and> (\<forall>t \<in> set ts. map_find (txn_id t) (txn_log s) = None)
     \<and> log_room (sum_list (map (length \<circ> writeRecords) ts)) s"

lemma nothing_pending_apply_ops: "nothing_pending s \<Longrightarrow> nothing_pending (apply_ops ops s)"
proof (induction ops arbitrary: s)
  case Nil
  then show ?case by (simp add: apply_ops_def)
next
  case (Cons p ops)
  have "nothing_pending (apply_locally p (primary_form s))"
    using Cons.prems by (simp add: nothing_pending_def primary_form_def caught_up_def apply_locally_def)
  then show ?case by (simp add: apply_ops_Cons Cons.IH)
qed

lemma distinct_map_head: "distinct (map f (x # xs)) \<Longrightarrow> y \<in> set xs \<Longrightarrow> f y \<noteq> f x"
  by (metis distinct.simps(2) image_eqI list.set_map list.simps(9))

text \<open>What a commit leaves besides the records: the next transactions find the node ready.\<close>

lemma history_ready_commit:
  assumes "history_ready (t # ts) s" and "txn_prepared t s s1" and "commit_txn (txn_id t) eng s1 = Inr s2"
  shows "history_ready ts s2"
proof -
  note h = assms(1) [unfolded history_ready_def]
  have net: "only_net (prepared_state t s) s1" using assms(2) by (simp add: txn_prepared_def)
  have log: "logged (txn_id t) s1 = prepare_records t"
    using logged_prepared [of s "txn_id t" t] h logged_only_net [OF net] by (simp add: rm_ready_def rm_ok_def)
  have ready: "rm_ready s1" "nothing_pending s1"
    using h rm_ready_prepared only_net_rm_ready [OF net] nothing_pending_only_net [OF net] by simp_all
  have len: "length (prepare_records t) \<le> length (writeRecords t)"
    by (simp add: prepare_records_def length_takeWhile_le)
  have smr: "smr_log s1 = smr_log s" by (simp add: only_net_fields [OF net] prepared_state_def)
  have room: "log_room (length (logged (txn_id t) s1)) s1"
    using h len by (simp add: log log_room_def smr)
  have net2: "only_net (committed_state (txn_id t) (prepare_records t) s1) s2"
    using commit_txn_result [OF ready(1) room assms(3)] by (simp add: log)
  have "rm_ready s2"
    using rm_ready_committed [OF ready(1) room] only_net_rm_ready [OF net2] by (simp add: log)
  moreover have "nothing_pending s2"
    using nothing_pending_apply_ops [OF ready(2)] nothing_pending_only_net [OF net2]
    by (simp add: nothing_pending_def committed_state_def Let_def)
  moreover have "map_find (txn_id u) (txn_log s2) = None" if "u \<in> set ts" for u
    using distinct_map_head [of txn_id t ts u] h that
    by (simp add: only_net_fields [OF net2] committed_state_def Let_def)
  moreover have "smr_log s2 = smr_log s @ map rec_op (prepare_records t)"
    by (simp add: only_net_fields [OF net2] committed_state_def Let_def smr)
  ultimately show ?thesis
    using h len by (simp add: history_ready_def log_room_def)
qed

lemma history_ready_abort:
  assumes "rm_ready s" and "nothing_pending s" and "\<forall>u \<in> set ts. fits u" and "distinct (map txn_id (t # ts))"
    and "\<forall>u \<in> set ts. map_find (txn_id u) (txn_log s) = None"
    and "log_room (sum_list (map (length \<circ> writeRecords) ts)) s" and "abort_txn (txn_id t) s = Inr s2"
  shows "history_ready ts s2"
proof -
  have s2: "s2 = aborted_state (txn_id t) s" using abort_txn_result [OF assms(1,7)] .
  have ok: "map_ok (txn_log s)" using assms(1) by (simp add: rm_ready_def rm_ok_def)
  have "map_find (txn_id u) (txn_log s2) = None" if "u \<in> set ts" for u
    using distinct_map_head [OF assms(4) that] assms(5) that
    by (simp add: s2 aborted_state_def find_update_value [OF ok])
  then show ?thesis
    using assms rm_ready_aborted [OF assms(1), of "txn_id t"]
    by (simp add: history_ready_def s2 log_room_def nothing_pending_def aborted_state_def)
qed

lemma history_ready_txn_ready: "history_ready (t # ts) s \<Longrightarrow> txn_ready t s"
  by (simp add: history_ready_def txn_ready_def log_room_def)

interpretation rm_history: participant_history prepare_txn "\<lambda>t. commit_txn (txn_id t) eng"
  "\<lambda>t. abort_txn (txn_id t)" customer_record txn_write txn_accepts txn_ready txn_prepared history_ready
  for eng
proof unfold_locales
  fix t :: Transaction and ts :: "Transaction list" and s :: LaptopFactory
  assume "history_ready (t # ts) s"
  then show "txn_ready t s" by (rule history_ready_txn_ready)
next
  fix t :: Transaction and ts :: "Transaction list" and s s1 s2 :: LaptopFactory
  assume "history_ready (t # ts) s" "txn_prepared t s s1" "commit_txn (txn_id t) eng s1 = Inr s2"
  then show "history_ready ts s2" by (rule history_ready_commit)
next
  fix t :: Transaction and ts :: "Transaction list" and s s1 s2 :: LaptopFactory
  assume h: "history_ready (t # ts) s" and prep: "txn_prepared t s s1" and "abort_txn (txn_id t) s1 = Inr s2"
  then have net: "only_net (prepared_state t s) s1" by (simp add: txn_prepared_def)
  have ok: "map_ok (txn_log s)" using h by (simp add: history_ready_def rm_ready_def rm_ok_def)
  have none: "\<forall>u \<in> set ts. map_find (txn_id u) (txn_log s1) = None"
    using h distinct_map_head [of txn_id t ts]
    by (simp add: only_net_fields [OF net] prepared_state_def map_rules ok history_ready_def)
  have smr: "smr_log s1 = smr_log s" by (simp add: only_net_fields [OF net] prepared_state_def)
  show "history_ready ts s2"
  proof (rule history_ready_abort [OF rm_ready_txn_prepared [OF prep] _ _ _ none])
    show "nothing_pending s1"
      using h nothing_pending_only_net [OF net] by (simp add: history_ready_def)
    show "log_room (sum_list (map (length \<circ> writeRecords) ts)) s1"
      using h by (simp add: history_ready_def log_room_def smr)
  qed (use h \<open>abort_txn (txn_id t) s1 = Inr s2\<close> in \<open>auto simp: history_ready_def\<close>)
next
  fix t :: Transaction and ts :: "Transaction list" and s s2 :: LaptopFactory
  assume "history_ready (t # ts) s" "abort_txn (txn_id t) s = Inr s2"
  then show "history_ready ts s2"
    by (intro history_ready_abort [of s ts t]) (auto simp: history_ready_def log_room_def)
qed

text \<open>
  Over any number of nodes that start with the same records, a sequence of transactions with new ids ends
  with the decisions of the single store, and every node with its records.
\<close>

lemma nodes_refine_store:
  assumes "ss \<noteq> []" and "\<forall>s \<in> set ss. history_ready ts s \<and> customer_record s = d"
  shows "\<exists>ss'. rm_history.run_all eng ts ss = Inr (fst (rm_history.serial ts d), ss')
    \<and> (\<forall>s \<in> set ss'. customer_record s = snd (rm_history.serial ts d))"
  using rm_history.run_all_refines_serial [OF assms] .

end
