(* ===== verification/System.thy ===== *)
theory System
  imports History
begin

text \<open>
  The closed system: the transaction manager and the connection threads of the resource managers on each
  other's bytes, for one transaction and for the sequence of transactions of the accept loop.
\<close>

section \<open>One transaction\<close>

lemma transaction_exchange:
  assumes "n = nat (sint rms_count)" and "n \<le> length rms" and "length rmNodes = n"
    and "conn_ok client" and "rx client = [Segment (Transaction_Marshal e req)]"
    and txn: "txn = setTxnId t req"
    and ok: "ok \<longleftrightarrow> (\<forall>i < n. txn_accepts txn (customer_record (f i)))"
    and asked: "\<And>i. i < n \<Longrightarrow> was_asked i \<longleftrightarrow> (\<forall>j < i. txn_accepts txn (customer_record (f j)))"
    and ready: "\<forall>i < n. txn_ready txn (f i)" and "fits req"
    and conn: "\<forall>i < n. conn_ok (c i) \<and> quiet (c i) \<and> sent (c i) = []
      \<and> rx (c i) = tm_messages (was_asked i) ok txn (stub i)"
    and up: "\<forall>i < n. up (rm_output (was_asked i) (vote_of txn (f i)) (done_msg ok) (c i)) (stub i)"
  shows "\<exists>client' nodes'. transaction_manager client rms_count rms stub rmNodes t =
      Inr (client', nodes', t + 1)
    \<and> sent client' = sent client @ msg_bytes 10 (if ok then ''Success'' else ''Failed'') client
    \<and> (\<forall>i < n. sent (nodes' ! i) = pending (rx (c i))
        \<and> (\<exists>c' f1 f'. EngineerIFAThread (Suc (Suc (Suc d))) (c i) eng (f i) = Inr (c', f')
            \<and> sent c' = pending (rm_output (was_asked i) (vote_of txn (f i)) (done_msg ok) (c i))
            \<and> decided eng txn ok (f i) f1 f'))"
proof -
  let ?v = "\<lambda>i. vote_of txn (f i)"
  have no: "?v i = ''No'' \<longleftrightarrow> \<not> txn_accepts txn (customer_record (f i))" for i
    by (simp add: vote_of_def)
  have as: "i \<in> set (asked ?v [0 ..< n]) \<longleftrightarrow> was_asked i" if "i < n" for i
    using that asked [OF that] by (simp add: asked_upt no)
  have short: "\<forall>i < n. short_msg (?v i)" by (simp add: vote_of_def)
  have ups: "\<forall>i < n. up (rm_output (i \<in> set (asked ?v [0 ..< n])) (?v i) (done_msg ok) (c i)) (stub i)"
    using up as by simp
  have okv: "ok \<longleftrightarrow> (\<forall>i < n. ?v i \<noteq> ''No'')" using ok by (simp add: no)
  from transaction_manager_run [where t = t, OF assms(1-5) \<open>fits req\<close> short ups okv]
  obtain client' nodes' where run: "transaction_manager client rms_count rms stub rmNodes t =
      Inr (client', nodes', t + 1)
    \<and> sent client' = sent client @ msg_bytes 10 (if ok then ''Success'' else ''Failed'') client
    \<and> length nodes' = n \<and> (\<forall>i < n. sent (nodes' ! i) =
         tm_output (i \<in> set (asked ?v [0 ..< n])) ok (setTxnId t req) (stub i))"
    by (elim exE) (rule that)
  have "fits txn" using \<open>fits req\<close> by (simp add: txn)
  then have bytes: "sent (nodes' ! i) = pending (rx (c i))" if "i < n" for i
    using run that conn as [OF that] by (simp add: pending_tm_messages txn)
  have session: "\<exists>c' f1 f'. EngineerIFAThread (Suc (Suc (Suc d))) (c i) eng (f i) = Inr (c', f')
      \<and> sent c' = pending (rm_output (was_asked i) (vote_of txn (f i)) (done_msg ok) (c i))
      \<and> decided eng txn ok (f i) f1 f'" if i: "i < n" for i
  proof (rule participant_session)
    show "ok \<longrightarrow> was_asked i \<and> txn_accepts txn (customer_record (f i))"
      using ok asked i by auto
  qed (use ready conn i in auto)
  show ?thesis
    using run bytes session by (intro exI [of _ client'] exI [of _ nodes']) blast
qed

section \<open>The accept loop\<close>

text \<open>The loop answers every connection that its run answers.\<close>

lemma tm_serve_all:
  assumes "backlog listen = map Some ps"
    and "\<forall>j < length ps. \<exists>client' nodes'.
      transaction_manager (new_ServerSocket (host listen) (mem_ok listen) (junk listen) (ps ! j) (IsNagleOn listen))
        rms_count rms (stubs (k + j)) rmNodes (t + of_nat j) = Inr (client', nodes', t + of_nat j + 1)
      \<and> sent client' = g j"
  shows "tm_serve listen rms_count rms stubs rmNodes k t = Inr (map g [0 ..< length ps])"
  using assms
proof (induction ps arbitrary: listen k t g)
  case Nil
  then show ?case by (simp add: tm_serve.simps [of listen] Accept_conn_def)
next
  case (Cons p ps)
  let ?conn = "\<lambda>p. new_ServerSocket (host listen) (mem_ok listen) (junk listen) p (IsNagleOn listen)"
  let ?listen = "listen\<lparr>backlog := map Some ps\<rparr>"
  have acc: "Accept_conn listen = (Some (?conn p), ?listen)"
    using Cons.prems(1) by (simp add: Accept_conn_def)
  obtain client' nodes' where head: "transaction_manager (?conn p) rms_count rms (stubs k) rmNodes t
      = Inr (client', nodes', t + 1)" "sent client' = g 0"
    using Cons.prems(2) [rule_format, of 0] by auto
  have nag: "IsNagleOn ?listen = IsNagleOn listen" by (simp add: IsNagleOn_def)
  have "tm_serve ?listen rms_count rms stubs rmNodes (Suc k) (t + 1) = Inr (map (\<lambda>j. g (Suc j)) [0 ..< length ps])"
  proof (rule Cons.IH, simp, intro allI impI)
    fix j
    assume "j < length ps"
    moreover have "t + of_nat (Suc j) = t + 1 + of_nat j" by simp
    ultimately show "\<exists>client' nodes'.
        transaction_manager (new_ServerSocket (host ?listen) (mem_ok ?listen) (junk ?listen) (ps ! j)
          (IsNagleOn ?listen)) rms_count rms (stubs (Suc k + j)) rmNodes (t + 1 + of_nat j)
          = Inr (client', nodes', t + 1 + of_nat j + 1) \<and> sent client' = g (Suc j)"
      using Cons.prems(2) [rule_format, of "Suc j"] unfolding nag by (simp add: add.assoc)
  qed
  then show ?case
    using head by (simp add: tm_serve.simps [of listen] acc map_upt_Suc del: upt_Suc)
qed

lemma new_ServerSocket_conn_ok:
  "conn_ok (new_ServerSocket e True j (r, []) nag)" "rx (new_ServerSocket e m j p nag) = fst p"
  "sent (new_ServerSocket e m j p nag) = []" "junk (new_ServerSocket e m j p nag) = j"
  by (simp_all add: conn_ok_def new_ServerSocket_def new_Socket_def NagleOn_def Socket.extend_def
      ServerSocket.fields_def)

section \<open>A history of transactions\<close>

definition vote_msg :: "bool \<Rightarrow> string" where
  "vote_msg ok = (if ok then ''Ok'' else ''No'')"

text \<open>One transaction of a history: all nodes hold the same store before it and after it.\<close>

lemma history_exchange:
  assumes "n = nat (sint rms_count)" and "n \<le> length rms" and "length rmNodes = n" and "0 < n"
    and "conn_ok client" and "rx client = [Segment (Transaction_Marshal e req)]" and "sent client = []"
    and txn: "txn = setTxnId t req" and "fits req" and ok: "ok \<longleftrightarrow> txn_accepts txn d"
    and ready: "\<forall>i < n. history_ready (txn # rest) (f i) \<and> customer_record (f i) = d"
    and conn: "\<forall>i < n. conn_ok (c i) \<and> quiet (c i) \<and> sent (c i) = []
      \<and> rx (c i) = tm_messages (ok \<or> i = 0) ok txn (stub i)"
    and up: "\<forall>i < n. up (rm_output (ok \<or> i = 0) (vote_msg ok) (done_msg ok) (c i)) (stub i)"
  shows "(\<exists>client' nodes'. transaction_manager client rms_count rms stub rmNodes t =
        Inr (client', nodes', t + 1)
      \<and> sent client' = msg_bytes 10 (if ok then ''Success'' else ''Failed'') client
      \<and> (\<forall>i < n. sent (nodes' ! i) = pending (rx (c i))))
    \<and> (\<forall>i < n. \<exists>c' f'. EngineerIFAThread (Suc (Suc (Suc depth))) (c i) eng (f i) = Inr (c', f')
          \<and> sent c' = pending (rm_output (ok \<or> i = 0) (vote_msg ok) (done_msg ok) (c i))
          \<and> history_ready rest f' \<and> customer_record f' = (if ok then txn_write txn d else d))"
proof -
  have vote: "vote_of txn (f i) = vote_msg ok" if "i < n" for i
    using ready that by (simp add: vote_of_def vote_msg_def ok)
  have all: "ok \<longleftrightarrow> (\<forall>i < n. txn_accepts txn (customer_record (f i)))"
    using ready \<open>0 < n\<close> by (auto simp: ok)
  have asked: "(ok \<or> i = 0) \<longleftrightarrow> (\<forall>j < i. txn_accepts txn (customer_record (f j)))" if "i < n" for i
    using ready that by (auto simp: ok)
  have first: "\<forall>i < n. txn_ready txn (f i)" using ready history_ready_txn_ready by blast
  have ups: "\<forall>i < n. up (rm_output (ok \<or> i = 0) (vote_of txn (f i)) (done_msg ok) (c i)) (stub i)"
    using up vote by simp
  have next_ready: "history_ready rest f' \<and> customer_record f' = (if ok then txn_write txn d else d)"
    if "i < n" "decided eng txn ok (f i) f1 f'" for i f1 f'
  proof -
    have "history_ready (txn # rest) (f i)" using ready that(1) by blast
    then have "history_ready rest f'"
      using that(2) rm_history.ready_for_commit [of txn rest "f i" f1 eng f']
        rm_history.ready_for_abort [of txn rest "f i" f1 f'] rm_history.ready_for_refuse [of txn rest "f i" f']
      by (cases ok) (auto simp: decided_def rm.after_prepare_def)
    then show ?thesis using decided_records [OF that(2)] ready that(1) by auto
  qed
  from transaction_exchange [OF assms(1-3,5,6) txn all asked first \<open>fits req\<close> conn ups,
      where d = depth and eng = eng]
  obtain client' nodes' where run: "transaction_manager client rms_count rms stub rmNodes t =
      Inr (client', nodes', t + 1)"
    "sent client' = sent client @ msg_bytes 10 (if ok then ''Success'' else ''Failed'') client"
    and each: "\<forall>i < n. sent (nodes' ! i) = pending (rx (c i))
      \<and> (\<exists>c' f1 f'. EngineerIFAThread (Suc (Suc (Suc depth))) (c i) eng (f i) = Inr (c', f')
          \<and> sent c' = pending (rm_output (ok \<or> i = 0) (vote_of txn (f i)) (done_msg ok) (c i))
          \<and> decided eng txn ok (f i) f1 f')"
    by blast
  have "\<forall>i < n. \<exists>c' f'. EngineerIFAThread (Suc (Suc (Suc depth))) (c i) eng (f i) = Inr (c', f')
      \<and> sent c' = pending (rm_output (ok \<or> i = 0) (vote_msg ok) (done_msg ok) (c i))
      \<and> history_ready rest f' \<and> customer_record f' = (if ok then txn_write txn d else d)"
    using each vote next_ready by (metis (no_types, lifting))
  then show ?thesis using run each \<open>sent client = []\<close> by auto
qed

text \<open>
  The connections of a history: in transaction \<open>j\<close>, node \<open>i\<close> receives what the transaction manager sends it,
  and the transaction manager what the node sends. As all nodes hold the same store, either all vote
  yes, or the first one refuses and no other is asked.
\<close>

definition linked ::
  "bool \<Rightarrow> bool \<Rightarrow> Transaction \<Rightarrow> ServerStub \<Rightarrow> ClientStub \<Rightarrow> bool" where
  "linked was_asked ok txn c stub \<longleftrightarrow> conn_ok c \<and> quiet c \<and> sent c = []
     \<and> rx c = tm_messages was_asked ok txn stub
     \<and> up (rm_output was_asked (vote_msg ok) (done_msg ok) c) stub"

definition client_conn :: "ServerSocket \<Rightarrow> endian \<Rightarrow> Transaction \<Rightarrow> ServerSocket" where
  "client_conn listen e r = new_ServerSocket (host listen) (mem_ok listen) (junk listen)
     ([Segment (Transaction_Marshal e r)], []) (IsNagleOn listen)"

lemma history_step:
  assumes "n = nat (sint rms_count)" and "n \<le> length rms" and "length rmNodes = n" and "0 < n"
    and "mem_ok listen" and "\<forall>r \<in> set reqs. fits r" and j: "j < length reqs"
    and txns: "txns = map (\<lambda>j. setTxnId (of_nat j) (reqs ! j)) [0 ..< length reqs]"
    and oks: "oks = fst (rm_history.serial txns d)"
    and inv: "\<forall>i < n. history_ready (drop j txns) (f i)
      \<and> customer_record (f i) = snd (rm_history.serial (take j txns) d)"
    and links: "\<forall>i < n. linked (oks ! j \<or> i = 0) (oks ! j) (txns ! j) (c i) (stub i)"
  shows "(\<exists>client' nodes'. transaction_manager (client_conn listen e (reqs ! j)) rms_count rms stub rmNodes
        (of_nat j) = Inr (client', nodes', of_nat j + 1)
      \<and> sent client' = msg_bytes 10 (if oks ! j then ''Success'' else ''Failed'') listen
      \<and> (\<forall>i < n. sent (nodes' ! i) = pending (rx (c i))))
    \<and> (\<forall>i < n. \<exists>c' f'. EngineerIFAThread (Suc (Suc (Suc depth))) (c i) eng (f i) = Inr (c', f')
          \<and> sent c' = pending (rm_output (oks ! j \<or> i = 0) (vote_msg (oks ! j)) (done_msg (oks ! j)) (c i))
          \<and> history_ready (drop (Suc j) txns) f'
          \<and> customer_record f' = snd (rm_history.serial (take (Suc j) txns) d))"
proof -
  let ?client = "client_conn listen e (reqs ! j)"
  let ?d = "snd (rm_history.serial (take j txns) d)"
  have len: "length txns = length reqs" by (simp add: txns)
  have txn: "txns ! j = setTxnId (of_nat j) (reqs ! j)" using j by (simp add: txns)
  have split: "drop j txns = txns ! j # drop (Suc j) txns" using j len by (simp add: Cons_nth_drop_Suc)
  have ok: "oks ! j = txn_accepts (txns ! j) ?d" unfolding oks using j len by (intro rm_history.serial_nth) simp
  have after: "snd (rm_history.serial (take (Suc j) txns) d) = (if oks ! j then txn_write (txns ! j) ?d else ?d)"
    unfolding oks using j len by (intro rm_history.serial_take_Suc) simp
  have client: "conn_ok ?client" "rx ?client = [Segment (Transaction_Marshal e (reqs ! j))]" "sent ?client = []"
    using \<open>mem_ok listen\<close> by (simp_all add: client_conn_def new_ServerSocket_conn_ok)
  have bytes: "msg_bytes 10 m ?client = msg_bytes 10 m listen" for m
    by (rule msg_bytes_junk) (simp add: client_conn_def new_ServerSocket_conn_ok)
  have fit: "fits (reqs ! j)" using assms(6) j by simp
  show ?thesis
    using history_exchange [OF assms(1-4) client txn fit ok inv [unfolded split], of c stub depth eng] links
    unfolding after bytes linked_def by blast
qed

end
