(* ===== verification/Experiment.thy ===== *)
theory Experiment
  imports Client
begin

text \<open>
  \<^verbatim>\<open>main\<close> of the abort-rate experiment (\<^verbatim>\<open>Experimental.cpp\<close>): ten rounds of concurrent transactions, and
  what it counts. Each thread is described by the value of \<^verbatim>\<open>rand()\<close> that chose its customer, the
  uninitialised transaction id, and its two connections with their scripts. The arguments are not checked:
  a missing one is a read past the end of \<^verbatim>\<open>argv\<close>. The printed rate is floating-point output
  and not modelled.
\<close>

record experiment_thread =
  rand_value :: nat
  uninit_id :: cint
  rm_link :: ClientStub
  tm_link :: ClientStub

text \<open>\<^verbatim>\<open>rand() % num_customers\<close> with \<^verbatim>\<open>num_customers = 5\<close>; \<^verbatim>\<open>rand()\<close> is never negative.\<close>

definition curr_customer :: "experiment_thread \<Rightarrow> cint" where
  "curr_customer th = of_nat (rand_value th mod 5)"

fun map_results :: "('i \<Rightarrow> 'e + 'a) \<Rightarrow> 'i list \<Rightarrow> 'e + 'a list" where
  "map_results f [] = Inr []"
| "map_results f (i # is) = bindE (f i) (\<lambda>x. bindE (map_results f is) (\<lambda>xs. Inr (x # xs)))"

definition experiment_run ::
  "string \<Rightarrow> cint \<Rightarrow> string \<Rightarrow> cint \<Rightarrow> experiment_thread \<Rightarrow> crash + cint" where
  "experiment_run tmip tmport rmip rmport th =
     run_experiment tmip tmport rmip rmport 1 (curr_customer th) (uninit_id th) (rm_link th) (tm_link th)"

text \<open>
  The result is the number of aborts. A negative number of threads makes the constructor of the vector of
  results throw.
\<close>

definition experiment_main ::
  "string list \<Rightarrow> (nat \<Rightarrow> nat \<Rightarrow> experiment_thread) \<Rightarrow> crash + cint" where
  "experiment_main argv th =
     bindE (arg argv 1) (\<lambda>tmip.
     bindE (arg_int argv 2) (\<lambda>tmport.
     bindE (arg argv 3) (\<lambda>rmip.
     bindE (arg_int argv 4) (\<lambda>rmport.
     bindE (arg_int argv 5) (\<lambda>num_threads.
       if sint num_threads < 0 then Inl Terminate
       else bindE (map_results (\<lambda>i. map_results (\<lambda>j. experiment_run tmip tmport rmip rmport (th i j))
                     [0 ..< nat (sint num_threads)]) [0 ..< 10])
              (\<lambda>rounds. Inr (count_aborts rounds)))))))"

section \<open>What is counted\<close>

lemma map_results_Inr: "map_results f is = Inr xs \<longleftrightarrow> list_all2 (\<lambda>i x. f i = Inr x) is xs"
  by (induction "is" arbitrary: xs) (auto simp: list_all2_Cons1)

lemma count_aborts_eq: "count_aborts rounds = of_nat (length (filter (\<lambda>r. r = 0) (concat rounds)))"
proof -
  have inner: "fold (\<lambda>r a. if r = 0 then a + 1 else a) results a
      = a + of_nat (length (filter (\<lambda>r. r = 0) results))" for results and a :: cint
    by (induction results arbitrary: a) (simp_all add: add.commute add.left_commute)
  have "fold (\<lambda>results aborts. fold (\<lambda>r a. if r = 0 then a + 1 else a) results aborts) rounds a
      = a + of_nat (length (filter (\<lambda>r. r = 0) (concat rounds)))" for a :: cint
    by (induction rounds arbitrary: a) (simp_all add: inner)
  then show ?thesis by (simp add: count_aborts_def)
qed

text \<open>The reply a thread gets from the transaction manager; only \<^verbatim>\<open>Failed\<close> counts as an abort.\<close>

definition experiment_reply ::
  "string \<Rightarrow> cint \<Rightarrow> string \<Rightarrow> cint \<Rightarrow> experiment_thread \<Rightarrow> crash + string \<times> ClientStub" where
  "experiment_reply tmip tmport rmip rmport th =
     SendTxnPrepareRequest (experiment_txn (uninit_id th)
         (snd (ThreadBodyReadRequestSingle rmip rmport (curr_customer th) 3 (rm_link th) [])) 1 (curr_customer th))
       (snd (ClientStub_Init tmip tmport (tm_link th)))"

lemma experiment_run_eq:
  "experiment_run tmip tmport rmip rmport th =
     bindE (experiment_reply tmip tmport rmip rmport th) (\<lambda>(reply, _). Inr (if reply = ''Failed'' then 0 else 1))"
  by (simp add: experiment_run_def run_experiment_def experiment_reply_def Let_def)

definition failed :: "crash + string \<times> ClientStub \<Rightarrow> bool" where
  "failed r = (case r of Inr (reply, _) \<Rightarrow> reply = ''Failed'' | Inl _ \<Rightarrow> False)"

lemma experiment_run_failed:
  "experiment_run tmip tmport rmip rmport th = Inr x \<Longrightarrow>
   x = 0 \<longleftrightarrow> failed (experiment_reply tmip tmport rmip rmport th)"
  by (auto simp: experiment_run_eq failed_def split: if_splits prod.splits)

lemma count_zero:
  "list_all2 (\<lambda>i x. f i = Inr x) is xs \<Longrightarrow> (\<And>i x. f i = Inr x \<Longrightarrow> (x = (0 :: cint)) = P i) \<Longrightarrow>
   length (filter (\<lambda>r. r = 0) xs) = length (filter P is)"
  by (induction rule: list_all2_induct) auto

lemma count_zero_rounds:
  "list_all2 (\<lambda>i xs. map_results (g i) js = Inr xs) is rounds \<Longrightarrow>
   (\<And>i j x. g i j = Inr x \<Longrightarrow> (x = (0 :: cint)) = P i j) \<Longrightarrow>
   length (filter (\<lambda>r. r = 0) (concat rounds)) = length (filter (\<lambda>(i, j). P i j) (List.product is js))"
proof (induction rule: list_all2_induct)
  case (Cons i "is" xs rounds)
  have "length (filter (\<lambda>r. r = 0) xs) = length (filter (P i) js)"
    using Cons.hyps(1) Cons.prems by (intro count_zero [of "g i" js]) (auto simp: map_results_Inr)
  then show ?case using Cons.IH Cons.prems by (simp add: filter_map comp_def)
qed simp

text \<open>
  C40. What the experiment measures: with \<open>n\<close> threads its count lies between 0 and \<open>10 * n\<close> and is the
  number of threads, over ten rounds, that were told \<^verbatim>\<open>Failed\<close>. A thread that could not reach the
  transaction manager, or lost its reply, is not counted.
\<close>

theorem experiment_counts_failed:
  assumes "experiment_main argv th = Inr aborts" and "arg_int argv 5 = Inr n" and "10 * sint n < 2 ^ 31"
    and "arg argv 1 = Inr tmip" and "arg_int argv 2 = Inr tmport" and "arg argv 3 = Inr rmip"
    and "arg_int argv 4 = Inr rmport"
  shows "sint aborts = int (length (filter (\<lambda>(i, j). failed (experiment_reply tmip tmport rmip rmport (th i j)))
      (List.product [0 ..< 10] [0 ..< nat (sint n)])))
    \<and> 0 \<le> sint aborts \<and> sint aborts \<le> 10 * sint n"
proof -
  let ?P = "\<lambda>i j. failed (experiment_reply tmip tmport rmip rmport (th i j))"
  let ?runs = "List.product [0 ..< 10] [0 ..< nat (sint n)]"
  let ?k = "length (filter (\<lambda>(i, j). ?P i j) ?runs)"
  have pos: "0 \<le> sint n" using assms by (auto simp: experiment_main_def split: if_splits)
  obtain rounds where rounds: "map_results (\<lambda>i. map_results (\<lambda>j. experiment_run tmip tmport rmip rmport (th i j))
      [0 ..< nat (sint n)]) [0 ..< 10] = Inr rounds" "aborts = count_aborts rounds"
    using assms pos by (auto simp: experiment_main_def)
  have "length (filter (\<lambda>r. r = 0) (concat rounds)) = ?k"
    using rounds(1) unfolding map_results_Inr
    by (intro count_zero_rounds [where g = "\<lambda>i j. experiment_run tmip tmport rmip rmport (th i j)"])
      (simp_all only: map_results_Inr experiment_run_failed)
  then have count: "aborts = of_nat ?k" by (simp add: rounds(2) count_aborts_eq)
  have "?k \<le> length ?runs" by (rule length_filter_le)
  also have "int (length ?runs) = 10 * sint n" using pos by (simp add: length_product)
  finally have le: "int ?k \<le> 10 * sint n" by simp
  have "sint (word_of_int (int ?k) :: cint) = int ?k"
    using le assms(3) by (intro sint_of_small_int) auto
  then have "sint aborts = int ?k" by (simp add: count)
  then show ?thesis using le by simp
qed

text \<open>
  Witness: two threads; nobody can be reached, and no abort is counted.
\<close>

definition lonely_thread :: experiment_thread where
  "lonely_thread = \<lparr>rand_value = 7, uninit_id = 0, rm_link = new_ClientSocket LittleEndian True [] [],
     tm_link = new_ClientSocket LittleEndian True [] []\<rparr>"

definition demo_argv :: "string list" where
  "demo_argv = [''experiment'', ''tm'', ''1'', ''rm'', ''2'', ''2'']"

lemma demo_argv_parsed:
  "arg demo_argv 1 = Inr ''tm''" "arg_int demo_argv 2 = Inr 1" "arg demo_argv 3 = Inr ''rm''"
  "arg_int demo_argv 4 = Inr 2" "arg_int demo_argv 5 = Inr 2"
  by (simp_all add: demo_argv_def arg_int_def arg_def atoi_def is_space_def read_sign_def is_digit_def
      read_nat_def digit_val_def in_int_range_def numeral_3_eq_3 numeral_2_eq_2)

lemma lonely_reply: "\<exists>n. experiment_reply tmip tmport rmip rmport lonely_thread = Inr (''error'', n)"
  by (simp add: experiment_reply_def lonely_thread_def SendTxnPrepareRequest_def getIsInitialized_def
      ClientStub_Init_def ClientSocket_Init_def new_ClientSocket_def new_Socket_def Socket.extend_def
      ClientSocket.fields_def)

lemma map_results_const: "f = (\<lambda>i. Inr x) \<Longrightarrow> map_results f is = Inr (replicate (length is) x)"
  by (induction "is") simp_all

lemma lonely_run: "experiment_run a b c d lonely_thread = Inr 1"
proof -
  obtain n where n: "experiment_reply a b c d lonely_thread = Inr (''error'', n)"
    using lonely_reply by blast
  show ?thesis unfolding experiment_run_eq n by simp
qed

lemma lonely_not_failed: "failed (experiment_reply a b c d lonely_thread) = False"
proof -
  obtain n where n: "experiment_reply a b c d lonely_thread = Inr (''error'', n)"
    using lonely_reply by blast
  show ?thesis unfolding failed_def n by simp
qed

lemma experiment_counts_failed_witness:
  "\<exists>aborts. experiment_main demo_argv (\<lambda>i j. lonely_thread) = Inr aborts \<and> sint aborts = 0"
proof -
  have "experiment_main demo_argv (\<lambda>i j. lonely_thread) = Inr (count_aborts
      (replicate (length [0 ..< 10]) (replicate (length [0 ..< nat (sint (2 :: cint))]) 1)))"
    unfolding experiment_main_def demo_argv_parsed bindE.simps lonely_run map_results_const [OF refl]
    by simp
  then obtain aborts where aborts: "experiment_main demo_argv (\<lambda>i j. lonely_thread) = Inr aborts" ..
  have empty: "filter (\<lambda>(i, j). False) xs = []" for xs :: "(nat \<times> nat) list"
    by (simp add: case_prod_beta)
  have small: "10 * sint (2 :: cint) < 2 ^ 31" by simp
  have "sint aborts = 0"
    using experiment_counts_failed [OF aborts demo_argv_parsed(5) small demo_argv_parsed(1-4)]
    unfolding lonely_not_failed empty by simp
  then show ?thesis using aborts by blast
qed

end
