(* ===== verification/Timer.thy ===== *)
theory Timer
  imports Prelude
begin

text \<open>
  \<^verbatim>\<open>ClientTimer\<close>: the stop watch of a client thread and the statistics over its readings, and the merging
  of the threads' timers in the client's \<^verbatim>\<open>main\<close>. Durations are values of a linearly ordered type
  with an addition of which no law is used (the program's are double-precision microseconds, none of
  them a NaN); the clock readings, and the conversion of a difference of two of them to a duration, are
  parameters. \<^verbatim>\<open>PrintStats\<close> is output only. Main lemmas: count, minimum, maximum and sum after a run of
  measurements and after a merge.
\<close>

record ('t, 'd) ClientTimer =
  tm_sum :: 'd
  tm_max :: 'd
  tm_min :: 'd
  op_count :: cint
  start_time :: 't
  elapsed_time :: 'd

text \<open>
  The constructor: \<open>zero\<close> is 0, \<open>huge\<close> is 9999999999.9; the time of the start and the elapsed time
  begin at the epoch and at a duration without a value (\<open>t0\<close>, \<open>d0\<close>).
\<close>

definition new_ClientTimer :: "'d \<Rightarrow> 'd \<Rightarrow> 't \<Rightarrow> 'd \<Rightarrow> ('t, 'd) ClientTimer" where
  "new_ClientTimer zero huge t0 d0 =
     \<lparr>tm_sum = zero, tm_max = zero, tm_min = huge, op_count = 0, start_time = t0, elapsed_time = d0\<rparr>"

definition assign_ClientTimer ::
  "('t, 'd) ClientTimer \<Rightarrow> ('t, 'd) ClientTimer \<Rightarrow> ('t, 'd) ClientTimer" where
  "assign_ClientTimer timer this =
     this\<lparr>tm_sum := tm_sum timer, tm_max := tm_max timer, tm_min := tm_min timer,
       op_count := op_count timer, start_time := start_time timer, elapsed_time := elapsed_time timer\<rparr>"

lemma assign_ClientTimer_eq [simp]: "assign_ClientTimer timer this = timer"
  by (simp add: assign_ClientTimer_def)

definition Start :: "'t \<Rightarrow> ('t, 'd) ClientTimer \<Rightarrow> ('t, 'd) ClientTimer" where
  "Start now this = this\<lparr>start_time := now\<rparr>"

definition End :: "('t \<Rightarrow> 't \<Rightarrow> 'd) \<Rightarrow> 't \<Rightarrow> ('t, 'd) ClientTimer \<Rightarrow> ('t, 'd) ClientTimer" where
  "End since end_time this = this\<lparr>elapsed_time := since end_time (start_time this)\<rparr>"

definition EndAndMerge ::
  "('t \<Rightarrow> 't \<Rightarrow> 'd :: {plus, linorder}) \<Rightarrow> 't \<Rightarrow> ('t, 'd) ClientTimer \<Rightarrow> ('t, 'd) ClientTimer" where
  "EndAndMerge since end_time this =
     (let t0 = End since end_time this;
          t1 = t0\<lparr>op_count := op_count t0 + 1\<rparr>;
          t2 = t1\<lparr>tm_sum := tm_sum t1 + elapsed_time t1\<rparr>;
          t3 = (if elapsed_time t2 < tm_min t2 then t2\<lparr>tm_min := elapsed_time t2\<rparr> else t2)
      in if tm_max t3 < elapsed_time t3 then t3\<lparr>tm_max := elapsed_time t3\<rparr> else t3)"

definition Merge ::
  "('t, 'd :: {plus, linorder}) ClientTimer \<Rightarrow> ('t, 'd) ClientTimer \<Rightarrow> ('t, 'd) ClientTimer" where
  "Merge timer this =
     (let t1 = this\<lparr>tm_sum := tm_sum this + tm_sum timer\<rparr>;
          t2 = t1\<lparr>op_count := op_count t1 + op_count timer\<rparr>;
          t3 = (if tm_min timer < tm_min t2 then t2\<lparr>tm_min := tm_min timer\<rparr> else t2)
      in if tm_max t3 < tm_max timer then t3\<lparr>tm_max := tm_max timer\<rparr> else t3)"

section \<open>Runs of measurements\<close>

text \<open>One timed request, from its start to its end, and a thread's requests one after the other.\<close>

definition measure_one ::
  "('t \<Rightarrow> 't \<Rightarrow> 'd :: {plus, linorder}) \<Rightarrow> 't \<times> 't \<Rightarrow> ('t, 'd) ClientTimer \<Rightarrow> ('t, 'd) ClientTimer" where
  "measure_one since m timer = EndAndMerge since (snd m) (Start (fst m) timer)"

definition measure_all ::
  "('t \<Rightarrow> 't \<Rightarrow> 'd :: {plus, linorder}) \<Rightarrow> ('t \<times> 't) list \<Rightarrow> ('t, 'd) ClientTimer \<Rightarrow> ('t, 'd) ClientTimer" where
  "measure_all since ms timer = fold (measure_one since) ms timer"

definition reading :: "('t \<Rightarrow> 't \<Rightarrow> 'd) \<Rightarrow> 't \<times> 't \<Rightarrow> 'd" where
  "reading since m = since (snd m) (fst m)"

lemma measure_one_fields:
  "tm_sum (measure_one since m timer) = tm_sum timer + reading since m"
  "op_count (measure_one since m timer) = op_count timer + 1"
  "tm_min (measure_one since m timer) = min (tm_min timer) (reading since m)"
  "tm_max (measure_one since m timer) = max (tm_max timer) (reading since m)"
  by (simp_all add: measure_one_def EndAndMerge_def End_def Start_def reading_def Let_def)

lemma Merge_fields:
  "tm_sum (Merge timer this) = tm_sum this + tm_sum timer"
  "op_count (Merge timer this) = op_count this + op_count timer"
  "tm_min (Merge timer this) = min (tm_min this) (tm_min timer)"
  "tm_max (Merge timer this) = max (tm_max this) (tm_max timer)"
  by (simp_all add: Merge_def Let_def)

lemma Min_snoc: "Min (insert a (set (xs @ [x]))) = min (Min (insert a (set xs))) (x :: 'd :: linorder)"
  and Max_snoc: "Max (insert a (set (xs @ [x]))) = max (Max (insert a (set xs))) x"
proof -
  have "insert a (set (xs @ [x])) = insert x (insert a (set xs))" by auto
  then show "Min (insert a (set (xs @ [x]))) = min (Min (insert a (set xs))) x"
    "Max (insert a (set (xs @ [x]))) = max (Max (insert a (set xs))) x"
    by (simp_all only: Min_insert Max_insert finite_insert finite_set insert_not_empty
        min.commute max.commute not_False_eq_True)
qed

lemma measure_all_fields:
  "op_count (measure_all since ms timer) = op_count timer + of_nat (length ms)"
  "tm_sum (measure_all since ms timer) = foldl (+) (tm_sum timer) (map (reading since) ms)"
  "tm_min (measure_all since ms timer) = Min (insert (tm_min timer) (set (map (reading since) ms)))"
  "tm_max (measure_all since ms timer) = Max (insert (tm_max timer) (set (map (reading since) ms)))"
proof (induction ms rule: rev_induct)
  case (snoc m ms)
  have step: "measure_all since (ms @ [m]) timer = measure_one since m (measure_all since ms timer)"
    by (simp add: measure_all_def)
  { case 1 then show ?case using snoc.IH(1) by (simp add: step measure_one_fields)
  next case 2 then show ?case using snoc.IH(2) by (simp add: step measure_one_fields)
  next case 3 then show ?case using snoc.IH(3) by (simp only: step measure_one_fields map_append list.map Min_snoc)
  next case 4 then show ?case using snoc.IH(4) by (simp only: step measure_one_fields map_append list.map Max_snoc) }
qed (simp_all add: measure_all_def)

text \<open>What the client's \<^verbatim>\<open>main\<close> does with the timers of its threads.\<close>

definition merge_all ::
  "('t, 'd :: {plus, linorder}) ClientTimer list \<Rightarrow> ('t, 'd) ClientTimer \<Rightarrow> ('t, 'd) ClientTimer" where
  "merge_all timers timer = fold Merge timers timer"

lemma merge_all_fields:
  "op_count (merge_all timers timer) = op_count timer + sum_list (map op_count timers)"
  "tm_min (merge_all timers timer) = Min (insert (tm_min timer) (set (map tm_min timers)))"
  "tm_max (merge_all timers timer) = Max (insert (tm_max timer) (set (map tm_max timers)))"
proof (induction timers rule: rev_induct)
  case (snoc x timers)
  have step: "merge_all (timers @ [x]) timer = Merge x (merge_all timers timer)"
    by (simp add: merge_all_def)
  { case 1 then show ?case using snoc.IH(1) by (simp add: step Merge_fields)
  next case 2 then show ?case using snoc.IH(2) by (simp only: step Merge_fields map_append list.map Min_snoc)
  next case 3 then show ?case using snoc.IH(3) by (simp only: step Merge_fields map_append list.map Max_snoc) }
qed (simp_all add: merge_all_def)

lemma Min_nested:
    "Min (insert a (set (map (\<lambda>ds. Min (insert a (set ds))) dss))) = Min (insert (a :: 'd :: linorder) (set (concat dss)))"
  and Max_nested:
    "Max (insert a (set (map (\<lambda>ds. Max (insert a (set ds))) dss))) = Max (insert a (set (concat dss)))"
proof (induction dss)
  case (Cons ds dss)
  let ?A = "insert a (set ds)" and ?B = "insert a (set (concat dss))"
  have union: "insert a (set (concat (ds # dss))) = ?A \<union> ?B" by auto
  have swap: "insert a (set (map f (ds # dss))) = insert (f ds) (insert a (set (map f dss)))" for f :: "'d list \<Rightarrow> 'd"
    by auto
  { case 1 show ?case unfolding union swap using Cons.IH(1) by (simp only: Min_insert Min_Un finite_insert finite_set insert_not_empty not_False_eq_True)
  next case 2 show ?case unfolding union swap using Cons.IH(2) by (simp only: Max_insert Max_Un finite_insert finite_set insert_not_empty not_False_eq_True) }
qed simp_all

text \<open>
  The client's statistics: after every thread has timed its requests on a fresh timer and the timers
  have been merged, the operation count is the number of requests of all threads, the minimum is the
  least of all readings (at most the start value 9999999999.9) and the maximum the greatest (at least 0).
\<close>

lemma timer_statistics:
  fixes zero huge :: "'d :: {plus, linorder}"
  assumes "timers = map (\<lambda>ms. measure_all since ms (new_ClientTimer zero huge t0 d0)) mss"
  shows "op_count (merge_all timers (new_ClientTimer zero huge t0 d0)) = of_nat (length (concat mss))
    \<and> tm_min (merge_all timers (new_ClientTimer zero huge t0 d0))
        = Min (insert huge (set (map (reading since) (concat mss))))
    \<and> tm_max (merge_all timers (new_ClientTimer zero huge t0 d0))
        = Max (insert zero (set (map (reading since) (concat mss))))"
proof (intro conjI)
  show "op_count (merge_all timers (new_ClientTimer zero huge t0 d0)) = of_nat (length (concat mss))"
    unfolding assms by (simp add: merge_all_fields measure_all_fields new_ClientTimer_def comp_def)
      (induction mss; simp)
next
  show "tm_min (merge_all timers (new_ClientTimer zero huge t0 d0))
      = Min (insert huge (set (map (reading since) (concat mss))))"
    using Min_nested [of huge "map (map (reading since)) mss"] unfolding assms merge_all_fields
    by (simp only: measure_all_fields map_map comp_def new_ClientTimer_def ClientTimer.simps map_concat)
next
  show "tm_max (merge_all timers (new_ClientTimer zero huge t0 d0))
      = Max (insert zero (set (map (reading since) (concat mss))))"
    using Max_nested [of zero "map (map (reading since)) mss"] unfolding assms merge_all_fields
    by (simp only: measure_all_fields map_map comp_def new_ClientTimer_def ClientTimer.simps map_concat)
qed

text \<open>Witness: two threads, readings 4 and 9, and 2; times and durations are whole microseconds.\<close>

lemma timer_statistics_witness:
  "tm_min (merge_all (map (\<lambda>ms. measure_all (-) ms (new_ClientTimer 0 99 0 0)) [[(1, 5), (6, 15)], [(0, 2 :: int)]])
     (new_ClientTimer 0 99 0 0)) = 2"
  using timer_statistics [OF refl, where zero = 0 and huge = "99 :: int" and since = "(-)"
      and mss = "[[(1, 5), (6, 15)], [(0, 2)]]" and ?t0.0 = 0 and ?d0.0 = 0]
  by (simp add: reading_def)

end
