(* ===== verification/Console.thy ===== *)
theory Console
  imports Client Timer
begin

text \<open>
  The terminal: what the classes print (\<^verbatim>\<open>Print\<close> and \<^verbatim>\<open>print\<close> of \<^verbatim>\<open>Messages.cpp\<close>, \<^verbatim>\<open>printIndices\<close> of
  \<^verbatim>\<open>ServerThread.cpp\<close>), how the client reads its two lines of input from \<^verbatim>\<open>std::cin\<close>, and the client program
  from its input to its output, with its threads' objects and timers. The clock's readings and the text of the
  timer's statistics, which are formatted floating-point numbers, are parameters. Main lemmas: an input line is
  read back as written; the bodies of the threads do what the ones of \<open>Client\<close> do; what the program prints.
\<close>

section \<open>Printing\<close>

definition endl :: string where
  "endl = [CHR 0x0A]"

definition tab :: string where
  "tab = [CHR 0x09]"

definition CustomerOrder_Print :: "CustomerOrder \<Rightarrow> string" where
  "CustomerOrder_Print o' =
     ''id '' @ show_int (co_customer_id o') @ '' '' @ ''num '' @ show_int (co_order_number o') @ '' '' @
     ''type '' @ show_int (co_request_type o') @ endl"

definition LaptopInfo_Print :: "LaptopInfo \<Rightarrow> string" where
  "LaptopInfo_Print l =
     ''id '' @ show_int (li_customer_id l) @ '' '' @ ''num '' @ show_int (li_order_number l) @ '' '' @
     ''type '' @ show_int (li_request_type l) @ '' '' @ ''engid '' @ show_int (li_engineer_id l) @ '' '' @
     ''expid '' @ show_int (li_admin_id l) @ endl"

definition CustomerRecord_print :: "CustomerRecord \<Rightarrow> string" where
  "CustomerRecord_print r =
     ''cust id '' @ show_int (cr_customer_id r) @ tab @ ''last order '' @ show_int (cr_last_order r) @ endl"

definition ReplicationRequest_print :: "ReplicationRequest \<Rightarrow> string" where
  "ReplicationRequest_print req =
     '' Fact id '' @ show_int (rr_factory_id req) @ '' cidx '' @ show_int (rr_committed_index req) @
     '' la idx '' @ show_int (rr_last_index req) @ endl"

definition Transaction_print :: "Transaction \<Rightarrow> string" where
  "Transaction_print txn =
     concat (map CustomerRecord_print (readRecords txn)) @ concat (map CustomerOrder_Print (writeRecords txn))"

definition printIndices :: "LaptopFactory \<Rightarrow> string" where
  "printIndices s =
     ''Committed idx: '' @ show_int (committed_index s) @ '' Last Index: '' @ show_int (last_index s) @ endl"

section \<open>Reading the input\<close>

text \<open>
  An input stream: the text that is left, and \<^verbatim>\<open>failbit\<close>. A failed stream leaves every variable as it is, and so
  does one at its end; a number that cannot be read sets the variable to 0, one out of range to the nearest
  \<^verbatim>\<open>int\<close>.
\<close>

record istream =
  in_text :: string
  in_failed :: bool

definition unread_int :: "string \<Rightarrow> cint" where
  "unread_int s =
     (case read_sign (dropWhile is_space s) of (neg, s') \<Rightarrow>
        if takeWhile is_digit s' = [] then 0 else if neg then - (2 ^ 31) else 2 ^ 31 - 1)"

definition extract_int :: "cint \<Rightarrow> istream \<Rightarrow> cint \<times> istream" where
  "extract_int old i =
     (if in_failed i \<or> dropWhile is_space (in_text i) = [] then (old, i\<lparr>in_failed := True\<rparr>)
      else case read_cint (in_text i) of
        Some (w, r) \<Rightarrow> (w, i\<lparr>in_text := r\<rparr>)
      | None \<Rightarrow> (unread_int (in_text i), i\<lparr>in_failed := True\<rparr>))"

definition extract_word :: "string \<Rightarrow> istream \<Rightarrow> string \<times> istream" where
  "extract_word old i =
     (let s = dropWhile is_space (in_text i)
      in if in_failed i \<or> s = [] then (old, i\<lparr>in_failed := True\<rparr>)
         else (takeWhile (\<lambda>c. \<not> is_space c) s, i\<lparr>in_text := dropWhile (\<lambda>c. \<not> is_space c) s\<rparr>))"

text \<open>\<^verbatim>\<open>std::cin >> request_type >> ip >> port >> num_customers >> num_orders\<close>, over the old values.\<close>

definition read_stage :: "stage \<Rightarrow> istream \<Rightarrow> stage \<times> istream" where
  "read_stage old i =
     (let (ty, i1) = extract_int (st_request_type old) i;
          (ip, i2) = extract_word (st_ip old) i1;
          (port, i3) = extract_int (st_port old) i2;
          (customers, i4) = extract_int (st_num_customers old) i3;
          (orders, i5) = extract_int (st_num_orders old) i4
      in (\<lparr>st_request_type = ty, st_ip = ip, st_port = port, st_num_customers = customers,
           st_num_orders = orders\<rparr>, i5))"

section \<open>The threads' objects\<close>

text \<open>\<open>clock k\<close> is what the thread's k-th look at the clock shows.\<close>

record ('t, 'd) ClientThreadClass =
  ct_customer_id :: cint
  ct_num_orders :: cint
  ct_request_type :: cint
  ct_stub :: ClientStub
  ct_timer :: "('t, 'd) ClientTimer"

definition GetTimer :: "('t, 'd) ClientThreadClass \<Rightarrow> ('t, 'd) ClientTimer" where
  "GetTimer cls = ct_timer cls"

text \<open>
  What connecting and the prepare request print before they return; \<open>strerror\<close> is the text of the error the
  kernel reports. A descriptor that cannot be created is reported on the error stream only.
\<close>

definition ClientSocket_Init_out :: "(ClientStub \<Rightarrow> string) \<Rightarrow> ClientStub \<Rightarrow> string" where
  "ClientSocket_Init_out strerror s =
     (if is_initialized s then []
      else case dials s of
        NoSocket # d \<Rightarrow> []
      | Established r t # d \<Rightarrow> []
      | _ \<Rightarrow> ''ERROR: failed to connect: '' @ strerror s @ endl)"

definition SendTxnPrepareRequest_out :: "ClientStub \<Rightarrow> string" where
  "SendTxnPrepareRequest_out s =
     (if \<not> mem_ok s then ''Malloc failed'' @ endl
      else if \<not> getIsInitialized s then ''socket not initialized'' @ endl
      else [])"

text \<open>The loop of \<^verbatim>\<open>ThreadBody\<close>: printed text, stub, timer and records. A \<^verbatim>\<open>break\<close> leaves the timer started.\<close>

fun read_loop_run ::
  "('t \<Rightarrow> 't \<Rightarrow> 'd :: {plus, linorder}) \<Rightarrow> (nat \<Rightarrow> 't) \<Rightarrow> nat \<Rightarrow> cint \<Rightarrow> cint list \<Rightarrow> ClientStub \<Rightarrow>
   ('t, 'd) ClientTimer \<Rightarrow> CustomerRecord list \<Rightarrow>
   string \<times> ClientStub \<times> ('t, 'd) ClientTimer \<times> CustomerRecord list" where
  "read_loop_run since clock k request_type [] stub timer reads = ([], stub, timer, reads)"
| "read_loop_run since clock k request_type (i # is) stub timer reads =
     (let timer1 = Start (clock k) timer
      in if request_type = 3 then
           (case ReadRecord (SetOrder i (-1) 2 new_CustomerOrder) stub of (record, stub1) \<Rightarrow>
              if cr_customer_id record = -1 then ([], stub1, timer1, reads @ [record])
              else case read_loop_run since clock (k + 2) request_type is stub1
                     (EndAndMerge since (clock (k + 1)) timer1) (reads @ [record]) of
                (out, st) \<Rightarrow> (CustomerRecord_print record @ out, st))
         else (''Invalid request type '' @ show_int request_type @ endl, stub, timer1, reads))"

definition ThreadBody_run ::
  "(ClientStub \<Rightarrow> string) \<Rightarrow> ('t \<Rightarrow> 't \<Rightarrow> 'd :: {plus, linorder}) \<Rightarrow> (nat \<Rightarrow> 't) \<Rightarrow> string \<Rightarrow> cint \<Rightarrow> cint \<Rightarrow> cint \<Rightarrow> cint \<Rightarrow>
   ('t, 'd) ClientThreadClass \<Rightarrow> CustomerRecord list \<Rightarrow>
   string \<times> ('t, 'd) ClientThreadClass \<times> CustomerRecord list" where
  "ThreadBody_run strerror since clock ip port id' orders type this reads =
     (let this1 = this\<lparr>ct_customer_id := id', ct_num_orders := orders, ct_request_type := type\<rparr>
      in case ClientStub_Init ip port (ct_stub this1) of (ok, stub1) \<Rightarrow>
        if ok = 0 then
          (ClientSocket_Init_out strerror (ct_stub this1)
             @ ''Thread '' @ show_int (ct_customer_id this1) @ '' failed to connect'' @ endl, this1\<lparr>ct_stub := stub1\<rparr>, reads)
        else case SendIDMsg ''CLIENT'' stub1 of (r, stub2) \<Rightarrow>
          if r \<le> 0 then (''Error sending id msg'' @ endl, this1\<lparr>ct_stub := stub2\<rparr>, reads)
          else case read_loop_run since clock 0 (ct_request_type this1) (counted (ct_num_orders this1)) stub2
                      (ct_timer this1) reads of
            (out, stub3, timer, reads1) \<Rightarrow> (out, this1\<lparr>ct_stub := stub3, ct_timer := timer\<rparr>, reads1))"

definition ThreadBodyWriteRequest_run ::
  "('t \<Rightarrow> 't \<Rightarrow> 'd :: {plus, linorder}) \<Rightarrow> (nat \<Rightarrow> 't) \<Rightarrow> cint \<Rightarrow> cint \<Rightarrow> cint \<Rightarrow>
   ('t, 'd) ClientThreadClass \<Rightarrow> CustomerRecord list \<Rightarrow> ('t, 'd) ClientThreadClass \<times> CustomerOrder list" where
  "ThreadBodyWriteRequest_run since clock id' orders type this reads =
     (let this1 = this\<lparr>ct_customer_id := id', ct_num_orders := orders, ct_request_type := type\<rparr>
      in (this1\<lparr>ct_timer := measure_all since (map (\<lambda>k. (clock (2 * k), clock (2 * k + 1)))
             [0 ..< nat (sint (ct_num_orders this1))]) (ct_timer this1)\<rparr>,
          ThreadBodyWriteRequest (ct_customer_id this1) (ct_num_orders this1) (ct_request_type this1) reads))"

section \<open>The client from input to output\<close>

text \<open>
  \<^verbatim>\<open>main\<close>: \<open>uninit_stage\<close> is what the variables hold before the first line is read, \<open>zeroed\<close> the timer after its
  construction, \<open>thread_class\<close> a thread's object after its construction but for its stub and timer; \<open>clock\<close> is
  \<^verbatim>\<open>main\<close>'s clock, \<open>clocks s i\<close> that of thread \<open>i\<close> of stage \<open>s\<close>; \<open>PrintStats\<close> is the text of the statistics, \<open>strerror\<close> that
  of a failed connection. The rest as in \<open>client_main\<close>.
\<close>

definition client_program ::
  "string \<Rightarrow> (ClientStub \<Rightarrow> string) \<Rightarrow> stage \<Rightarrow> ('t \<Rightarrow> 't \<Rightarrow> 'd :: {plus, linorder}) \<Rightarrow> (nat \<Rightarrow> 't) \<Rightarrow> (nat \<Rightarrow> nat \<Rightarrow> nat \<Rightarrow> 't) \<Rightarrow>
   ('t, 'd) ClientTimer \<Rightarrow> ('t, 'd) ClientThreadClass \<Rightarrow> (('t, 'd) ClientTimer \<Rightarrow> string) \<Rightarrow>
   nat list \<Rightarrow> cint \<Rightarrow> ClientStub \<Rightarrow> ClientStub \<Rightarrow> (crash + string \<times> ClientStub) option" where
  "client_program input strerror uninit_stage since clock clocks zeroed thread_class PrintStats schedule uninit rm_stub tm_stub =
     (let (st1, i1) = read_stage uninit_stage \<lparr>in_text = input, in_failed = False\<rparr>;
          cls = thread_class\<lparr>ct_timer := zeroed\<rparr>;
          timer0 = Start (clock 0) zeroed
      in if 1 < sint (st_num_customers st1) then Some (Inl Undefined) else
      let (printed, readers, reads) = (if st_num_customers st1 = 1
            then (case ThreadBody_run strerror since (clocks 0 0) (st_ip st1) (st_port st1) 0 (st_num_orders st1)
                         (st_request_type st1) (cls\<lparr>ct_stub := rm_stub\<rparr>) [] of
                    (out, reader, reads) \<Rightarrow> (out, [reader], reads))
            else ([], [], []));
          timer1 = merge_all (map GetTimer readers) (End since (clock 1) timer0);
          (st2, i2) = read_stage st1 i1;
          timer2 = Start (clock 2) timer1;
          ran = map (\<lambda>k. ThreadBodyWriteRequest_run since (clocks 1 k) (of_nat k) (st_num_orders st2)
                  (st_request_type st2) cls reads) [0 ..< nat (sint (st_num_customers st2))];
          timer3 = merge_all (map (GetTimer \<circ> fst) ran) (End since (clock 3) timer2);
          connected = snd (ClientStub_Init (st_ip st2) (st_port st2) tm_stub);
          timer4 = End since (clock 5) (Start (clock 4) timer3)
      in case merge schedule (map snd ran) of
           None \<Rightarrow> None
         | Some writes \<Rightarrow>
             Some (bindE (SendTxnPrepareRequest (client_txn uninit reads writes) connected) (\<lambda>(reply, stub).
               Inr (printed @ PrintStats timer1 @ PrintStats timer3 @ ClientSocket_Init_out strerror tm_stub @
                    ''Transaction result and stats: '' @ endl @ SendTxnPrepareRequest_out connected @
                    reply @ endl @ PrintStats timer4, stub))))"

text \<open>The bodies with objects and timers do what those of \<open>Client\<close> do.\<close>

lemma read_loop_run_eq:
  "\<exists>out timer'. read_loop_run since clock k ty is stub timer reads =
     (out, fst (read_loop ty is stub reads), timer', snd (read_loop ty is stub reads))"
proof (induction "is" arbitrary: k stub timer reads)
  case Nil
  then show ?case by simp
next
  case (Cons i "is")
  obtain cr stub1 where read: "ReadRecord (SetOrder i (-1) 2 new_CustomerOrder) stub = (cr, stub1)"
    by force
  show ?case
    using Cons.IH [of "k + 2" stub1 "EndAndMerge since (clock (k + 1)) (Start (clock k) timer)" "reads @ [cr]"]
    by (auto simp: read Let_def split: prod.splits)
qed

lemma ThreadBody_run_eq:
  "\<exists>out this'. ThreadBody_run strerror since clock ip port c orders ty this reads =
     (out, this', snd (ThreadBody ip port orders ty (ct_stub this) reads))
   \<and> ct_stub this' = fst (ThreadBody ip port orders ty (ct_stub this) reads)"
proof -
  obtain ok stub1 where connect: "ClientStub_Init ip port (ct_stub this) = (ok, stub1)" by force
  obtain r stub2 where msg: "SendIDMsg ''CLIENT'' stub1 = (r, stub2)" by force
  show ?thesis
    using read_loop_run_eq [of since clock 0 ty "counted orders" stub2 "ct_timer this" reads]
    by (auto simp: ThreadBody_run_def ThreadBody_def client_hello_def connect msg Let_def split: prod.splits)
qed

lemma write_run_orders [simp]:
  "snd (ThreadBodyWriteRequest_run since clock c n ty this reads) = ThreadBodyWriteRequest c n ty reads"
  by (simp add: ThreadBodyWriteRequest_run_def Let_def)

text \<open>The program of \<open>Client\<close> is this one without text and timers.\<close>

lemma client_program_main:
  assumes "read_stage uninit_stage \<lparr>in_text = input, in_failed = False\<rparr> = (st1, i1)"
    and "read_stage st1 i1 = (st2, i2)"
  shows "\<exists>printed printed2 printed3 t1 t3 t4. client_program input strerror uninit_stage since clock clocks zeroed thread_class PrintStats schedule
      uninit rm_stub tm_stub =
    map_option (\<lambda>r. bindE r (\<lambda>(reply, stub). Inr (printed @ PrintStats t1 @ PrintStats t3 @ printed2 @
        ''Transaction result and stats: '' @ endl @ printed3 @ reply @ endl @ PrintStats t4, stub)))
      (client_main st1 st2 schedule uninit rm_stub tm_stub)"
proof -
  obtain out this' where run: "ThreadBody_run strerror since (clocks 0 0) (st_ip st1) (st_port st1) 0 (st_num_orders st1)
      (st_request_type st1) (thread_class\<lparr>ct_timer := zeroed, ct_stub := rm_stub\<rparr>) [] =
    (out, this', snd (ThreadBody (st_ip st1) (st_port st1) (st_num_orders st1) (st_request_type st1) rm_stub []))"
    using ThreadBody_run_eq [of strerror since "clocks 0 0" "st_ip st1" "st_port st1" 0 "st_num_orders st1"
        "st_request_type st1" "thread_class\<lparr>ct_timer := zeroed, ct_stub := rm_stub\<rparr>" "[]"] by auto
  have choose: "\<exists>p p2 p3 t1 t3 t4. (case m of None \<Rightarrow> None | Some ws \<Rightarrow> Some (bindE (f ws) (\<lambda>(reply, stub).
        Inr (p0 @ PrintStats u1 @ PrintStats u3 @ q2 @ ''Transaction result and stats: '' @ endl @ q3 @ reply @ endl @ PrintStats u4, stub))))
      = map_option (\<lambda>r. bindE r (\<lambda>(reply, stub). Inr (p @ PrintStats t1 @ PrintStats t3 @ p2 @
          ''Transaction result and stats: '' @ endl @ p3 @ reply @ endl @ PrintStats t4, stub)))
        (case m of None \<Rightarrow> None | Some ws \<Rightarrow> Some (f ws))"
    for m f p0 q2 q3 u1 u3 u4
    by (intro exI [of _ p0] exI [of _ q2] exI [of _ q3] exI [of _ u1] exI [of _ u3] exI [of _ u4]) (simp split: option.split)
  consider "1 < sint (st_num_customers st1)" | "st_num_customers st1 = 1"
    | "\<not> 1 < sint (st_num_customers st1)" "st_num_customers st1 \<noteq> 1" by blast
  then show ?thesis
  proof cases
    case 1
    then show ?thesis by (simp add: client_program_def client_main_def assms Let_def)
  next
    case 2
    show ?thesis
      using 2 choose by (simp add: client_program_def client_main_def assms run counted_def comp_def Let_def)
  next
    case 3
    show ?thesis
      using 3 choose by (simp add: client_program_def client_main_def assms counted_def comp_def Let_def)
  qed
qed

section \<open>An input line is read back\<close>

definition stage_line :: "stage \<Rightarrow> string" where
  "stage_line st =
     show_int (st_request_type st) @ '' '' @ st_ip st @ '' '' @ show_int (st_port st) @ '' '' @
     show_int (st_num_customers st) @ '' '' @ show_int (st_num_orders st) @ endl"

text \<open>An address is a word.\<close>

definition word_ok :: "string \<Rightarrow> bool" where
  "word_ok s \<longleftrightarrow> s \<noteq> [] \<and> (\<forall>c \<in> set s. \<not> is_space c)"

lemma space_is_space [simp]: "is_space CHR '' ''" "is_space CHR 0x0A"
  by (simp_all add: is_space_def)

lemma extract_int_show:
  assumes "\<forall>c \<in> set ws. is_space c" and "no_digit_next r"
  shows "extract_int old \<lparr>in_text = ws @ show_int w @ r, in_failed = False\<rparr>
    = (w, \<lparr>in_text = r, in_failed = False\<rparr>)"
proof -
  note read = read_cint_show_int [OF assms, of w]
  have "dropWhile is_space (ws @ show_int w @ r) \<noteq> []"
    using read read_cint_spaces [of "ws @ show_int w @ r"] by (auto simp: dropWhile_eq_Nil_conv)
  then show ?thesis by (simp add: extract_int_def read del: dropWhile_eq_Nil_conv)
qed

lemma extract_word_ok:
  assumes "\<forall>c \<in> set ws. is_space c" and "word_ok w" and "is_space c"
  shows "extract_word old \<lparr>in_text = ws @ w @ c # r, in_failed = False\<rparr>
    = (w, \<lparr>in_text = c # r, in_failed = False\<rparr>)"
proof -
  obtain d ds where w: "w = d # ds" using assms(2) by (cases w) (simp_all add: word_ok_def)
  have "dropWhile is_space (ws @ w @ c # r) = w @ c # r"
    using assms(2) by (simp add: drop_spaces [OF assms(1)]) (simp add: w word_ok_def)
  moreover have "takeWhile (\<lambda>c. \<not> is_space c) (w @ c # r) = w" "dropWhile (\<lambda>c. \<not> is_space c) (w @ c # r) = c # r"
    using assms(2,3) by (simp_all add: word_ok_def takeWhile_append2 dropWhile_append2)
  ultimately show ?thesis by (simp add: extract_word_def w)
qed

lemma read_stage_line:
  assumes "\<forall>c \<in> set ws. is_space c" and "word_ok (st_ip st)"
  shows "read_stage old \<lparr>in_text = ws @ stage_line st @ r, in_failed = False\<rparr>
    = (st, \<lparr>in_text = endl @ r, in_failed = False\<rparr>)"
proof -
  let ?sp = "'' ''"
  have one: "\<forall>c \<in> set ?sp. is_space c" by simp
  show ?thesis
    using extract_int_show [OF assms(1), of "?sp @ st_ip st @ ?sp @ show_int (st_port st) @ ?sp @
        show_int (st_num_customers st) @ ?sp @ show_int (st_num_orders st) @ endl @ r"
        "st_request_type old" "st_request_type st"]
      extract_word_ok [OF one assms(2), of "CHR '' ''"  "st_ip old" "show_int (st_port st) @ ?sp @
        show_int (st_num_customers st) @ ?sp @ show_int (st_num_orders st) @ endl @ r"]
      extract_int_show [OF one, of "?sp @ show_int (st_num_customers st) @ ?sp @
        show_int (st_num_orders st) @ endl @ r" "st_port old" "st_port st"]
      extract_int_show [OF one, of "?sp @ show_int (st_num_orders st) @ endl @ r"
        "st_num_customers old" "st_num_customers st"]
      extract_int_show [OF one, of "endl @ r" "st_num_orders old" "st_num_orders st"]
    by (simp add: read_stage_def stage_line_def endl_def)
qed

lemma read_stage_end:
  assumes "\<forall>c \<in> set ws. is_space c"
  shows "fst (read_stage st \<lparr>in_text = ws, in_failed = False\<rparr>) = st"
  using assms by (simp add: read_stage_def extract_int_def extract_word_def)

section \<open>What the client prints\<close>

definition found :: "CustomerRecord list \<Rightarrow> CustomerRecord list" where
  "found rs = filter (\<lambda>r. cr_customer_id r \<noteq> -1) rs"

lemma op_count_timed: "op_count (EndAndMerge since t' (Start t timer)) = op_count timer + 1"
  by (simp add: EndAndMerge_def End_def Start_def Let_def)

lemma op_count_clock: "op_count (Start t timer) = op_count timer" "op_count (End since t timer) = op_count timer"
  by (simp_all add: Start_def End_def)

lemma read_loop_run_replies:
  assumes "is_initialized stub" and "tx stub = []"
    and "rx stub = map (\<lambda>r. Segment (raw_record (host stub) r)) (read_until f is)"
  shows "\<exists>stub' timer'. read_loop_run since clock k 3 is stub timer rs =
      (concat (map CustomerRecord_print (found (read_until f is))), stub', timer', rs @ read_until f is)
    \<and> op_count timer' = op_count timer + of_nat (length (found (read_until f is)))"
  using assms
proof (induction "is" arbitrary: stub k timer rs)
  case Nil
  then show ?case by (simp add: found_def)
next
  case (Cons i "is")
  let ?rec = "lookup_record i f"
  let ?rest = "if cr_customer_id ?rec = -1 then [] else read_until f is"
  let ?r = "map (\<lambda>r. Segment (raw_record (host stub) r)) ?rest"
  let ?stub1 = "stub\<lparr>rx := ?r, sent := sent stub @ raw_order (host stub) (read_order i)\<rparr>"
  have step: "ReadRecord (read_order i) stub = (?rec, ?stub1)"
    using Cons.prems by (intro ReadRecord_segment) (simp_all add: Let_def)
  show ?case
  proof (cases "cr_customer_id ?rec = -1")
    case True
    then show ?thesis using step by (simp add: found_def Let_def op_count_clock flip: read_order_def)
  next
    case False
    then show ?thesis
      using step Cons.prems
        Cons.IH [of ?stub1 "k + 2" "EndAndMerge since (clock (k + 1)) (Start (clock k) timer)" "rs @ [?rec]"]
      by (auto simp: found_def Let_def op_count_timed simp flip: read_order_def)
  qed
qed

text \<open>The counts of the write threads' timers.\<close>

lemma op_count_write_run:
  "op_count (GetTimer (fst (ThreadBodyWriteRequest_run since clock c n ty this reads)))
     = op_count (ct_timer this) + of_nat (nat (sint n))"
  by (simp add: ThreadBodyWriteRequest_run_def GetTimer_def Let_def measure_all_fields)

text \<open>
  C34. The client from its two input lines to what it prints: given a line for the read stage and one for the
  write stage, a resource manager that answers the reads from its records and a transaction manager's reply,
  the program prints the node's records of customers 0, 1, 2 and so on that exist, up to the first gap or the
  number asked for, and, between the statistics, the reply to the transaction made of exactly these reads and
  the write threads' orders. When the transaction manager refuses the connection, the kernel's reason is printed
  before the heading and \<^verbatim>\<open>socket not initialized\<close> after it. The first statistics count the records found; the timer is not reset, so those of
  the write stage and of the transaction count all reads and writes together.
\<close>

theorem client_prints_node_records:
  assumes "word_ok (st_ip st1)" and "word_ok (st_ip st2)"
    and "st_request_type st1 = 3" and "st_num_customers st1 = 1"
    and reads: "reads = read_until f (counted (st_num_orders st1))"
    and "\<not> is_initialized stub"
    and "dials stub = Established (map (\<lambda>r. Segment (raw_record (host stub) r)) reads) [] # dd"
    and "merge schedule (map (\<lambda>i. ThreadBodyWriteRequest i (st_num_orders st2) (st_request_type st2) reads)
          (counted (st_num_customers st2))) = Some writes"
    and "SendTxnPrepareRequest (client_txn uninit reads writes)
          (snd (ClientStub_Init (st_ip st2) (st_port st2) tm_stub)) = Inr (reply, tm_stub')"
    and "op_count zeroed = 0"
  shows "\<exists>t1 t3 t4. client_program (stage_line st1 @ stage_line st2) strerror uninit_stage since clock clocks zeroed
        thread_class PrintStats schedule uninit stub tm_stub =
      Some (Inr (concat (map CustomerRecord_print (found reads)) @ PrintStats t1 @ PrintStats t3 @
        ClientSocket_Init_out strerror tm_stub @ ''Transaction result and stats: '' @ endl @
        SendTxnPrepareRequest_out (snd (ClientStub_Init (st_ip st2) (st_port st2) tm_stub)) @
        reply @ endl @ PrintStats t4, tm_stub'))
    \<and> op_count t1 = of_nat (length (found reads))
    \<and> op_count t3 = op_count t1 + of_nat (nat (sint (st_num_customers st2)) * nat (sint (st_num_orders st2)))
    \<and> op_count t4 = op_count t3"
proof -
  let ?k = "counted (st_num_orders st1)" and ?cls = "thread_class\<lparr>ct_timer := zeroed\<rparr>"
  note conn = client_connects [OF assms(6,7), of "st_ip st1" "st_port st1"]
  let ?s1 = "stub\<lparr>is_initialized := True, rx := map (\<lambda>r. Segment (raw_record (host stub) r)) reads, tx := [],
      sent := [], dials := dd, target := (st_ip st1, st_port st1)\<rparr>"
  let ?s2 = "?s1\<lparr>sent := msg_bytes 10 ''CLIENT'' ?s1\<rparr>"
  obtain stub' timer' where loop: "read_loop_run since (clocks 0 0) 0 3 ?k ?s2 zeroed [] =
      (concat (map CustomerRecord_print (found reads)), stub', timer', reads)"
    "op_count timer' = of_nat (length (found reads))"
    using read_loop_run_replies [of ?s2 f ?k since "clocks 0 0" 0 zeroed "[]"] assms(10)
    unfolding reads by auto
  let ?cls1 = "?cls\<lparr>ct_stub := stub, ct_customer_id := 0, ct_num_orders := st_num_orders st1, ct_request_type := 3\<rparr>"
  let ?obj = "?cls1\<lparr>ct_stub := stub', ct_timer := timer'\<rparr>"
  have body: "ThreadBody_run strerror since (clocks 0 0) (st_ip st1) (st_port st1) 0 (st_num_orders st1) 3
      (?cls\<lparr>ct_stub := stub\<rparr>) [] = (concat (map CustomerRecord_print (found reads)), ?obj, reads)"
    using loop(1) by (simp add: ThreadBody_run_def conn Let_def)
  have count: "op_count (GetTimer ?obj) = of_nat (length (found reads))"
    using loop(2) by (simp add: GetTimer_def)
  have line1: "read_stage uninit_stage \<lparr>in_text = stage_line st1 @ stage_line st2, in_failed = False\<rparr>
      = (st1, \<lparr>in_text = endl @ stage_line st2, in_failed = False\<rparr>)"
    using read_stage_line [of "[]" st1 uninit_stage "stage_line st2"] assms(1) by simp
  have line2: "read_stage st1 \<lparr>in_text = endl @ stage_line st2, in_failed = False\<rparr>
      = (st2, \<lparr>in_text = endl, in_failed = False\<rparr>)"
    using read_stage_line [of endl st2 st1 "[]"] assms(2) by (simp add: endl_def)
  let ?ran = "map (\<lambda>k. ThreadBodyWriteRequest_run since (clocks 1 k) (of_nat k) (st_num_orders st2)
      (st_request_type st2) ?cls reads) [0 ..< nat (sint (st_num_customers st2))]"
  let ?t1 = "merge_all [GetTimer ?obj] (End since (clock 1) (Start (clock 0) zeroed))"
  let ?t3 = "merge_all (map (GetTimer \<circ> fst) ?ran) (End since (clock 3) (Start (clock 2) ?t1))"
  let ?t4 = "End since (clock 5) (Start (clock 4) ?t3)"
  have "merge schedule (map snd ?ran) = Some writes"
    using assms(8) by (simp add: counted_def comp_def)
  then have "client_program (stage_line st1 @ stage_line st2) strerror uninit_stage since clock clocks zeroed
        thread_class PrintStats schedule uninit stub tm_stub =
      Some (Inr (concat (map CustomerRecord_print (found reads)) @ PrintStats ?t1 @ PrintStats ?t3 @
        ClientSocket_Init_out strerror tm_stub @ ''Transaction result and stats: '' @ endl @
        SendTxnPrepareRequest_out (snd (ClientStub_Init (st_ip st2) (st_port st2) tm_stub)) @
        reply @ endl @ PrintStats ?t4, tm_stub'))"
    using assms(3,4,9) body by (simp add: client_program_def line1 line2 Let_def)
  moreover have "op_count ?t1 = of_nat (length (found reads))"
    using count assms(10) by (simp add: merge_all_fields op_count_clock)
  moreover have "op_count ?t3 = op_count ?t1 + of_nat (nat (sint (st_num_customers st2)) * nat (sint (st_num_orders st2)))"
    using assms(10) by (simp add: merge_all_fields op_count_clock comp_def op_count_write_run sum_list_triv)
  moreover have "op_count ?t4 = op_count ?t3" by (simp add: op_count_clock)
  ultimately show ?thesis by blast
qed

text \<open>
  Witness: the records of customers 0 and 1 at order 50; one thread writes one order, and no transaction
  manager can be reached. The statistics print the count.
\<close>

definition demo_line :: "cint \<Rightarrow> string \<Rightarrow> cint \<Rightarrow> cint \<Rightarrow> cint \<Rightarrow> stage" where
  "demo_line ty ip port customers orders = \<lparr>st_request_type = ty, st_ip = ip, st_port = port,
     st_num_customers = customers, st_num_orders = orders\<rparr>"

lemma dialing_nobody_fields: "\<not> is_initialized (dialing [])" "dials (dialing []) = []" "mem_ok (dialing d)"
  by (simp_all add: dialing_def new_ClientSocket_def new_Socket_def Socket.extend_def ClientSocket.fields_def)

lemma dialing_nobody: "SendTxnPrepareRequest txn (snd (ClientStub_Init ip port (dialing []))) = Inr (''error'', dialing [])"
  by (simp add: ClientStub_Init_def ClientSocket_Init_def SendTxnPrepareRequest_def getIsInitialized_def
      dialing_nobody_fields)

lemma nobody_out:
  "ClientSocket_Init_out strerror (dialing []) = ''ERROR: failed to connect: '' @ strerror (dialing []) @ endl"
  "SendTxnPrepareRequest_out (snd (ClientStub_Init ip port (dialing []))) = ''socket not initialized'' @ endl"
  by (simp_all add: ClientStub_Init_def ClientSocket_Init_def ClientSocket_Init_out_def
      SendTxnPrepareRequest_out_def getIsInitialized_def dialing_nobody_fields)

lemma client_prints_node_records_witness:
  "\<exists>stub tm_stub. client_program
       (stage_line (demo_line 3 ''rm'' 5000 1 3) @ stage_line (demo_line 1 ''tm'' 6000 1 1))
       (\<lambda>s. ''Connection refused'') (demo_line 0 [] 0 0 0) (-) (\<lambda>k. int k) (\<lambda>s i k. int k) (new_ClientTimer 0 99 0 0)
       \<lparr>ct_customer_id = 0, ct_num_orders = 0, ct_request_type = 0, ct_stub = dialing [], ct_timer = new_ClientTimer 0 99 0 0\<rparr>
       (\<lambda>t. show_int (op_count t)) [0] 0 stub (dialing []) =
     Some (Inr (CustomerRecord_print \<lparr>cr_customer_id = 0, cr_last_order = 50\<rparr> @
       CustomerRecord_print \<lparr>cr_customer_id = 1, cr_last_order = 50\<rparr> @ show_int 2 @ show_int 3 @
       ''ERROR: failed to connect: Connection refused'' @ endl @ ''Transaction result and stats: '' @ endl @
       ''socket not initialized'' @ endl @ ''error'' @ endl @ show_int 3, tm_stub))"
proof -
  let ?st1 = "demo_line 3 ''rm'' 5000 1 3" and ?st2 = "demo_line 1 ''tm'' 6000 1 1"
  let ?reads = "read_until demo_rm (counted 3)"
  let ?stub = "dialing [Established (map (\<lambda>r. Segment (raw_record LittleEndian r)) ?reads) []]"
  have host: "host ?stub = LittleEndian"
    by (simp add: dialing_def new_ClientSocket_def new_Socket_def Socket.extend_def)
  have stub: "\<not> is_initialized ?stub" "dials ?stub
      = Established (map (\<lambda>r. Segment (raw_record (host ?stub) r)) ?reads) [] # []"
    by (simp_all add: host)
  have words: "word_ok (st_ip ?st1)" "word_ok (st_ip ?st2)"
    by (simp_all add: demo_line_def word_ok_def is_space_def)
  have line: "st_request_type ?st1 = 3" "st_num_customers ?st1 = 1" "?reads = read_until demo_rm (counted (st_num_orders ?st1))"
    by (simp_all add: demo_line_def)
  have one: "nat (sint (1 :: cint)) = Suc 0" by simp
  then have "counted 1 = [0]" by (simp only: counted_def) simp
  moreover obtain w where "ThreadBodyWriteRequest 0 1 1 ?reads = [w]"
    by (simp only: ThreadBodyWriteRequest_def one) simp
  ultimately have merged: "merge [0] (map (\<lambda>i. ThreadBodyWriteRequest i (st_num_orders ?st2) (st_request_type ?st2) ?reads)
      (counted (st_num_customers ?st2))) = Some [w]"
    by (simp add: demo_line_def)
  have sent: "SendTxnPrepareRequest (client_txn 0 ?reads [w])
      (snd (ClientStub_Init (st_ip ?st2) (st_port ?st2) (dialing []))) = Inr (''error'', dialing [])"
    by (rule dialing_nobody)
  have zero: "op_count (new_ClientTimer 0 99 0 0 :: (int, int) ClientTimer) = 0"
    by (simp add: new_ClientTimer_def)
  have found: "found ?reads = [\<lparr>cr_customer_id = 0, cr_last_order = 50\<rparr>, \<lparr>cr_customer_id = 1, cr_last_order = 50\<rparr>]"
    unfolding read_until_demo by (simp add: found_def)
  have counts: "st_num_customers ?st2 = 1" "st_num_orders ?st2 = 1" by (simp_all add: demo_line_def)
  from client_prints_node_records [OF words line stub merged sent zero, of "\<lambda>s. ''Connection refused''" "demo_line 0 [] 0 0 0" "(-)" "\<lambda>k. int k"
      "\<lambda>s i k. int k" "\<lparr>ct_customer_id = 0, ct_num_orders = 0, ct_request_type = 0, ct_stub = dialing [],
        ct_timer = new_ClientTimer 0 99 0 0\<rparr>" "\<lambda>t. show_int (op_count t)"]
  show ?thesis
    unfolding found counts one nobody_out
    by (elim exE conjE) (intro exI [of _ ?stub] exI [of _ "dialing []"], simp)
qed

end
