(* ===== verification/Threads.thy ===== *)
theory Threads
  imports Handlers
begin

text \<open>
  The threads of a resource manager (\<^verbatim>\<open>ServerThread.cpp\<close>) side by side: every connection's thread and the
  admin thread over one \<open>LaptopFactory\<close>. A step of a connection's thread ends where it gives up a mutex,
  waits, or has talked to its client; what it does in between on the shared state is one step. Placing an order
  and answering it are one step each; the mutex and the condition variable of the queue are in \<open>Handoff\<close>. A \<open>phase\<close>
  says where in the handlers a thread is and holds the local variables that are still used. A run is a list of
  events, in any order.
\<close>

section \<open>Where a thread can be\<close>

text \<open>
  The flag of \<open>Filing\<close> and \<open>Logging\<close> is true in \<^verbatim>\<open>TMPrepare\<close> and false in \<^verbatim>\<open>PeerPrepare\<close>. The flag of
  \<open>Applying\<close> and \<open>Placed\<close> says whether the iterators of the loop over the transaction's records
  are still valid. \<open>Placed\<close> is the wait for the promise of an \<^verbatim>\<open>AdminRequest\<close>.
\<close>

datatype phase =
    Identify
  | Serving
  | Backup
  | Checking Transaction "CustomerRecord list"
  | Refusing Transaction
  | Filing bool Transaction
  | Logging bool Transaction
  | Copying Transaction
  | Answering Transaction
  | Finding cint
  | Applying cint bool "TxnLogRequest list" "TxnLogRequest list imap" "TxnLogRequest list"
  | Placed cint bool "TxnLogRequest list" "TxnLogRequest list imap" "TxnLogRequest list"
  | Swapping cint "TxnLogRequest list imap" "TxnLogRequest list"
  | CommitLogging cint "TxnLogRequest list"
  | CommitStoring cint "TxnLogRequest list"
  | Committed cint "TxnLogRequest list"
  | Marking cint
  | AbortLogging cint
  | Aborted cint
  | Finished

record thread =
  th_stub :: ServerStub
  th_engineer :: cint
  th_phase :: phase

type_synonym local_step = "crash + phase \<times> ServerStub \<times> LaptopFactory"

section \<open>Steps\<close>

text \<open>Dispatch, with the receipt of the transaction or of its id, which touch only the thread's own stub.\<close>

definition identify_step :: "ServerStub \<Rightarrow> LaptopFactory \<Rightarrow> local_step" where
  "identify_step stub f =
     (case IdentificationMsg stub of (IDMsg, stub1) \<Rightarrow>
        if IDMsg = ''CLIENT'' then Inr (Serving, stub1, f)
        else if IDMsg = ''PFA'' then Inr (Backup, stub1, f)
        else if IDMsg = ''TMPrepare'' then
          bindE (ReceiveTxnRequest stub1) (\<lambda>(txn, stub2). Inr (Checking txn (readRecords txn), stub2, f))
        else if IDMsg = ''TMCommit'' then
          bindE (ReceiveTxnId stub1) (\<lambda>(t, stub2). Inr (Finding t, stub2, f))
        else if IDMsg = ''TMAbort'' then
          bindE (ReceiveTxnId stub1) (\<lambda>(t, stub2). Inr (Marking t, stub2, f))
        else if IDMsg = ''PrPrepare'' then
          bindE (ReceiveTxnRequest stub1) (\<lambda>(txn, stub2). Inr (Filing False txn, stub2, f))
        else Inr (Finished, destroy_Socket stub1, f))"

text \<open>One round of the loop that serves a reading client.\<close>

definition serving_step :: "ServerStub \<Rightarrow> LaptopFactory \<Rightarrow> local_step" where
  "serving_step stub f =
     (case ReceiveRequest stub of (order, stub1) \<Rightarrow>
        if \<not> CustomerOrder_IsValid order then Inr (Finished, destroy_Socket stub1, f)
        else if co_request_type order = 2 then
          Inr (Serving, snd (ReturnRecord (lookup_record (co_customer_id order) f) stub1), f)
        else Inr (Serving, stub1, f))"

text \<open>One round of the backup's loop.\<close>

definition backup_step :: "ServerStub \<Rightarrow> LaptopFactory \<Rightarrow> local_step" where
  "backup_step stub f =
     (case ReceiveReplicationReq stub of (req, stub1) \<Rightarrow>
        if rr_factory_id req = -1 then Inr (Finished, destroy_Socket stub1, f\<lparr>primary_id := -1\<rparr>)
        else bindE (IFA_apply req f) (\<lambda>f1.
          Inr (Backup, snd (SendResponseReplicationReq ''DONE'' stub1), f1)))"

text \<open>One read record compared with the records as they are now; no mutex is held from one to the next.\<close>

fun check_step :: "Transaction \<Rightarrow> CustomerRecord list \<Rightarrow> LaptopFactory \<Rightarrow> phase" where
  "check_step txn [] f = Filing True txn"
| "check_step txn (record # rs) f =
     (if map_find (cr_customer_id record) (customer_record f) \<noteq> None
         \<and> Some (cr_last_order record) \<noteq> map_find (cr_customer_id record) (customer_record f)
      then Refusing txn else Checking txn rs)"

text \<open>The insertion into the transaction log, under its mutex.\<close>

definition file_step :: "Transaction \<Rightarrow> LaptopFactory \<Rightarrow> LaptopFactory" where
  "file_step txn f = f\<lparr>txn_log := map_insert (txn_id txn) (prepare_records txn) (txn_log f)\<rparr>"

text \<open>The search for the transaction's records, and one round of the loop over them up to the wait.\<close>

definition find_step :: "cint \<Rightarrow> LaptopFactory \<Rightarrow> phase" where
  "find_step t f =
     (case map_find t (txn_log f) of
        Some recs \<Rightarrow> Applying t True recs [] []
      | None \<Rightarrow> Swapping t [] [])"

text \<open>
  The request that \<^verbatim>\<open>CreateRegularLaptop\<close> queues. Going on with an iterator that is no longer
  valid is undefined, also when no record is left.
\<close>

definition laptop_request :: "CustomerOrder \<Rightarrow> cint \<Rightarrow> AdminRequest" where
  "laptop_request order engineer_id =
     \<lparr>ar_laptop = SetEngineerId engineer_id (CopyOrder order new_LaptopInfo),
      ar_customer_id = co_customer_id order, ar_last_order_num = co_order_number order\<rparr>"

fun apply_step ::
  "cint \<Rightarrow> bool \<Rightarrow> TxnLogRequest list \<Rightarrow> TxnLogRequest list imap \<Rightarrow> TxnLogRequest list \<Rightarrow> cint \<Rightarrow>
   LaptopFactory \<Rightarrow> crash + phase \<times> LaptopFactory" where
  "apply_step t False recs new_txn_log committed eng f = Inl Undefined"
| "apply_step t True [] new_txn_log committed eng f = Inr (Swapping t new_txn_log committed, f)"
| "apply_step t True (txnRec # recs) new_txn_log committed eng f =
     (let log1 = snd (update_value new_txn_log (tl_txn_id txnRec) txnRec);
          order = SetOrder (tl_customer_id txnRec) (tl_last_order_num txnRec)
                    (tl_customer_opr txnRec) new_CustomerOrder;
          rec = mk_TxnLogRequest t 2 (tl_customer_id txnRec) (tl_last_order_num txnRec)
                    (tl_customer_opr txnRec);
          log2 = snd (update_value log1 (tl_txn_id txnRec) rec)
      in Inr (Placed t True recs log2 (committed @ [rec]),
              f\<lparr>arq := arq f @ [laptop_request order eng]\<rparr>))"

definition mark_step :: "cint \<Rightarrow> LaptopFactory \<Rightarrow> LaptopFactory" where
  "mark_step t f =
     f\<lparr>txn_log := snd (update_value (txn_log f) t (mk_TxnLogRequest t 3 (-1) (-1) (-1)))\<rparr>"

definition reply_step :: "string \<Rightarrow> ServerStub \<Rightarrow> LaptopFactory \<Rightarrow> local_step" where
  "reply_step msg stub f = Inr (Identify, snd (SendResponseReplicationReq msg stub), f)"

text \<open>\<open>None\<close>: the thread waits for the admin thread, or has ended.\<close>

fun phase_step :: "phase \<Rightarrow> cint \<Rightarrow> ServerStub \<Rightarrow> LaptopFactory \<Rightarrow> local_step option" where
  "phase_step Identify eng stub f = Some (identify_step stub f)"
| "phase_step Serving eng stub f = Some (serving_step stub f)"
| "phase_step Backup eng stub f = Some (backup_step stub f)"
| "phase_step (Checking txn reads) eng stub f = Some (Inr (check_step txn reads f, stub, f))"
| "phase_step (Refusing txn) eng stub f = Some (reply_step ''No'' stub f)"
| "phase_step (Filing tm txn) eng stub f = Some (Inr (Logging tm txn, stub, file_step txn f))"
| "phase_step (Logging tm txn) eng stub f =
     Some (bindE (store_txn_log_record (prepare_records txn) f)
       (\<lambda>f1. Inr (if tm then Copying txn else Answering txn, stub, f1)))"
| "phase_step (Copying txn) eng stub f =
     Some (bindE (CopyTranlogReplica txn f) (\<lambda>f1. Inr (Answering txn, stub, f1)))"
| "phase_step (Answering txn) eng stub f = Some (reply_step ''Ok'' stub f)"
| "phase_step (Finding t) eng stub f = Some (Inr (find_step t f, stub, f))"
| "phase_step (Applying t valid recs new_txn_log committed) eng stub f =
     Some (bindE (apply_step t valid recs new_txn_log committed eng f) (\<lambda>(p, f1). Inr (p, stub, f1)))"
| "phase_step (Placed t valid recs new_txn_log committed) eng stub f = None"
| "phase_step (Swapping t new_txn_log committed) eng stub f =
     Some (Inr (CommitLogging t committed, stub, f\<lparr>txn_log := new_txn_log\<rparr>))"
| "phase_step (CommitLogging t committed) eng stub f =
     Some (bindE (store_txn_log_record committed f) (\<lambda>f1. Inr (CommitStoring t committed, stub, f1)))"
| "phase_step (CommitStoring t committed) eng stub f =
     Some (bindE (store_cust_record_txn f) (\<lambda>f1. Inr (Committed t committed, stub, f1)))"
| "phase_step (Committed t committed) eng stub f = Some (reply_step ''Done commit'' stub f)"
| "phase_step (Marking t) eng stub f = Some (Inr (AbortLogging t, stub, mark_step t f))"
| "phase_step (AbortLogging t) eng stub f =
     Some (bindE (store_txn_log_record [mk_TxnLogRequest t 3 (-1) (-1) (-1)] f)
       (\<lambda>f1. Inr (Aborted t, stub, f1)))"
| "phase_step (Aborted t) eng stub f = Some (reply_step ''Done abort'' stub f)"
| "phase_step Finished eng stub f = None"

section \<open>Threads side by side\<close>

text \<open>
  Which iterators a step invalidates: the assignment to the transaction log those into any of its vectors, an
  abort record appended to a vector those into that one. An insertion of a new key leaves all valid.
\<close>

fun invalidates :: "phase \<Rightarrow> LaptopFactory \<Rightarrow> cint \<Rightarrow> bool" where
  "invalidates (Swapping t new_txn_log committed) f u = True"
| "invalidates (Marking t) f u = (u = t \<and> map_find t (txn_log f) \<noteq> None)"
| "invalidates p f u = False"

fun forget :: "(cint \<Rightarrow> bool) \<Rightarrow> phase \<Rightarrow> phase" where
  "forget P (Applying t valid recs new_txn_log committed) =
     Applying t (valid \<and> \<not> P t) recs new_txn_log committed"
| "forget P (Placed t valid recs new_txn_log committed) =
     Placed t (valid \<and> \<not> P t) recs new_txn_log committed"
| "forget P p = p"

text \<open>\<open>owners\<close> are the threads whose requests wait in \<^verbatim>\<open>arq\<close>, in the order of the queue.\<close>

record node =
  factory :: LaptopFactory
  threads :: "thread list"
  owners :: "nat list"

fun is_placed :: "phase \<Rightarrow> bool" where
  "is_placed (Placed t valid recs new_txn_log committed) = True"
| "is_placed p = False"

fun resume :: "phase \<Rightarrow> phase" where
  "resume (Placed t valid recs new_txn_log committed) = Applying t valid recs new_txn_log committed"
| "resume p = p"

definition thread_event :: "nat \<Rightarrow> node \<Rightarrow> (crash + node) option" where
  "thread_event i n =
     (if length (threads n) \<le> i then None
      else let th = threads n ! i in
        case phase_step (th_phase th) (th_engineer th) (th_stub th) (factory n) of
          None \<Rightarrow> None
        | Some r \<Rightarrow> Some (bindE r (\<lambda>(p, stub, f).
            Inr \<lparr>factory = f,
              threads = (map (th_phase_update (forget (invalidates (th_phase th) (factory n)))) (threads n))
                [i := th\<lparr>th_stub := stub, th_phase := p\<rparr>],
              owners = (if is_placed p then owners n @ [i] else owners n)\<rparr>)))"

text \<open>The admin thread answers the first request, in one step from the wait to the promise; its owner goes on.\<close>

definition admin_event :: "node \<Rightarrow> (crash + node) option" where
  "admin_event n =
     (case owners n of
        [] \<Rightarrow> None
      | i # rest \<Rightarrow>
          map_option (\<lambda>r. bindE r (\<lambda>(laptop, f).
            Inr \<lparr>factory = f,
              threads = (threads n)[i := th_phase_update resume (threads n ! i)],
              owners = rest\<rparr>)) (AdminThread_step (admin_id (factory n)) (factory n)))"

text \<open>The accept loop of \<^verbatim>\<open>main\<close> starts a thread for every connection.\<close>

definition accept_event :: "ServerStub \<Rightarrow> cint \<Rightarrow> node \<Rightarrow> node" where
  "accept_event conn eng n =
     n\<lparr>threads := threads n @ [\<lparr>th_stub = conn, th_engineer = eng, th_phase = Identify\<rparr>]\<rparr>"

datatype event = ThreadStep nat | AdminStep | AcceptConn ServerStub cint

fun run_event :: "event \<Rightarrow> node \<Rightarrow> (crash + node) option" where
  "run_event (ThreadStep i) n = thread_event i n"
| "run_event AdminStep n = admin_event n"
| "run_event (AcceptConn conn eng) n = Some (Inr (accept_event conn eng n))"

text \<open>\<open>None\<close>: the schedule asks for a step that nobody can make.\<close>

fun run_events :: "event list \<Rightarrow> node \<Rightarrow> (crash + node) option" where
  "run_events [] n = Some (Inr n)"
| "run_events (e # es) n =
     (case run_event e n of
        None \<Rightarrow> None
      | Some (Inl c) \<Rightarrow> Some (Inl c)
      | Some (Inr n') \<Rightarrow> run_events es n')"

lemma run_events_append:
  "run_events (es @ es') n =
     (case run_events es n of None \<Rightarrow> None | Some (Inl c) \<Rightarrow> Some (Inl c) | Some (Inr n') \<Rightarrow> run_events es' n')"
  by (induction es arbitrary: n) (simp_all split: option.splits sum.splits)

text \<open>The nodes that can be reached from a factory without threads, as long as the log's indices have room.\<close>

definition idle_node :: "LaptopFactory \<Rightarrow> node" where
  "idle_node f = \<lparr>factory = f, threads = [], owners = []\<rparr>"

inductive concurrent :: "LaptopFactory \<Rightarrow> node \<Rightarrow> bool" for f0 where
  idle: "concurrent f0 (idle_node f0)"
| event: "concurrent f0 n \<Longrightarrow> log_room 1 (factory n) \<Longrightarrow> run_event e n = Some (Inr n') \<Longrightarrow> concurrent f0 n'"

inductive_cases concurrentE: "concurrent f0 n"

end
