(* ===== verification/Concurrent.thy ===== *)
theory Concurrent
  imports Threads Sessions
begin

text \<open>
  What holds of a resource manager's threads in every order of their steps: the handlers of the sequential
  model are one schedule of the threads. The theories after this one show that the shared state stays well
  formed, that no reply leaves before the log records it promises are in the file, and that the two commits
  that the code lets overlap read released memory.
\<close>

section \<open>One thread alone\<close>

text \<open>The node in which thread \<open>i\<close> has reached a phase and nobody waits.\<close>

definition at_phase :: "node \<Rightarrow> nat \<Rightarrow> phase \<Rightarrow> ServerStub \<Rightarrow> LaptopFactory \<Rightarrow> node" where
  "at_phase n i p stub f =
     \<lparr>factory = f, threads = (threads n)[i := (threads n ! i)\<lparr>th_stub := stub, th_phase := p\<rparr>],
      owners = []\<rparr>"

fun iterating :: "phase \<Rightarrow> bool" where
  "iterating (Applying t valid recs new_txn_log committed) = True"
| "iterating (Placed t valid recs new_txn_log committed) = True"
| "iterating p = False"

lemma forget_quiet: "\<not> iterating p \<Longrightarrow> forget P p = p"
  by (cases p) simp_all

lemma forget_none [simp]: "forget (\<lambda>u. False) p = p"
  by (cases p) simp_all

text \<open>Nobody but thread \<open>i\<close> is in the loop of a commit.\<close>

definition others_quiet :: "node \<Rightarrow> nat \<Rightarrow> bool" where
  "others_quiet n i \<longleftrightarrow>
     (\<forall>j < length (threads n). j \<noteq> i \<longrightarrow> \<not> iterating (th_phase (threads n ! j)))"

definition leads :: "nat \<Rightarrow> node \<Rightarrow> node \<Rightarrow> bool" where
  "leads i n n' \<longleftrightarrow> (\<exists>es. set es \<subseteq> {ThreadStep i, AdminStep} \<and> run_events es n = Some (Inr n'))"

lemma leads_refl [simp]: "leads i n n"
  unfolding leads_def by (rule exI [of _ "[]"]) simp

lemma leads_event:
  assumes "run_event e n = Some (Inr n')" and "e \<in> {ThreadStep i, AdminStep}"
  shows "leads i n n'"
  unfolding leads_def using assms by (intro exI [of _ "[e]"]) auto

lemma leads_trans [trans]:
  assumes "leads i n n'" and "leads i n' n''"
  shows "leads i n n''"
proof -
  obtain es es' where "set es \<subseteq> {ThreadStep i, AdminStep}" "run_events es n = Some (Inr n')"
    "set es' \<subseteq> {ThreadStep i, AdminStep}" "run_events es' n' = Some (Inr n'')"
    using assms by (auto simp: leads_def)
  then show ?thesis
    unfolding leads_def by (intro exI [of _ "es @ es'"]) (simp add: run_events_append)
qed

text \<open>A step that invalidates no iterator, and any step when nobody else iterates, changes only its thread.\<close>

lemma map_forget_quiet:
  assumes "others_quiet n i"
  shows "(map (th_phase_update (forget P)) ((threads n)[i := a]))[i := b] = (threads n)[i := b]"
proof (rule nth_equalityI)
  fix j assume "j < length ((map (th_phase_update (forget P)) ((threads n)[i := a]))[i := b])"
  then have j: "j < length (threads n)" by simp
  show "(map (th_phase_update (forget P)) ((threads n)[i := a]))[i := b] ! j = (threads n)[i := b] ! j"
  proof (cases "j = i")
    case True
    then show ?thesis using j by simp
  next
    case False
    then have "\<not> iterating (th_phase (threads n ! j))"
      using assms j by (simp add: others_quiet_def)
    then have "th_phase_update (forget P) (threads n ! j) = threads n ! j"
      by (cases "threads n ! j") (simp add: forget_quiet)
    then show ?thesis using False j by simp
  qed
qed simp

lemma at_phase_step:
  assumes "i < length (threads n)" and "others_quiet n i"
    and "phase_step p (th_engineer (threads n ! i)) stub f = Some (Inr (p', stub', f'))"
  shows "run_event (ThreadStep i) (at_phase n i p stub f) =
    Some (Inr (at_phase n i p' stub' f'\<lparr>owners := (if is_placed p' then [i] else [])\<rparr>))"
  using assms(1,3) map_forget_quiet [OF assms(2)]
  by (simp add: thread_event_def at_phase_def)

lemma leads_step:
  assumes "i < length (threads n)" and "others_quiet n i"
    and "phase_step p (th_engineer (threads n ! i)) stub f = Some (Inr (p', stub', f'))"
    and "\<not> is_placed p'"
  shows "leads i (at_phase n i p stub f) (at_phase n i p' stub' f')"
proof (rule leads_event)
  show "run_event (ThreadStep i) (at_phase n i p stub f) = Some (Inr (at_phase n i p' stub' f'))"
    using at_phase_step [OF assms(1-3)] assms(4) by (simp add: at_phase_def)
qed simp

section \<open>The admin thread leaves its queue alone\<close>

lemma keeps_arq_loop:
  assumes "for_loop f is s = Inr s'" and "\<And>i s s'. f i s = Inr s' \<Longrightarrow> arq s' = arq s"
  shows "arq s' = arq s"
  using for_loop_invariant [OF assms(1), of "\<lambda>t. arq t = arq s"] assms(2) by fastforce

lemma arq_set [simp]: "arq (set_node i n s) = arq s" "arq (set_live i b s) = arq s"
  by (simp_all add: set_node_def set_live_def)

lemma arq_sendAllRequests: "sendAllRequests i s = Inr s' \<Longrightarrow> arq s' = arq s"
  unfolding sendAllRequests_def by (erule keeps_arq_loop) (auto split: if_splits prod.splits)

lemma arq_connect_peer: "connect_peer i s = Inr s' \<Longrightarrow> arq s' = arq s"
  by (auto simp: connect_peer_def split: if_splits prod.splits)

lemma arq_replicate_to: "replicate_to p i s = Inr s' \<Longrightarrow> arq s' = arq s"
  by (auto simp: replicate_to_def split: if_splits prod.splits dest: arq_sendAllRequests)

lemma arq_catch_up: "catch_up s = Inr s' \<Longrightarrow> arq s' = arq s"
proof (induction s rule: catch_up.induct)
  case (1 s)
  then show ?case
    by (auto simp: catch_up.simps [of s] updateCustomerRecord_def split: if_splits)
qed

lemma arq_become_primary: "become_primary s = Inr s' \<Longrightarrow> arq s' = arq s"
  unfolding become_primary_def
  by (auto split: if_splits dest!: arq_catch_up keeps_arq_loop [OF _ arq_connect_peer])

lemma arq_AdminThread_round:
  assumes "AdminThread_round aid req s = Inr (laptop, s')"
  shows "arq s' = arq s"
proof -
  obtain s1 where "become_primary s = Inr s1"
    "for_loop (replicate_to (request_op req)) (peer_range s1) (apply_locally (request_op req) s1) = Inr s'"
    using assms by (auto simp: AdminThread_round_def)
  then show ?thesis
    using arq_become_primary keeps_arq_loop [OF _ arq_replicate_to] by fastforce
qed

section \<open>A commit as a schedule\<close>

lemma CreateRegularLaptop_alone:
  assumes "arq f = []" and "CreateRegularLaptop order eng f = Inr (laptop, f')"
  shows "AdminThread_round (admin_id f) (laptop_request order eng) f = Inr (laptop, f')" and "arq f' = []"
proof -
  have same: "f\<lparr>arq := []\<rparr> = f" using assms(1) by (cases f) simp
  show eq: "AdminThread_round (admin_id f) (laptop_request order eng) f = Inr (laptop, f')"
    using assms
    by (auto simp: CreateRegularLaptop_def admin_serve.simps AdminThread_step_def same laptop_request_def
        Let_def)
  show "arq f' = []" using arq_AdminThread_round [OF eq] assms(1) by simp
qed

text \<open>One round of the loop: the thread places the order and the admin thread answers it.\<close>

lemma leads_round:
  assumes "i < length (threads n)" and "others_quiet n i" and "arq f = []"
    and place: "apply_step t True (r # recs) nl cs (th_engineer (threads n ! i)) f =
      Inr (Placed t True recs nl' cs', f\<lparr>arq := [req]\<rparr>)"
    and round: "AdminThread_round (admin_id f) req f = Inr (laptop, f')"
  shows "leads i (at_phase n i (Applying t True (r # recs) nl cs) stub f)
    (at_phase n i (Applying t True recs nl' cs') stub f')"
proof (rule leads_trans)
  let ?m = "at_phase n i (Placed t True recs nl' cs') stub (f\<lparr>arq := [req]\<rparr>)\<lparr>owners := [i]\<rparr>"
  have same: "f\<lparr>arq := []\<rparr> = f" using assms(3) by (cases f) simp
  show "leads i (at_phase n i (Applying t True (r # recs) nl cs) stub f) ?m"
    using at_phase_step [OF assms(1,2), of "Applying t True (r # recs) nl cs" stub f] place
    by (intro leads_event [where e = "ThreadStep i"]) (simp_all del: apply_step.simps)
  show "leads i ?m (at_phase n i (Applying t True recs nl' cs') stub f')"
    using assms(1) round
    by (intro leads_event [where e = AdminStep])
      (simp_all add: admin_event_def AdminThread_step_def at_phase_def same comp_def)
qed

lemma leads_commit_records:
  assumes "i < length (threads n)" and "others_quiet n i" and "arq f = []"
    and "commit_records t (th_engineer (threads n ! i)) recs (nl, cs, f) = Inr (nl', cs', f')"
  shows "arq f' = [] \<and> leads i (at_phase n i (Applying t True recs nl cs) stub f)
    (at_phase n i (Swapping t nl' cs') stub f')"
  using assms(3,4)
proof (induction recs arbitrary: nl cs f)
  case Nil
  then show ?case
    using leads_step [OF assms(1,2), of "Applying t True [] nl cs" stub f] by simp
next
  case (Cons r recs)
  let ?eng = "th_engineer (threads n ! i)"
  let ?order = "SetOrder (tl_customer_id r) (tl_last_order_num r) (tl_customer_opr r) new_CustomerOrder"
  let ?rec = "mk_TxnLogRequest t 2 (tl_customer_id r) (tl_last_order_num r) (tl_customer_opr r)"
  let ?nl = "snd (update_value (snd (update_value nl (tl_txn_id r) r)) (tl_txn_id r) ?rec)"
  obtain laptop f1 where f1: "CreateRegularLaptop ?order ?eng f = Inr (laptop, f1)"
    "commit_records t ?eng recs (?nl, cs @ [?rec], f1) = Inr (nl', cs', f')"
    using Cons.prems(2) by (auto simp: Let_def)
  note round = CreateRegularLaptop_alone [OF Cons.prems(1) f1(1)]
  have "leads i (at_phase n i (Applying t True (r # recs) nl cs) stub f)
      (at_phase n i (Applying t True recs ?nl (cs @ [?rec])) stub f1)"
    by (rule leads_round [OF assms(1,2) Cons.prems(1) _ round(1)])
      (simp add: Let_def Cons.prems(1))
  then show ?case using Cons.IH [OF round(2) f1(2)] leads_trans by blast
qed

section \<open>The handlers as schedules\<close>

lemma leads_checking:
  assumes "i < length (threads n)" and "others_quiet n i"
  shows "leads i (at_phase n i (Checking txn reads) stub f)
    (at_phase n i (if reads_consistent reads (customer_record f) then Filing True txn else Refusing txn)
      stub f)"
proof (induction reads)
  case Nil
  show ?case by (rule leads_step [OF assms]) simp_all
next
  case (Cons r rs)
  have "leads i (at_phase n i (Checking txn (r # rs)) stub f)
      (at_phase n i (check_step txn (r # rs) f) stub f)"
    by (rule leads_step [OF assms]) auto
  then show ?case using leads_trans [OF _ Cons.IH] by (cases "check_step txn (r # rs) f = Refusing txn") auto
qed

lemma leads_reply:
  assumes "i < length (threads n)" and "others_quiet n i"
    and "phase_step p (th_engineer (threads n ! i)) stub f = Some (reply_step msg stub f)"
  shows "leads i (at_phase n i p stub f)
    (at_phase n i Identify (snd (SendResponseReplicationReq msg stub)) f)"
  using assms by (intro leads_step) (simp_all add: reply_step_def)

lemma leads_store:
  assumes "i < length (threads n)" and "others_quiet n i"
    and "store_txn_log_in_txn_map txn f = Inr f1"
  shows "leads i (at_phase n i (Filing tm txn) stub f)
    (at_phase n i (if tm then Copying txn else Answering txn) stub f1)"
proof (rule leads_trans)
  show "leads i (at_phase n i (Filing tm txn) stub f)
      (at_phase n i (Logging tm txn) stub (file_step txn f))"
    by (rule leads_step [OF assms(1,2)]) simp_all
  show "leads i (at_phase n i (Logging tm txn) stub (file_step txn f))
      (at_phase n i (if tm then Copying txn else Answering txn) stub f1)"
    using assms(3)
    by (intro leads_step [OF assms(1,2)]) (simp_all add: store_txn_log_in_txn_map_def file_step_def Let_def)
qed

lemma leads_prepare:
  assumes "i < length (threads n)" and "others_quiet n i" and "prepare_txn txn f = Inr (reply, f')"
  shows "leads i (at_phase n i (Checking txn (readRecords txn)) stub f)
    (at_phase n i Identify (snd (SendResponseReplicationReq reply stub)) f')"
proof (cases "reads_consistent (readRecords txn) (customer_record f)")
  case True
  then obtain f1 where f1: "store_txn_log_in_txn_map txn f = Inr f1" "CopyTranlogReplica txn f1 = Inr f'"
    "reply = ''Ok''"
    using assms(3) by (auto simp: prepare_txn_def)
  have "leads i (at_phase n i (Checking txn (readRecords txn)) stub f) (at_phase n i (Filing True txn) stub f)"
    using leads_checking [OF assms(1,2), of txn "readRecords txn" stub f] True by simp
  also have "leads i (at_phase n i (Filing True txn) stub f) (at_phase n i (Copying txn) stub f1)"
    using leads_store [OF assms(1,2) f1(1), of True stub] by simp
  also have "leads i (at_phase n i (Copying txn) stub f1) (at_phase n i (Answering txn) stub f')"
    by (rule leads_step [OF assms(1,2)]) (simp_all add: f1(2))
  also have "leads i (at_phase n i (Answering txn) stub f')
      (at_phase n i Identify (snd (SendResponseReplicationReq reply stub)) f')"
    by (rule leads_reply [OF assms(1,2)]) (simp add: f1(3))
  finally show ?thesis .
next
  case False
  then have "reply = ''No''" "f' = f" using assms(3) by (simp_all add: prepare_txn_def)
  then show ?thesis
    using False leads_checking [OF assms(1,2), of txn "readRecords txn" stub f]
      leads_reply [OF assms(1,2), of "Refusing txn" stub f "''No''"] leads_trans by fastforce
qed

lemma leads_commit:
  assumes "i < length (threads n)" and "others_quiet n i" and "arq f = []"
    and "commit_txn t (th_engineer (threads n ! i)) f = Inr f'"
  shows "arq f' = [] \<and> leads i (at_phase n i (Finding t) stub f)
    (at_phase n i Identify (snd (SendResponseReplicationReq ''Done commit'' stub)) f')"
proof -
  let ?eng = "th_engineer (threads n ! i)"
  obtain nl cs f1 f2 where loop: "(case map_find t (txn_log f) of
        Some recs \<Rightarrow> commit_records t ?eng recs ([], [], f) | None \<Rightarrow> Inr ([], [], f)) = Inr (nl, cs, f1)"
    and log: "store_txn_log_record cs (f1\<lparr>txn_log := nl\<rparr>) = Inr f2" and cust: "store_cust_record_txn f2 = Inr f'"
    using assms(4) by (auto simp: commit_txn_def)
  have find: "leads i (at_phase n i (Finding t) stub f) (at_phase n i (find_step t f) stub f)"
    by (rule leads_step [OF assms(1,2)]) (simp_all add: find_step_def split: option.split)
  have swap: "arq f1 = [] \<and> leads i (at_phase n i (find_step t f) stub f) (at_phase n i (Swapping t nl cs) stub f1)"
    using loop assms(3) leads_commit_records [OF assms(1-3)]
    by (auto simp: find_step_def split: option.splits)
  have "leads i (at_phase n i (Swapping t nl cs) stub f1)
      (at_phase n i (CommitLogging t cs) stub (f1\<lparr>txn_log := nl\<rparr>))"
    by (rule leads_step [OF assms(1,2)]) simp_all
  also have "leads i (at_phase n i (CommitLogging t cs) stub (f1\<lparr>txn_log := nl\<rparr>))
      (at_phase n i (CommitStoring t cs) stub f2)"
    by (rule leads_step [OF assms(1,2)]) (simp_all add: log)
  also have "leads i (at_phase n i (CommitStoring t cs) stub f2) (at_phase n i (Committed t cs) stub f')"
    by (rule leads_step [OF assms(1,2)]) (simp_all add: cust)
  also have "leads i (at_phase n i (Committed t cs) stub f')
      (at_phase n i Identify (snd (SendResponseReplicationReq ''Done commit'' stub)) f')"
    by (rule leads_reply [OF assms(1,2)]) simp
  finally have "leads i (at_phase n i (Finding t) stub f)
      (at_phase n i Identify (snd (SendResponseReplicationReq ''Done commit'' stub)) f')"
    using find swap leads_trans by blast
  moreover have "arq f' = []"
    using swap log cust by (auto simp: store_txn_log_record_def store_cust_record_txn_def)
  ultimately show ?thesis by blast
qed

lemma leads_abort:
  assumes "i < length (threads n)" and "others_quiet n i" and "abort_txn t f = Inr f'"
  shows "leads i (at_phase n i (Marking t) stub f)
    (at_phase n i Identify (snd (SendResponseReplicationReq ''Done abort'' stub)) f')"
proof -
  have "leads i (at_phase n i (Marking t) stub f) (at_phase n i (AbortLogging t) stub (mark_step t f))"
    by (rule leads_step [OF assms(1,2)]) simp_all
  also have "leads i (at_phase n i (AbortLogging t) stub (mark_step t f)) (at_phase n i (Aborted t) stub f')"
    using assms(3) by (intro leads_step [OF assms(1,2)]) (simp_all add: abort_txn_def mark_step_def Let_def)
  also have "leads i (at_phase n i (Aborted t) stub f')
      (at_phase n i Identify (snd (SendResponseReplicationReq ''Done abort'' stub)) f')"
    by (rule leads_reply [OF assms(1,2)]) simp
  finally show ?thesis .
qed

section \<open>The dispatcher as a schedule\<close>

lemma leads_reader:
  assumes "i < length (threads n)" and "others_quiet n i"
  shows "leads i (at_phase n i Serving stub f)
    (at_phase n i Finished (destroy_Socket (ReadEngineerFlow f stub)) f)"
proof (induction f stub rule: ReadEngineerFlow.induct)
  case (1 f stub)
  obtain order stub1 where recv: "ReceiveRequest stub = (order, stub1)" by force
  consider "\<not> CustomerOrder_IsValid order" | "CustomerOrder_IsValid order" "co_request_type order = 2"
    | "CustomerOrder_IsValid order" "co_request_type order \<noteq> 2" by blast
  then show ?case
  proof cases
    case 1
    then show ?thesis
      by (intro leads_step [OF assms]) (simp_all add: serving_step_def recv ReadEngineerFlow.simps [of f stub])
  next
    case 2
    let ?s = "snd (ReturnRecord (lookup_record (co_customer_id order) f) stub1)"
    have "leads i (at_phase n i Serving stub f) (at_phase n i Serving ?s f)"
      using 2 by (intro leads_step [OF assms]) (simp_all add: serving_step_def recv)
    then show ?thesis
      using 2 "1.IH"(1) [OF recv [symmetric]] leads_trans
      by (simp add: recv ReadEngineerFlow.simps [of f stub])
  next
    case 3
    have "leads i (at_phase n i Serving stub f) (at_phase n i Serving stub1 f)"
      using 3 by (intro leads_step [OF assms]) (simp_all add: serving_step_def recv)
    then show ?thesis
      using 3 "1.IH"(2) [OF recv [symmetric]] leads_trans
      by (simp add: recv ReadEngineerFlow.simps [of f stub])
  qed
qed

lemma leads_backup:
  assumes "i < length (threads n)" and "others_quiet n i" and "IFAFlow stub f = Inr (stub', f')"
  shows "leads i (at_phase n i Backup stub f) (at_phase n i Finished (destroy_Socket stub') f')"
  using assms(3)
proof (induction stub f rule: IFAFlow.induct)
  case (1 stub f)
  obtain req stub1 where recv: "ReceiveReplicationReq stub = (req, stub1)" by force
  show ?case
  proof (cases "rr_factory_id req = -1")
    case True
    then show ?thesis
      using "1.prems" by (intro leads_step [OF assms(1,2)])
        (simp_all add: backup_step_def recv IFAFlow.simps [of stub f])
  next
    case False
    let ?stub = "snd (SendResponseReplicationReq ''DONE'' stub1)"
    obtain f1 where f1: "IFA_apply req f = Inr f1" "IFAFlow ?stub f1 = Inr (stub', f')"
      using "1.prems" False by (auto simp: recv IFAFlow.simps [of stub f])
    have "leads i (at_phase n i Backup stub f) (at_phase n i Backup ?stub f1)"
      by (rule leads_step [OF assms(1,2)]) (simp_all add: backup_step_def recv False f1(1))
    then show ?thesis using "1.IH" [OF recv [symmetric] False f1] leads_trans by blast
  qed
qed

lemma arq_store_txn_log: "store_txn_log_in_txn_map txn f = Inr f' \<Longrightarrow> arq f' = arq f"
  by (auto simp: store_txn_log_in_txn_map_def store_txn_log_record_def Let_def)

lemma arq_copy_to_peer: "copy_to_peer txn i f = Inr f' \<Longrightarrow> arq f' = arq f"
  by (auto simp: copy_to_peer_def split: if_splits prod.splits)

lemma arq_prepare_txn: "prepare_txn txn f = Inr (reply, f') \<Longrightarrow> arq f' = arq f"
  by (auto simp: prepare_txn_def CopyTranlogReplica_def arq_store_txn_log split: if_splits
      dest!: keeps_arq_loop [OF _ arq_copy_to_peer])

lemma arq_abort_txn: "abort_txn t f = Inr f' \<Longrightarrow> arq f' = arq f"
  by (auto simp: abort_txn_def store_txn_log_record_def Let_def)

text \<open>A served request brings the thread back to the dispatcher.\<close>

lemma leads_identify:
  assumes "i < length (threads n)" and "others_quiet n i"
    and "identify_step stub f = Inr (p, stub1, f)" and "\<not> is_placed p"
    and "leads i (at_phase n i p stub1 f) m"
  shows "leads i (at_phase n i Identify stub f) m"
  using assms(3,4) by (intro leads_trans [OF leads_step [OF assms(1,2)] assms(5)]) simp_all

lemma leads_TMPrepare:
  assumes "i < length (threads n)" and "others_quiet n i" and "arq f = []"
    and "IdentificationMsg stub = (''TMPrepare'', stub1)" and "TMPrepare stub1 f = Inr (stub2, f2)"
  shows "arq f2 = [] \<and> leads i (at_phase n i Identify stub f) (at_phase n i Identify stub2 f2)"
proof -
  obtain txn stub3 reply where t: "ReceiveTxnRequest stub1 = Inr (txn, stub3)"
    "prepare_txn txn f = Inr (reply, f2)" "stub2 = snd (SendResponseReplicationReq reply stub3)"
    using assms(5) by (auto simp: TMPrepare_def)
  show ?thesis
    using t(1) assms(3,4) arq_prepare_txn [OF t(2)] leads_prepare [OF assms(1,2) t(2), of stub3]
    by (simp add: t(3) leads_identify [OF assms(1,2), of stub f "Checking txn (readRecords txn)" stub3]
        identify_step_def)
qed

lemma leads_TMCommit:
  assumes "i < length (threads n)" and "others_quiet n i" and "arq f = []"
    and "IdentificationMsg stub = (''TMCommit'', stub1)"
    and "TMCommit (th_engineer (threads n ! i)) stub1 f = Inr (stub2, f2)"
  shows "arq f2 = [] \<and> leads i (at_phase n i Identify stub f) (at_phase n i Identify stub2 f2)"
proof -
  obtain u stub3 where t: "ReceiveTxnId stub1 = Inr (u, stub3)"
    "commit_txn u (th_engineer (threads n ! i)) f = Inr f2"
    "stub2 = snd (SendResponseReplicationReq ''Done commit'' stub3)"
    using assms(5) by (auto simp: TMCommit_def)
  show ?thesis
    using t(1) assms(4) leads_commit [OF assms(1,2,3) t(2), of stub3]
    by (simp add: t(3) leads_identify [OF assms(1,2), of stub f "Finding u" stub3] identify_step_def)
qed

lemma leads_TMAbort:
  assumes "i < length (threads n)" and "others_quiet n i" and "arq f = []"
    and "IdentificationMsg stub = (''TMAbort'', stub1)" and "TMAbort stub1 f = Inr (stub2, f2)"
  shows "arq f2 = [] \<and> leads i (at_phase n i Identify stub f) (at_phase n i Identify stub2 f2)"
proof -
  obtain u stub3 where t: "ReceiveTxnId stub1 = Inr (u, stub3)" "abort_txn u f = Inr f2"
    "stub2 = snd (SendResponseReplicationReq ''Done abort'' stub3)"
    using assms(5) by (auto simp: TMAbort_def)
  show ?thesis
    using t(1) assms(3,4) arq_abort_txn [OF t(2)] leads_abort [OF assms(1,2) t(2), of stub3]
    by (simp add: t(3) leads_identify [OF assms(1,2), of stub f "Marking u" stub3] identify_step_def)
qed

lemma leads_PeerPrepare:
  assumes "i < length (threads n)" and "others_quiet n i" and "arq f = []"
    and "IdentificationMsg stub = (''PrPrepare'', stub1)" and "PeerPrepare stub1 f = Inr (stub2, f2)"
  shows "arq f2 = [] \<and> leads i (at_phase n i Identify stub f) (at_phase n i Identify stub2 f2)"
proof -
  obtain txn stub3 where t: "ReceiveTxnRequest stub1 = Inr (txn, stub3)"
    "store_txn_log_in_txn_map txn f = Inr f2" "stub2 = snd (SendResponseReplicationReq ''Ok'' stub3)"
    using assms(5) by (auto simp: PeerPrepare_def)
  have "leads i (at_phase n i (Filing False txn) stub3 f) (at_phase n i Identify stub2 f2)"
    using leads_trans [OF leads_store [OF assms(1,2) t(2), of False stub3]]
      leads_reply [OF assms(1,2), of "Answering txn" stub3 f2 "''Ok''"] t(3) by simp
  then show ?thesis
    using t(1) assms(3,4) arq_store_txn_log [OF t(2)]
    by (simp add: leads_identify [OF assms(1,2), of stub f "Filing False txn" stub3] identify_step_def)
qed

lemma leads_dispatch:
  assumes "i < length (threads n)" and "others_quiet n i" and "arq f = []"
    and "ReceiveIDMsgAndInitiateFlow d (th_engineer (threads n ! i)) stub f = Inr (stub', f')"
  shows "leads i (at_phase n i Identify stub f) (at_phase n i Finished (destroy_Socket stub') f')"
  using assms(3,4)
proof (induction d arbitrary: stub f)
  case 0
  then show ?case by simp
next
  case (Suc d)
  obtain msg stub1 where id: "IdentificationMsg stub = (msg, stub1)" by force
  note first = leads_identify [OF assms(1,2)] and defs = identify_step_def id
  have go_on: ?case
    if "arq f2 = [] \<and> leads i (at_phase n i Identify stub f) (at_phase n i Identify stub2 f2)"
      and "ReceiveIDMsgAndInitiateFlow d (th_engineer (threads n ! i)) stub2 f2 = Inr (stub', f')"
    for stub2 f2
    using leads_trans [OF conjunct2 [OF that(1)] Suc.IH [OF conjunct1 [OF that(1)] that(2)]] .
  note served = go_on [OF leads_TMPrepare [OF assms(1,2) Suc.prems(1)]]
    go_on [OF leads_TMCommit [OF assms(1,2) Suc.prems(1)]]
    go_on [OF leads_TMAbort [OF assms(1,2) Suc.prems(1)]]
    go_on [OF leads_PeerPrepare [OF assms(1,2) Suc.prems(1)]]
  from Suc.prems(2) show ?case
    apply (simp add: id split: if_splits)
    subgoal using first [of stub f Serving stub1, OF _ _ leads_reader [OF assms(1,2)]] by (auto simp: defs)
    subgoal using first [of stub f Backup stub1, OF _ _ leads_backup [OF assms(1,2)]] by (simp add: defs)
    subgoal using served(1) [unfolded id] by auto
    subgoal using served(2) [unfolded id] by auto
    subgoal using served(3) [unfolded id] by auto
    subgoal using served(4) [unfolded id] by auto
    subgoal using first [of stub f Finished "destroy_Socket stub1", OF _ _ leads_refl] by (simp add: defs)
    done
qed

text \<open>
  C4. The sequential model of a connection is one schedule of the threads: whenever no other thread is in the
  loop of a commit and the admin thread has nothing to do, a connection's whole conversation, as the
  sequential dispatcher describes it, can run without any other connection's thread making a step, and it
  leaves the node in the state, and the connection with the bytes, that the sequential dispatcher says.
\<close>

theorem conversation_is_a_schedule:
  assumes "i < length (threads n)" and "th_phase (threads n ! i) = Identify"
    and "owners n = []" and "arq (factory n) = []"
    and "\<forall>j < length (threads n). j \<noteq> i \<longrightarrow> \<not> iterating (th_phase (threads n ! j))"
    and "EngineerIFAThread d (th_stub (threads n ! i)) (th_engineer (threads n ! i)) (factory n)
      = Inr (stub', f')"
  shows "\<exists>es. set es \<subseteq> {ThreadStep i, AdminStep}
    \<and> run_events es n = Some (Inr (n\<lparr>factory := f', threads := (threads n)[i :=
        (threads n ! i)\<lparr>th_stub := stub', th_phase := Finished\<rparr>]\<rparr>))"
proof -
  obtain stub1 where d: "ReceiveIDMsgAndInitiateFlow d (th_engineer (threads n ! i))
      (th_stub (threads n ! i)) (factory n) = Inr (stub1, f')" "stub' = destroy_Socket stub1"
    using assms(6) by (auto simp: EngineerIFAThread_def)
  have "at_phase n i Identify (th_stub (threads n ! i)) (factory n) = n"
    using assms(3) list_update_id [of "threads n" i] unfolding assms(2) [symmetric]
    by (cases n) (simp add: at_phase_def)
  moreover have "others_quiet n i" using assms(5) by (simp add: others_quiet_def)
  ultimately show ?thesis
    using leads_dispatch [OF assms(1) _ assms(4) d(1)] assms(3) d(2)
    by (cases n) (simp add: leads_def at_phase_def)
qed

text \<open>An aborting client is served while another thread is about to file its records.\<close>

definition busy_node :: node where
  "busy_node = \<lparr>factory = demo_rm,
     threads = [\<lparr>th_stub = demo_conn [], th_engineer = 0, th_phase = Filing True (demo_txn 8 1)\<rparr>,
       \<lparr>th_stub = demo_conn [id_segment ''TMAbort'' (demo_conn []), Segment (net_bytes 7)],
        th_engineer = 1, th_phase = Identify\<rparr>],
     owners = []\<rparr>"

lemma abort_conversation:
  "\<exists>stub'. EngineerIFAThread 2 (demo_conn [id_segment ''TMAbort'' (demo_conn []), Segment (net_bytes 7)]) 1
     demo_rm = Inr (stub', aborted_state 7 demo_rm)"
proof -
  let ?s = "demo_conn [id_segment ''TMAbort'' (demo_conn []), Segment (net_bytes 7)]"
  have "abort_txn 7 demo_rm = Inr (aborted_state 7 demo_rm)"
    using rm_readyD(4) [OF rm_ready_demo] by (rule abort_txn_eq)
  then show ?thesis
    using dispatch_abort [of ?s "demo_conn []" 7 "[]" demo_rm "aborted_state 7 demo_rm"]
      dispatch_eof [of "replied [] ''Done abort'' ?s"]
    by (simp add: EngineerIFAThread_def numeral_2_eq_2 del: ReceiveIDMsgAndInitiateFlow.simps)
qed

lemma conversation_is_a_schedule_witness:
  "\<exists>es n. set es \<subseteq> {ThreadStep 1, AdminStep} \<and> run_events es busy_node = Some (Inr n)
     \<and> factory n = aborted_state 7 demo_rm"
proof -
  obtain stub' where run: "EngineerIFAThread 2 (th_stub (threads busy_node ! 1))
      (th_engineer (threads busy_node ! 1)) (factory busy_node) = Inr (stub', aborted_state 7 demo_rm)"
    using abort_conversation by (auto simp: busy_node_def)
  have "\<forall>j < length (threads busy_node). j \<noteq> 1 \<longrightarrow> \<not> iterating (th_phase (threads busy_node ! j))"
    by (simp add: busy_node_def less_Suc_eq)
  from conversation_is_a_schedule [OF _ _ _ _ this run]
  obtain es where "set es \<subseteq> {ThreadStep 1, AdminStep}"
    "run_events es busy_node = Some (Inr (busy_node\<lparr>factory := aborted_state 7 demo_rm,
       threads := (threads busy_node)[1 := (threads busy_node ! 1)\<lparr>th_stub := stub', th_phase := Finished\<rparr>]\<rparr>))"
    by (auto simp: busy_node_def)
  then show ?thesis by force
qed

end
