(* ===== verification/Interleavings.thy ===== *)
theory Interleavings
  imports Concurrent
begin

text \<open>
  The invariant of a resource manager's threads in every order of their steps (\<open>concurrent\<close>): the shared
  state stays well formed, and its queue matches the waiting threads. Each step is shown to keep it, then it
  holds by rule induction.
\<close>

section \<open>A step of a thread, taken apart\<close>

lemma thread_eventE:
  assumes "thread_event i n = Some (Inr n')"
  obtains p stub f where "i < length (threads n)"
    "phase_step (th_phase (threads n ! i)) (th_engineer (threads n ! i)) (th_stub (threads n ! i)) (factory n)
      = Some (Inr (p, stub, f))"
    "n' = \<lparr>factory = f,
       threads = (map (th_phase_update (forget (invalidates (th_phase (threads n ! i)) (factory n)))) (threads n))
         [i := (threads n ! i)\<lparr>th_stub := stub, th_phase := p\<rparr>],
       owners = (if is_placed p then owners n @ [i] else owners n)\<rparr>"
  using assms by (auto simp: thread_event_def Let_def split: if_splits option.splits)

lemma admin_eventE:
  assumes "admin_event n = Some (Inr n')"
  obtains i rest req q laptop f where "owners n = i # rest" "arq (factory n) = req # q"
    "AdminThread_round (admin_id (factory n)) req ((factory n)\<lparr>arq := q\<rparr>) = Inr (laptop, f)"
    "n' = \<lparr>factory = f, threads = (threads n)[i := th_phase_update resume (threads n ! i)], owners = rest\<rparr>"
  using assms by (auto simp: admin_event_def AdminThread_step_def split: list.splits)

text \<open>The phase of a thread after a step of thread \<open>i\<close>, and after the admin thread's answer.\<close>

lemma phase_after_step:
  "j < length ts \<Longrightarrow> th_phase ((map (th_phase_update (forget P)) ts)[i := (ts ! i)\<lparr>th_stub := s, th_phase := p\<rparr>] ! j)
     = (if j = i then p else forget P (th_phase (ts ! j)))"
  by (simp add: nth_list_update)

lemma phase_after_answer:
  "j < length ts \<Longrightarrow> th_phase (ts[i := th_phase_update resume (ts ! i)] ! j)
     = (if j = i then resume (th_phase (ts ! i)) else th_phase (ts ! j))"
  by (simp add: nth_list_update)

lemma is_placed_forget [simp]: "is_placed (forget P p) = is_placed p"
  by (cases p) simp_all

lemma is_placed_resume [simp]: "\<not> is_placed (resume p)"
  by (cases p) simp_all

section \<open>Well-formedness\<close>

definition shared_ok :: "LaptopFactory \<Rightarrow> bool" where
  "shared_ok f \<longleftrightarrow> rm_ok f \<and> log_ok (txn_log f) \<and> disk_writable (files f) \<and> cust_file_ok f"

text \<open>The local data of a commit: the records are the transaction's own, the new log is well formed.\<close>

fun phase_ok :: "phase \<Rightarrow> bool" where
  "phase_ok (Applying t valid recs new_txn_log committed) =
     ((\<forall>r \<in> set recs. tl_txn_id r = t) \<and> log_ok new_txn_log)"
| "phase_ok (Placed t valid recs new_txn_log committed) =
     ((\<forall>r \<in> set recs. tl_txn_id r = t) \<and> log_ok new_txn_log)"
| "phase_ok (Swapping t new_txn_log committed) = log_ok new_txn_log"
| "phase_ok p = True"

lemma phase_ok_forget [simp]: "phase_ok (forget P p) = phase_ok p"
  by (cases p) simp_all

lemma phase_ok_resume: "phase_ok p \<Longrightarrow> phase_ok (resume p)"
  by (cases p) simp_all

text \<open>\<open>owners\<close> lists the waiting threads, each once, one for each queued request.\<close>

definition queue_ok :: "node \<Rightarrow> bool" where
  "queue_ok n \<longleftrightarrow> length (arq (factory n)) = length (owners n) \<and> distinct (owners n)
     \<and> set (owners n) = {i. i < length (threads n) \<and> is_placed (th_phase (threads n ! i))}"

lemma queue_okD:
  "queue_ok n \<Longrightarrow> i \<in> set (owners n) \<longleftrightarrow> i < length (threads n) \<and> is_placed (th_phase (threads n ! i))"
  by (simp add: queue_ok_def)

definition node_ok :: "node \<Rightarrow> bool" where
  "node_ok n \<longleftrightarrow> shared_ok (factory n) \<and> queue_ok n
     \<and> (\<forall>i < length (threads n). phase_ok (th_phase (threads n ! i)))"

text \<open>Each kind of step on the shared state keeps it well formed.\<close>

lemma shared_ok_cong:
  assumes "rm_ok g = rm_ok f" "txn_log g = txn_log f" "files g = files f"
  shows "shared_ok g = shared_ok f"
  using assms by (simp add: shared_ok_def cust_file_ok_def)

lemma shared_ok_log: "shared_ok f \<Longrightarrow> log_ok d \<Longrightarrow> shared_ok (f\<lparr>txn_log := d\<rparr>)"
  by (simp add: shared_ok_def rm_ok_def peers_ok_def indices_ok_def log_ok_def cust_file_ok_def)

lemma shared_ok_only_net: "only_net f g \<Longrightarrow> shared_ok f \<Longrightarrow> shared_ok g"
  by (simp add: shared_ok_def only_net_rm_ok only_net_fields cust_file_ok_def)

lemma shared_ok_append:
  assumes "shared_ok f" and "store_txn_log_record recs f = Inr g"
  shows "shared_ok g"
  using assms by (auto simp: store_txn_log_record_eq shared_ok_def rm_ok_def peers_ok_def
      indices_ok_def disk_writable_def cust_file_ok_def)

lemma shared_ok_store:
  assumes "shared_ok f" and "store_cust_record_txn f = Inr g"
  shows "shared_ok g"
  using assms by (auto simp: store_cust_record_txn_eq shared_ok_def rm_ok_def peers_ok_def
      indices_ok_def disk_writable_def cust_file_ok_def)

lemma copy_to_peer_only_net: "copy_to_peer txn i s = Inr t \<Longrightarrow> only_net s t"
  by (auto simp: copy_to_peer_def split: if_splits prod.splits)

lemma CopyTranlogReplica_only_net: "CopyTranlogReplica txn s = Inr t \<Longrightarrow> only_net s t"
  unfolding CopyTranlogReplica_def
  by (rule for_loop_invariant [where P = "only_net s"])
    (auto intro: only_net_trans dest: copy_to_peer_only_net)

lemma shared_ok_IFA:
  assumes "shared_ok f" and "log_room 1 f" and "IFA_apply req f = Inr g"
  shows "shared_ok g"
proof -
  have "rm_ready (f\<lparr>arq := []\<rparr>)" using assms(1) by (simp add: shared_ok_def rm_ready_def)
  moreover have "IFA_apply req (f\<lparr>arq := []\<rparr>) = Inr (g\<lparr>arq := []\<rparr>)"
    using assms(3) by (auto simp: IFA_apply_def Let_def split: if_splits)
  moreover have "log_room 1 (f\<lparr>arq := []\<rparr>)" using assms(2) by (simp add: log_room_def)
  ultimately have "rm_ready (g\<lparr>arq := []\<rparr>)" using rm_ready_IFA by blast
  then show ?thesis
    using assms(1) IFA_apply_fields [OF assms(3)]
    by (simp add: shared_ok_def rm_ready_def cust_file_ok_def)
qed

lemma shared_ok_round:
  assumes "shared_ok f" and "log_room 1 f" and "AdminThread_round aid req f = Inr (laptop, g)"
  shows "shared_ok g" and "files g = files f" and "txn_log g = txn_log f"
proof -
  have rm: "rm_ok f" using assms(1) by (simp add: shared_ok_def)
  obtain t where t: "AdminThread_round aid req f = Inr (SetAdminId aid (ar_laptop req), t)"
    "only_net (apply_locally (request_op req) (primary_form f)) t"
    using AdminThread_round_eq [OF rm] by blast
  then have g: "g = t" using assms(3) by simp
  show same: "files g = files f" "txn_log g = txn_log f"
    by (simp_all add: g only_net_fields [OF t(2)])
  show "shared_ok g"
    using AdminThread_round_rm_ok [OF rm assms(2,3)] assms(1)
    by (simp add: shared_ok_def same cust_file_ok_def)
qed

lemma arq_append: "store_txn_log_record recs f = Inr g \<Longrightarrow> arq g = arq f"
  by (auto simp: store_txn_log_record_def)

lemma arq_store: "store_cust_record_txn f = Inr g \<Longrightarrow> arq g = arq f"
  by (auto simp: store_cust_record_txn_def)

text \<open>The step of a thread, phase by phase.\<close>

lemma identify_step_result:
  assumes "identify_step stub f = Inr (p, stub', g)"
  shows "g = f \<and> phase_ok p \<and> \<not> is_placed p"
  using assms by (auto simp: identify_step_def split: prod.splits if_splits)

lemma apply_step_result:
  assumes "apply_step t valid recs nl cs eng f = Inr (p, g)"
    and "\<forall>r \<in> set recs. tl_txn_id r = t" and "log_ok nl"
  shows "\<exists>q. g = f\<lparr>arq := q\<rparr> \<and> phase_ok p \<and> length q = length (arq f) + (if is_placed p then 1 else 0)"
  using assms
  by (cases "(t, valid, recs, nl, cs, eng, f)" rule: apply_step.cases)
    (auto simp: Let_def log_ok_update_value mk_TxnLogRequest_def intro: exI [of _ "arq f"])

lemma shared_ok_arq [simp]: "shared_ok (f\<lparr>arq := q\<rparr>) = shared_ok f"
  by (rule shared_ok_cong) simp_all

lemma phase_step_ok:
  assumes "shared_ok f" and "log_room 1 f" and "phase_ok p"
    and "phase_step p eng stub f = Some (Inr (p', stub', g))"
  shows "shared_ok g \<and> phase_ok p' \<and> length (arq g) = length (arq f) + (if is_placed p' then 1 else 0)"
proof (cases p)
  case Identify
  then show ?thesis using assms identify_step_result [of stub f p' stub' g] by auto
next
  case Backup
  then show ?thesis
    using assms shared_ok_IFA [OF assms(1,2)] shared_ok_cong [of "f\<lparr>primary_id := -1\<rparr>" f]
    by (auto simp: backup_step_def IFA_apply_fields rm_ok_def peers_ok_def indices_ok_def
        split: prod.splits if_splits)
next
  case (Checking txn reads)
  then show ?thesis using assms by (cases reads) (auto split: if_splits)
next
  case (Filing tm txn)
  then show ?thesis
    using assms prepare_records_id [of _ txn]
    by (auto simp: file_step_def shared_ok_def [of f] intro!: shared_ok_log log_ok_insert)
next
  case (Copying txn)
  then show ?thesis
    using assms shared_ok_only_net only_net_fields(1)
    by (auto dest!: CopyTranlogReplica_only_net)
next
  case (Applying t valid recs nl cs)
  then have "apply_step t valid recs nl cs eng f = Inr (p', g)" using assms(4) by auto
  then obtain q where "g = f\<lparr>arq := q\<rparr>" "phase_ok p'"
    "length q = length (arq f) + (if is_placed p' then 1 else 0)"
    using apply_step_result [of t valid recs nl cs eng f p' g] assms(3) Applying by auto
  then show ?thesis using assms(1) by simp
next
  case (Marking t)
  then show ?thesis
    using assms by (auto simp: mark_step_def shared_ok_def [of f] mk_TxnLogRequest_def
        intro!: shared_ok_log log_ok_update_value)
next
  case (Swapping t nl cs)
  then show ?thesis using assms by (auto intro!: shared_ok_log)
next
  case Serving
  then show ?thesis using assms by (auto simp: serving_step_def split: prod.splits if_splits)
next
  case (Finding t)
  then show ?thesis
    using assms log_ok_find [of "txn_log f" t] by (auto simp: find_step_def shared_ok_def split: option.splits)
qed (use assms in \<open>auto simp: reply_step_def arq_append arq_store
    dest: shared_ok_append [OF assms(1)] shared_ok_store [OF assms(1)] split: if_splits\<close>)

section \<open>The invariant of every schedule\<close>

lemma node_ok_idle: "node_inv f \<Longrightarrow> node_ok (idle_node f)"
  by (simp add: node_ok_def idle_node_def shared_ok_def queue_ok_def node_inv_def rm_ready_def)

lemma node_ok_thread:
  assumes "node_ok n" and "log_room 1 (factory n)" and "thread_event i n = Some (Inr n')"
  shows "node_ok n'"
  using assms(3)
proof (cases rule: thread_eventE)
  case (1 p stub f)
  let ?q = "th_phase (threads n ! i)"
  have ok: "shared_ok (factory n)" "queue_ok n" "\<forall>j < length (threads n). phase_ok (th_phase (threads n ! j))"
    using assms(1) by (simp_all add: node_ok_def)
  have f: "shared_ok f" "phase_ok p" "length (arq f) = length (arq (factory n)) + (if is_placed p then 1 else 0)"
    using phase_step_ok [OF ok(1) assms(2) ok(3) [rule_format, OF 1(1)] 1(2)] by auto
  have running: "\<not> is_placed ?q"
    using 1(2) by (cases ?q) simp_all
  have phase: "th_phase (threads n' ! j) =
      (if j = i then p else forget (invalidates ?q (factory n)) (th_phase (threads n ! j)))"
    if "j < length (threads n)" for j
    using phase_after_step [OF that] by (simp add: 1(3))
  have same: "length (threads n') = length (threads n)" "factory n' = f"
    "owners n' = (if is_placed p then owners n @ [i] else owners n)" by (simp_all add: 1(3))
  have "j \<in> set (owners n') \<longleftrightarrow> j < length (threads n') \<and> is_placed (th_phase (threads n' ! j))" for j
    using queue_okD [OF ok(2), of j] phase [of j] running 1(1)
    by (cases "j < length (threads n)"; cases "j = i") (simp_all add: same)
  then have "set (owners n') = {j. j < length (threads n') \<and> is_placed (th_phase (threads n' ! j))}"
    by blast
  then have "queue_ok n'"
    using ok(2) f(3) running by (auto simp: queue_ok_def same)
  moreover have "\<forall>j < length (threads n'). phase_ok (th_phase (threads n' ! j))"
    using ok(3) f(2) by (simp add: same(1) phase)
  ultimately show ?thesis using f(1) by (simp add: node_ok_def same(2))
qed

lemma node_ok_admin:
  assumes "node_ok n" and "log_room 1 (factory n)" and "admin_event n = Some (Inr n')"
  shows "node_ok n'"
  using assms(3)
proof (cases rule: admin_eventE)
  case (1 i rest req q laptop f)
  have ok: "shared_ok (factory n)" "queue_ok n" "\<forall>j < length (threads n). phase_ok (th_phase (threads n ! j))"
    using assms(1) by (simp_all add: node_ok_def)
  have "log_room 1 ((factory n)\<lparr>arq := q\<rparr>)" using assms(2) by (simp add: log_room_def)
  from shared_ok_round(1) [OF _ this 1(3)] have f: "shared_ok f" using ok(1) by simp
  have i: "i < length (threads n)" using ok(2) 1(1) by (auto simp: queue_ok_def)
  have phase: "th_phase (threads n' ! j) = (if j = i then resume (th_phase (threads n ! i)) else th_phase (threads n ! j))"
    if "j < length (threads n)" for j
    using phase_after_answer [OF that] by (simp add: 1(4))
  have same: "length (threads n') = length (threads n)" "factory n' = f" "owners n' = rest"
    by (simp_all add: 1(4))
  have "set rest = set (owners n) - {i}" using ok(2) 1(1) by (auto simp: queue_ok_def)
  then have "j \<in> set (owners n') \<longleftrightarrow> j < length (threads n') \<and> is_placed (th_phase (threads n' ! j))" for j
    using queue_okD [OF ok(2), of j] phase [of j]
    by (cases "j < length (threads n)"; cases "j = i") (simp_all add: same)
  then have "set (owners n') = {j. j < length (threads n') \<and> is_placed (th_phase (threads n' ! j))}"
    by blast
  moreover have "arq f = q" using arq_AdminThread_round [OF 1(3)] by simp
  ultimately have "queue_ok n'"
    using ok(2) 1(1,2) by (simp add: queue_ok_def same)
  moreover have "\<forall>j < length (threads n'). phase_ok (th_phase (threads n' ! j))"
    using ok(3) i by (simp add: same phase phase_ok_resume)
  ultimately show ?thesis using f by (simp add: node_ok_def same)
qed

lemma node_ok_accept: "node_ok n \<Longrightarrow> node_ok (accept_event conn eng n)"
  by (auto simp: node_ok_def queue_ok_def accept_event_def nth_append less_Suc_eq)

lemma node_ok_event:
  "node_ok n \<Longrightarrow> log_room 1 (factory n) \<Longrightarrow> run_event e n = Some (Inr n') \<Longrightarrow> node_ok n'"
  by (cases e) (auto intro: node_ok_thread node_ok_admin node_ok_accept)

lemma node_ok_concurrent: "concurrent f0 n \<Longrightarrow> node_inv f0 \<Longrightarrow> node_ok n"
  by (induction rule: concurrent.induct) (auto intro: node_ok_idle node_ok_event)

text \<open>
  C10. Well-formedness under concurrency: however the threads' steps interleave, in every reachable node the
  maps stay sorted with every log record filed under its own transaction, the indices and peer tables fit,
  and the admin thread's queue holds exactly one request for each thread that waits for an answer.
\<close>

theorem threads_keep_node_well_formed:
  assumes "concurrent f0 n" and "node_inv f0"
  shows "rm_ok (factory n) \<and> log_ok (txn_log (factory n))
    \<and> length (arq (factory n)) = length (owners n) \<and> distinct (owners n)
    \<and> set (owners n) = {i. i < length (threads n) \<and> is_placed (th_phase (threads n ! i))}"
  using node_ok_concurrent [OF assms] by (simp add: node_ok_def shared_ok_def queue_ok_def)

text \<open>A connection that aborts transaction 7, three steps after it was accepted: its reply is due.\<close>

definition abort_conn :: ServerStub where
  "abort_conn = demo_conn [id_segment ''TMAbort'' (demo_conn []), Segment (net_bytes 7)]"

definition abort_due :: node where
  "abort_due = \<lparr>factory = aborted_state 7 demo_rm,
     threads = [\<lparr>th_stub = abort_conn\<lparr>rx := []\<rparr>, th_engineer = 1, th_phase = Aborted 7\<rparr>], owners = []\<rparr>"

lemma node_inv_demo: "node_inv demo_rm"
proof -
  have "cust_file_ok demo_rm"
    unfolding cust_file_ok_def
    by (simp add: demo_files_def) (rule exI [of _ "[(0, 50), (1, 50)]"], simp add: map_ok_def)
  moreover have "log_on_disk [] demo_rm"
    by (simp add: log_on_disk_def log_content_def demo_files_def logged_def)
  ultimately show ?thesis by (auto simp: node_inv_def)
qed

lemma identify_abort: "identify_step abort_conn f = Inr (Marking 7, abort_conn\<lparr>rx := []\<rparr>, f)"
  using Id_segment [of abort_conn "''TMAbort''" "demo_conn []" "[Segment (net_bytes 7)]"]
    TxnId_segment [of "abort_conn\<lparr>rx := [Segment (net_bytes 7)]\<rparr>" 7 "[]"]
  by (simp add: identify_step_def abort_conn_def conn_ok_def short_msg_def)

lemma concurrent_abort_due: "concurrent demo_rm abort_due"
proof -
  let ?n = "\<lambda>p c f. \<lparr>factory = f, threads = [\<lparr>th_stub = c, th_engineer = 1, th_phase = p\<rparr>], owners = []\<rparr>"
  let ?c = "abort_conn\<lparr>rx := []\<rparr>"
  note step = concurrent.event [of demo_rm]
  have "concurrent demo_rm (?n Identify abort_conn demo_rm)"
    by (rule step [OF concurrent.idle, where e = "AcceptConn abort_conn 1"])
      (simp_all add: idle_node_def accept_event_def)
  then have "concurrent demo_rm (?n (Marking 7) ?c demo_rm)"
    by (rule step [where e = "ThreadStep 0"]) (simp_all add: thread_event_def identify_abort)
  then have "concurrent demo_rm (?n (AbortLogging 7) ?c (mark_step 7 demo_rm))"
    by (rule step [where e = "ThreadStep 0"]) (simp_all add: thread_event_def)
  then show ?thesis
    unfolding abort_due_def
    by (rule step [where e = "ThreadStep 0"])
      (simp_all add: thread_event_def mark_step_def log_room_def store_txn_log_record_eq demo_files_def
        disk_writable_def aborted_state_def abort_rec_def)
qed

lemma threads_keep_node_well_formed_witness:
  "rm_ok (factory abort_due) \<and> log_ok (txn_log (factory abort_due)) \<and> owners abort_due = []"
  using threads_keep_node_well_formed [OF concurrent_abort_due node_inv_demo] by (simp add: abort_due_def)

end
