(* ===== verification/WriteAhead.thy ===== *)
theory WriteAhead
  imports Interleavings
begin

text \<open>
  The log file is ahead of memory and of the replies, in every order of the threads' steps: what each phase
  of a thread has yet to append, what its reply stands for, and the invariant that connects both with the file.
\<close>

section \<open>The log is written ahead\<close>

text \<open>Records a thread has put into memory, or is about to answer for, and has yet to append to the file.\<close>

fun unlogged :: "phase \<Rightarrow> TxnLogRequest list" where
  "unlogged (Logging tm txn) = prepare_records txn"
| "unlogged (CommitLogging t committed) = committed"
| "unlogged (AbortLogging t) = [abort_rec t]"
| "unlogged p = []"

text \<open>Records that the reply a thread is about to send stands for.\<close>

fun promised :: "phase \<Rightarrow> TxnLogRequest list" where
  "promised (Copying txn) = prepare_records txn"
| "promised (Answering txn) = prepare_records txn"
| "promised (CommitStoring t committed) = committed"
| "promised (Committed t committed) = committed"
| "promised (Aborted t) = [abort_rec t]"
| "promised p = []"

definition entries :: "TxnLogRequest list imap \<Rightarrow> TxnLogRequest set" where
  "entries d = (\<Union>kv \<in> set d. set (snd kv))"

fun covered :: "TxnLogRequest set \<Rightarrow> phase \<Rightarrow> bool" where
  "covered S (Applying t valid recs new_txn_log committed) =
     (set recs \<subseteq> S \<and> entries new_txn_log \<subseteq> S \<union> set committed)"
| "covered S (Placed t valid recs new_txn_log committed) =
     (set recs \<subseteq> S \<and> entries new_txn_log \<subseteq> S \<union> set committed)"
| "covered S (Swapping t new_txn_log committed) = (entries new_txn_log \<subseteq> S \<union> set committed)"
| "covered S p = True"

lemma phase_forget [simp]:
  "unlogged (forget P p) = unlogged p" "promised (forget P p) = promised p"
  "covered S (forget P p) = covered S p"
  by (cases p; simp)+

lemma phase_resume [simp]:
  "unlogged (resume p) = unlogged p" "promised (resume p) = promised p" "covered S (resume p) = covered S p"
  by (cases p; simp)+

lemma covered_mono: "covered S p \<Longrightarrow> S \<subseteq> T \<Longrightarrow> covered T p"
  by (cases p) auto

lemma entries_insert: "entries (map_insert k recs d) \<subseteq> entries d \<union> set recs"
  by (fastforce simp: entries_def dest: in_set_map_insert)

lemma entries_update_value: "entries (snd (update_value d k r)) \<subseteq> entries d \<union> {r}"
  by (fastforce simp: entries_def update_value_def split: option.splits
      dest!: in_set_map_insert in_set_map_assign map_find_in_set)

lemma logged_entries: "set (logged t f) \<subseteq> entries (txn_log f)"
  by (cases "map_find t (txn_log f)") (force simp: logged_def entries_def dest: map_find_in_set)+

text \<open>
  One step of a thread: it appends what it had to log, and anything new in memory is now its own to log.
\<close>

definition logs_ahead ::
  "TxnLogRequest list \<Rightarrow> TxnLogRequest set \<Rightarrow> phase \<Rightarrow> phase \<Rightarrow> LaptopFactory \<Rightarrow> bool" where
  "logs_ahead L S p p' g \<longleftrightarrow>
     log_content (files g) = log_text (L @ unlogged p) \<and> entries (txn_log g) \<subseteq> S \<union> set (unlogged p')
     \<and> covered S p' \<and> set (promised p') \<subseteq> set (L @ unlogged p)"

lemma logs_ahead_apply:
  assumes "apply_step t valid recs nl cs eng f = Inr (p', g)" and "log_content (files f) = log_text L"
    and "entries (txn_log f) \<subseteq> S" and "set recs \<subseteq> S" and "entries nl \<subseteq> S \<union> set cs"
  shows "logs_ahead L S (Applying t valid recs nl cs) p' g"
proof (cases "(t, valid, recs, nl, cs, eng, f)" rule: apply_step.cases)
  case (3 t r rs nl0 cs0 eng0 f0)
  have two: "entries (snd (update_value (snd (update_value d k r)) k' c)) \<subseteq> entries d \<union> {r, c}" for d k k' c
    using entries_update_value [of d k r] entries_update_value [of "snd (update_value d k r)" k' c] by blast
  show ?thesis
    using assms 3 two [of nl] by (auto simp: logs_ahead_def Let_def dest!: subsetD [OF two])
qed (use assms in \<open>auto simp: logs_ahead_def\<close>)

lemma log_content_append:
  assumes "disk_writable (files f)" and "store_txn_log_record recs f = Inr g"
    and "log_content (files f) = log_text L"
  shows "log_content (files g) = log_text (L @ recs)" and "txn_log g = txn_log f"
  using assms by (auto simp: store_txn_log_record_eq log_text_append) (simp add: log_content_def)

lemma phase_step_logs_ahead:
  assumes "shared_ok f" and "phase_step p eng stub f = Some (Inr (p', stub', g))"
    and "log_content (files f) = log_text L" and "entries (txn_log f) \<subseteq> S" and "covered S p"
    and "set (promised p) \<subseteq> set L"
  shows "logs_ahead L S p p' g"
proof -
  have disk: "disk_writable (files f)" using assms(1) by (simp add: shared_ok_def)
  note append = log_content_append [OF disk _ assms(3)]
  show ?thesis
  proof (cases p)
    case Identify
    then show ?thesis
      using assms by (auto simp: logs_ahead_def identify_step_def split: prod.splits if_splits)
  next
    case (Checking txn reads)
    then show ?thesis using assms by (cases reads) (auto simp: logs_ahead_def split: if_splits)
  next
    case (Filing tm txn)
    then show ?thesis
      using assms entries_insert [of "txn_id txn" "prepare_records txn" "txn_log f"]
      by (auto simp: logs_ahead_def file_step_def)
  next
    case (Copying txn)
    then show ?thesis
      using assms only_net_fields(10,11) by (auto simp: logs_ahead_def dest!: CopyTranlogReplica_only_net)
  next
    case (Finding t)
    then show ?thesis
      using assms logged_entries [of t f]
      by (auto simp: logs_ahead_def find_step_def logged_def entries_def split: option.splits)
  next
    case (Applying t valid recs nl cs)
    then show ?thesis
      using assms logs_ahead_apply [OF _ assms(3,4)] by auto
  next
    case (Marking t)
    then show ?thesis
      using assms entries_update_value [of "txn_log f" t "abort_rec t"]
      by (auto simp: logs_ahead_def mark_step_def abort_rec_def)
  qed (use assms append disk in \<open>auto simp: logs_ahead_def serving_step_def backup_step_def reply_step_def
      IFA_apply_fields store_cust_record_txn_eq log_content_def abort_rec_def split: prod.splits if_splits\<close>)
qed

definition unlogged_records :: "node \<Rightarrow> TxnLogRequest set" where
  "unlogged_records n = {r. \<exists>i < length (threads n). r \<in> set (unlogged (th_phase (threads n ! i)))}"

definition ahead :: "TxnLogRequest list \<Rightarrow> node \<Rightarrow> bool" where
  "ahead L n \<longleftrightarrow> log_content (files (factory n)) = log_text L
     \<and> entries (txn_log (factory n)) \<subseteq> set L \<union> unlogged_records n
     \<and> (\<forall>i < length (threads n). covered (set L \<union> unlogged_records n) (th_phase (threads n ! i))
          \<and> set (promised (th_phase (threads n ! i))) \<subseteq> set L)"

lemma ahead_idle: "node_inv f \<Longrightarrow> \<exists>L. ahead L (idle_node f)"
proof -
  assume inv: "node_inv f"
  then obtain L where L: "log_on_disk L f" by (auto simp: node_inv_def)
  have ok: "map_ok (txn_log f)" using inv by (simp add: node_inv_def rm_ready_def log_ok_def)
  have "r \<in> set (logged (fst kv) f)" if "kv \<in> set (txn_log f)" "r \<in> set (snd kv)" for kv r
    using that map_of_is_SomeI [OF map_ok_distinct [OF ok], of "fst kv" "snd kv"]
    by (simp add: logged_def map_find_map_of)
  then have "entries (txn_log f) \<subseteq> (\<Union>t. set (logged t f))" by (auto simp: entries_def)
  then show ?thesis
    using L by (intro exI [of _ L]) (auto simp: ahead_def idle_node_def log_on_disk_def)
qed

lemma ahead_thread:
  assumes "node_ok n" and "ahead L n" and "thread_event i n = Some (Inr n')"
  shows "\<exists>L'. ahead L' n'"
  using assms(3)
proof (cases rule: thread_eventE)
  case (1 p stub f)
  let ?q = "th_phase (threads n ! i)" and ?S = "set L \<union> unlogged_records n"
  let ?L = "L @ unlogged ?q"
  have inv: "log_content (files (factory n)) = log_text L" "entries (txn_log (factory n)) \<subseteq> ?S"
    "\<And>j. j < length (threads n) \<Longrightarrow> covered ?S (th_phase (threads n ! j))
       \<and> set (promised (th_phase (threads n ! j))) \<subseteq> set L"
    using assms(2) by (simp_all add: ahead_def)
  have step: "logs_ahead L ?S ?q p f"
    using phase_step_logs_ahead [OF _ 1(2) inv(1,2)] inv(3) [OF 1(1)] assms(1) by (simp add: node_ok_def)
  have phase: "th_phase (threads n' ! j) = (if j = i then p else forget (invalidates ?q (factory n)) (th_phase (threads n ! j)))"
    if "j < length (threads n)" for j
    using phase_after_step [OF that] by (simp add: 1(3))
  have same: "length (threads n') = length (threads n)" "factory n' = f" by (simp_all add: 1(3))
  have new: "set (unlogged p) \<subseteq> unlogged_records n'"
    using 1(1) phase [of i] by (auto simp: unlogged_records_def same)
  have others: "unlogged_records n \<subseteq> unlogged_records n' \<union> set (unlogged ?q)"
  proof
    fix r assume "r \<in> unlogged_records n"
    then obtain j where "j < length (threads n)" "r \<in> set (unlogged (th_phase (threads n ! j)))"
      by (auto simp: unlogged_records_def)
    then show "r \<in> unlogged_records n' \<union> set (unlogged ?q)"
      using phase [of j] by (cases "j = i") (auto simp: unlogged_records_def same)
  qed
  then have grows: "?S \<subseteq> set ?L \<union> unlogged_records n'" by auto
  have "covered (set ?L \<union> unlogged_records n') (th_phase (threads n' ! j))
      \<and> set (promised (th_phase (threads n' ! j))) \<subseteq> set ?L" if "j < length (threads n)" for j
    using phase [OF that] inv(3) [OF that] step covered_mono [OF _ grows]
    by (cases "j = i") (auto simp: logs_ahead_def)
  then have "ahead ?L n'"
    using step new grows by (auto simp: ahead_def same logs_ahead_def)
  then show ?thesis by blast
qed

lemma ahead_admin:
  assumes "node_ok n" and "log_room 1 (factory n)" and "ahead L n" and "admin_event n = Some (Inr n')"
  shows "ahead L n'"
  using assms(4)
proof (cases rule: admin_eventE)
  case (1 i rest req q laptop f)
  have "shared_ok ((factory n)\<lparr>arq := q\<rparr>)" "log_room 1 ((factory n)\<lparr>arq := q\<rparr>)"
    using assms(1,2) by (simp_all add: node_ok_def log_room_def)
  note f = shared_ok_round(2,3) [OF this 1(3)]
  have "i < length (threads n)" using assms(1) 1(1) by (auto simp: node_ok_def queue_ok_def)
  then have phase: "th_phase (threads n' ! j) = (if j = i then resume (th_phase (threads n ! i)) else th_phase (threads n ! j))"
    if "j < length (threads n)" for j
    using phase_after_answer [OF that] by (simp add: 1(4))
  have same: "length (threads n') = length (threads n)" "factory n' = f" by (simp_all add: 1(4))
  have "unlogged (th_phase (threads n' ! j)) = unlogged (th_phase (threads n ! j))"
    if "j < length (threads n)" for j using phase [OF that] by simp
  then have "unlogged_records n' = unlogged_records n" by (auto simp: unlogged_records_def same)
  then show ?thesis
    using assms(3) f phase by (auto simp: ahead_def same)
qed

lemma ahead_accept: "ahead L n \<Longrightarrow> ahead L (accept_event conn eng n)"
proof -
  assume a: "ahead L n"
  have "unlogged_records (accept_event conn eng n) = unlogged_records n"
    by (auto simp: unlogged_records_def accept_event_def nth_append less_Suc_eq)
  then show ?thesis
    using a by (auto simp: ahead_def accept_event_def nth_append less_Suc_eq)
qed

lemma ahead_concurrent: "concurrent f0 n \<Longrightarrow> node_inv f0 \<Longrightarrow> \<exists>L. ahead L n"
proof (induction rule: concurrent.induct)
  case idle
  then show ?case by (rule ahead_idle)
next
  case (event n e n')
  then obtain L where L: "ahead L n" by blast
  have ok: "node_ok n" using node_ok_concurrent event by blast
  show ?case
  proof (cases e)
    case (ThreadStep i)
    then show ?thesis using ahead_thread [OF ok L] event.hyps(3) by simp
  next
    case AdminStep
    then show ?thesis using ahead_admin [OF ok event.hyps(2) L] event.hyps(3) by auto
  next
    case (AcceptConn conn eng)
    then show ?thesis using ahead_accept [OF L] event.hyps(3) by auto
  qed
qed

section \<open>No reply before its records\<close>

text \<open>
  C3. Write-ahead logging under concurrency: in every reachable node, whatever the order of steps, the log
  file is a sequence of records that contains every record in memory that no thread is still about to append,
  and every record a thread is about to answer for: a thread that can send \<^verbatim>\<open>Ok\<close>, \<^verbatim>\<open>Done commit\<close> or
  \<^verbatim>\<open>Done abort\<close> has its records in the file. A node that crashes at that moment and restarts has them in
  its transaction log.
\<close>

theorem log_written_before_reply:
  assumes "concurrent f0 n" and "node_inv f0"
  shows "(\<exists>L. log_content (files (factory n)) = log_text L
        \<and> (\<forall>t. set (logged t (factory n)) \<subseteq> set L \<union> unlogged_records n)
        \<and> (\<forall>th \<in> set (threads n). set (promised (th_phase th)) \<subseteq> set L))
    \<and> (\<forall>th \<in> set (threads n). \<forall>r \<in> set (promised (th_phase th)).
          r \<in> set (logged (tl_txn_id r) (restart stub (factory n))))"
proof -
  obtain L where L: "ahead L n" using ahead_concurrent [OF assms] by blast
  have on_disk: "log_content (files (factory n)) = log_text L" using L by (simp add: ahead_def)
  have promised: "set (promised (th_phase th)) \<subseteq> set L" if "th \<in> set (threads n)" for th
    using that L by (auto simp: ahead_def in_set_conv_nth)
  moreover have "set (logged t (factory n)) \<subseteq> set L \<union> unlogged_records n" for t
    using L logged_entries [of t "factory n"] by (auto simp: ahead_def)
  ultimately show ?thesis
    using on_disk promised
    by (intro conjI exI [of _ L]) (auto simp: logged_recovered [OF on_disk] dest: promised)
qed

lemma log_written_before_reply_witness:
  "abort_rec 7 \<in> set (logged 7 (restart (\<lambda>i. demo_stub []) (aborted_state 7 demo_rm)))"
  using log_written_before_reply [OF concurrent_abort_due node_inv_demo, of "\<lambda>i. demo_stub []"]
  by (simp add: abort_due_def)

end
