(* ===== verification/Handoff.thy ===== *)
theory Handoff
  imports Interleavings
begin

text \<open>
  The hand-over of orders to the admin thread under its mutex: \<^verbatim>\<open>CreateRegularLaptop\<close> and \<^verbatim>\<open>AdminThread\<close> of
  \<^verbatim>\<open>ServerThread.cpp\<close>, one step for each operation on \<^verbatim>\<open>arq_lock\<close>, on \<^verbatim>\<open>arq_cv\<close>, on the queue and on a promise. In
  the other theories such a hand-over is two steps, placing the order and answering it; here the threads block on
  the mutex, sleep in the wait, are woken by the notification (or for no reason), and a round of the admin thread
  can hang on a peer that never answers. Main lemmas: the invariant of the two sides' program counters, a
  potential that bounds the length of every schedule, and that nobody is left waiting.
\<close>

section \<open>The two sides\<close>

text \<open>
  Where a call of \<^verbatim>\<open>CreateRegularLaptop\<close> is: before the lock, before the push, before the notification, before
  the unlock (the last three with the mutex), in \<^verbatim>\<open>fut.get()\<close>, returned.
\<close>

datatype call_pc = Asking | Pushing | Notifying | Unlocking | Waiting | Returned LaptopInfo

text \<open>
  Where the admin thread is: before the lock, before the test \<^verbatim>\<open>arq.empty()\<close>, before the predicate in the loop of
  \<^verbatim>\<open>wait\<close>, asleep, woken but without the mutex, before \<^verbatim>\<open>front\<close> and \<^verbatim>\<open>pop\<close>, before the unlock, in the round of
  a request, before \<^verbatim>\<open>set_value\<close>. The number says whose promise was moved into the request.
\<close>

datatype admin_pc =
    Locking
  | Testing
  | Guarding
  | Asleep
  | Woken
  | Taking
  | Releasing nat AdminRequest
  | Working nat AdminRequest
  | Fulfilling nat LaptopInfo

datatype holder = Nobody | Admin | Caller nat

text \<open>A call: its parameters, its place, and its promise.\<close>

record call =
  cl_order :: CustomerOrder
  cl_engineer :: cint
  cl_pc :: call_pc
  cl_promise :: "LaptopInfo option"

text \<open>\<open>promises\<close> are the calls whose promises are in the requests of \<^verbatim>\<open>arq\<close>, in the order of the queue.\<close>

record handoff =
  shared :: LaptopFactory
  promises :: "nat list"
  arq_lock :: holder
  admin_at :: admin_pc
  calls :: "call list"

text \<open>\<open>None\<close>: the thread is blocked, or has ended. \<^verbatim>\<open>notify_one\<close> is lost when nobody sleeps.\<close>

definition set_call :: "nat \<Rightarrow> call \<Rightarrow> handoff \<Rightarrow> handoff" where
  "set_call i c h = h\<lparr>calls := (calls h)[i := c]\<rparr>"

definition notify_one :: "handoff \<Rightarrow> handoff" where
  "notify_one h = (if admin_at h = Asleep then h\<lparr>admin_at := Woken\<rparr> else h)"

definition call_step :: "nat \<Rightarrow> handoff \<Rightarrow> handoff option" where
  "call_step i h =
     (if length (calls h) \<le> i then None
      else let c = calls h ! i in
        case cl_pc c of
          Asking \<Rightarrow>
            if arq_lock h = Nobody then Some (set_call i (c\<lparr>cl_pc := Pushing\<rparr>) (h\<lparr>arq_lock := Caller i\<rparr>)) else None
        | Pushing \<Rightarrow>
            Some (set_call i (c\<lparr>cl_pc := Notifying\<rparr>)
              (h\<lparr>shared := (shared h)\<lparr>arq := arq (shared h) @ [laptop_request (cl_order c) (cl_engineer c)]\<rparr>,
                 promises := promises h @ [i]\<rparr>))
        | Notifying \<Rightarrow> Some (set_call i (c\<lparr>cl_pc := Unlocking\<rparr>) (notify_one h))
        | Unlocking \<Rightarrow> Some (set_call i (c\<lparr>cl_pc := Waiting\<rparr>) (h\<lparr>arq_lock := Nobody\<rparr>))
        | Waiting \<Rightarrow> map_option (\<lambda>laptop. set_call i (c\<lparr>cl_pc := Returned laptop\<rparr>) h) (cl_promise c)
        | Returned laptop \<Rightarrow> None)"

text \<open>
  \<open>silent k\<close>: while operation \<open>k\<close> of the log is replicated, some peer keeps its connection open and does not
  answer, so a \<^verbatim>\<open>recv\<close> of the round does not return. Setting a promise twice throws.
\<close>

definition admin_step :: "(nat \<Rightarrow> bool) \<Rightarrow> handoff \<Rightarrow> (crash + handoff) option" where
  "admin_step silent h =
     (case admin_at h of
        Locking \<Rightarrow>
          if arq_lock h = Nobody then Some (Inr (h\<lparr>arq_lock := Admin, admin_at := Testing\<rparr>)) else None
      | Testing \<Rightarrow> Some (Inr (h\<lparr>admin_at := if arq (shared h) = [] then Guarding else Taking\<rparr>))
      | Guarding \<Rightarrow>
          Some (Inr (if arq (shared h) = [] then h\<lparr>arq_lock := Nobody, admin_at := Asleep\<rparr>
                     else h\<lparr>admin_at := Taking\<rparr>))
      | Asleep \<Rightarrow> None
      | Woken \<Rightarrow>
          if arq_lock h = Nobody then Some (Inr (h\<lparr>arq_lock := Admin, admin_at := Guarding\<rparr>)) else None
      | Taking \<Rightarrow>
          (case (arq (shared h), promises h) of
             (req # q, i # rest) \<Rightarrow>
               Some (Inr (h\<lparr>shared := (shared h)\<lparr>arq := q\<rparr>, promises := rest, admin_at := Releasing i req\<rparr>))
           | _ \<Rightarrow> Some (Inl Undefined))
      | Releasing i req \<Rightarrow> Some (Inr (h\<lparr>arq_lock := Nobody, admin_at := Working i req\<rparr>))
      | Working i req \<Rightarrow>
          if peer_range (shared h) \<noteq> [] \<and> silent (length (smr_log (shared h))) then None
          else Some (bindE (AdminThread_round (admin_id (shared h)) req (shared h)) (\<lambda>(laptop, f).
                 Inr (h\<lparr>shared := f, admin_at := Fulfilling i laptop\<rparr>)))
      | Fulfilling i laptop \<Rightarrow>
          if cl_promise (calls h ! i) \<noteq> None then Some (Inl Terminate)
          else Some (Inr (set_call i ((calls h ! i)\<lparr>cl_promise := Some laptop\<rparr>) (h\<lparr>admin_at := Locking\<rparr>))))"

text \<open>
  What other threads do in between to the state they share with the admin thread: anything that leaves the
  queue and the operation log as they are and the state well formed. (A replication session of a backup, which
  appends to the log, is not among it.)
\<close>

definition elsewhere_ok :: "LaptopFactory \<Rightarrow> LaptopFactory \<Rightarrow> bool" where
  "elsewhere_ok f g \<longleftrightarrow> arq g = arq f \<and> smr_log g = smr_log f \<and> admin_id g = admin_id f \<and> rm_ok g"

datatype handoff_event = CallStep nat | AdminThreadStep | SpuriousWakeup | Elsewhere LaptopFactory

fun handoff_step :: "(nat \<Rightarrow> bool) \<Rightarrow> handoff_event \<Rightarrow> handoff \<Rightarrow> (crash + handoff) option" where
  "handoff_step silent (CallStep i) h = map_option Inr (call_step i h)"
| "handoff_step silent AdminThreadStep h = admin_step silent h"
| "handoff_step silent SpuriousWakeup h =
     (if admin_at h = Asleep then Some (Inr (h\<lparr>admin_at := Woken\<rparr>)) else None)"
| "handoff_step silent (Elsewhere g) h =
     (if elsewhere_ok (shared h) g then Some (Inr (h\<lparr>shared := g\<rparr>)) else None)"

fun handoff_run :: "(nat \<Rightarrow> bool) \<Rightarrow> handoff_event list \<Rightarrow> handoff \<Rightarrow> (crash + handoff) option" where
  "handoff_run silent [] h = Some (Inr h)"
| "handoff_run silent (e # es) h =
     (case handoff_step silent e h of
        None \<Rightarrow> None
      | Some (Inl c) \<Rightarrow> Some (Inl c)
      | Some (Inr h') \<Rightarrow> handoff_run silent es h')"

text \<open>The calls with the given orders and engineers are about to be made, and the admin thread has just started.\<close>

definition handoff_start :: "(CustomerOrder \<times> cint) list \<Rightarrow> LaptopFactory \<Rightarrow> handoff" where
  "handoff_start orders f = \<lparr>shared = f, promises = [], arq_lock = Nobody, admin_at = Locking,
     calls = map (\<lambda>(order, eng). \<lparr>cl_order = order, cl_engineer = eng, cl_pc = Asking, cl_promise = None\<rparr>) orders\<rparr>"

section \<open>The invariant\<close>

fun call_locks :: "call_pc \<Rightarrow> bool" where
  "call_locks Pushing = True"
| "call_locks Notifying = True"
| "call_locks Unlocking = True"
| "call_locks pc = False"

fun admin_locks :: "admin_pc \<Rightarrow> bool" where
  "admin_locks Testing = True"
| "admin_locks Guarding = True"
| "admin_locks Taking = True"
| "admin_locks (Releasing i req) = True"
| "admin_locks pc = False"

text \<open>A call whose request has been pushed, and the call whose promise the admin thread has in hand.\<close>

fun pushed :: "call_pc \<Rightarrow> bool" where
  "pushed Asking = False"
| "pushed Pushing = False"
| "pushed pc = True"

fun in_hand :: "admin_pc \<Rightarrow> nat option" where
  "in_hand (Releasing i req) = Some i"
| "in_hand (Working i req) = Some i"
| "in_hand (Fulfilling i laptop) = Some i"
| "in_hand pc = None"

definition request_of :: "call \<Rightarrow> AdminRequest" where
  "request_of c = laptop_request (cl_order c) (cl_engineer c)"

definition answer_for :: "cint \<Rightarrow> call \<Rightarrow> LaptopInfo" where
  "answer_for aid c = laptop_for (cl_order c) (cl_engineer c) aid"

text \<open>
  Each call: it is between lock and unlock exactly if it has the mutex; once pushed, its promise is queued, in
  the admin thread's hand, or fulfilled with its own answer, and in only one of these places.
\<close>

definition call_ok :: "cint \<Rightarrow> handoff \<Rightarrow> nat \<Rightarrow> bool" where
  "call_ok aid h i \<longleftrightarrow> (let c = calls h ! i in
     (call_locks (cl_pc c) \<longleftrightarrow> arq_lock h = Caller i)
     \<and> (pushed (cl_pc c) \<longleftrightarrow> i \<in> set (promises h) \<or> in_hand (admin_at h) = Some i \<or> cl_promise c \<noteq> None)
     \<and> (i \<in> set (promises h) \<longrightarrow> in_hand (admin_at h) \<noteq> Some i)
     \<and> (cl_promise c \<noteq> None \<longrightarrow> i \<notin> set (promises h) \<and> in_hand (admin_at h) \<noteq> Some i
          \<and> cl_promise c = Some (answer_for aid c))
     \<and> (\<forall>l. cl_pc c = Returned l \<longrightarrow> cl_promise c = Some l))"

text \<open>
  The admin thread: it has the mutex exactly between lock and unlock, takes only from a queue that is not empty,
  and never sleeps over a request whose notification is not still to come.
\<close>

definition hand_ok :: "cint \<Rightarrow> handoff \<Rightarrow> bool" where
  "hand_ok aid h \<longleftrightarrow> (case admin_at h of
       Releasing i req \<Rightarrow> i < length (calls h) \<and> req = request_of (calls h ! i)
     | Working i req \<Rightarrow> i < length (calls h) \<and> req = request_of (calls h ! i)
     | Fulfilling i laptop \<Rightarrow> i < length (calls h) \<and> laptop = answer_for aid (calls h ! i)
     | _ \<Rightarrow> True)"

definition admin_ok :: "cint \<Rightarrow> handoff \<Rightarrow> bool" where
  "admin_ok aid h \<longleftrightarrow>
     (arq_lock h = Admin \<longleftrightarrow> admin_locks (admin_at h))
     \<and> (admin_at h = Taking \<longrightarrow> promises h \<noteq> [])
     \<and> (admin_at h = Asleep \<and> promises h \<noteq> [] \<longrightarrow> (\<exists>i < length (calls h). cl_pc (calls h ! i) = Notifying))
     \<and> hand_ok aid h"

text \<open>The queue holds the requests of the queued promises; the log has grown by the operations of the calls served.\<close>

definition served :: "handoff \<Rightarrow> nat \<Rightarrow> bool" where
  "served h i \<longleftrightarrow> cl_promise (calls h ! i) \<noteq> None \<or> (\<exists>laptop. admin_at h = Fulfilling i laptop)"

definition data_ok :: "LaptopFactory \<Rightarrow> handoff \<Rightarrow> bool" where
  "data_ok f h \<longleftrightarrow>
     rm_ok (shared h) \<and> admin_id (shared h) = admin_id f
     \<and> arq (shared h) = map (\<lambda>i. request_of (calls h ! i)) (promises h)
     \<and> distinct (promises h) \<and> set (promises h) \<subseteq> {..< length (calls h)}
     \<and> (\<forall>i. arq_lock h = Caller i \<longrightarrow> i < length (calls h))
     \<and> (\<exists>ks. distinct ks \<and> set ks = {i. i < length (calls h) \<and> served h i}
          \<and> smr_log (shared h) = smr_log f @ map (\<lambda>i. order_op (cl_order (calls h ! i))) ks)"

definition handoff_inv :: "LaptopFactory \<Rightarrow> handoff \<Rightarrow> bool" where
  "handoff_inv f h \<longleftrightarrow> (\<forall>i < length (calls h). call_ok (admin_id f) h i) \<and> admin_ok (admin_id f) h \<and> data_ok f h"

lemma handoff_inv_start:
  assumes "rm_ok f" and "arq f = []"
  shows "handoff_inv f (handoff_start orders f)"
proof -
  have "served (handoff_start orders f) i = False" if "i < length orders" for i
    using that by (simp add: served_def handoff_start_def split_beta)
  then have "data_ok f (handoff_start orders f)"
    using assms unfolding data_ok_def by (auto simp: handoff_start_def intro!: exI [of _ "[]"])
  then show ?thesis
    by (auto simp: handoff_inv_def call_ok_def admin_ok_def hand_ok_def handoff_start_def split_beta)
qed

lemma order_op_request: "request_op (laptop_request order eng) = order_op order"
  by (simp add: request_op_def laptop_request_def order_op_def)

text \<open>A step of a call.\<close>

lemma call_step_cases:
  assumes "call_step i h = Some h'"
  obtains "i < length (calls h)" "cl_pc (calls h ! i) = Asking" "arq_lock h = Nobody"
      "h' = set_call i ((calls h ! i)\<lparr>cl_pc := Pushing\<rparr>) (h\<lparr>arq_lock := Caller i\<rparr>)"
  | "i < length (calls h)" "cl_pc (calls h ! i) = Pushing"
      "h' = set_call i ((calls h ! i)\<lparr>cl_pc := Notifying\<rparr>)
         (h\<lparr>shared := (shared h)\<lparr>arq := arq (shared h) @ [request_of (calls h ! i)]\<rparr>, promises := promises h @ [i]\<rparr>)"
  | "i < length (calls h)" "cl_pc (calls h ! i) = Notifying"
      "h' = set_call i ((calls h ! i)\<lparr>cl_pc := Unlocking\<rparr>) (notify_one h)"
  | "i < length (calls h)" "cl_pc (calls h ! i) = Unlocking"
      "h' = set_call i ((calls h ! i)\<lparr>cl_pc := Waiting\<rparr>) (h\<lparr>arq_lock := Nobody\<rparr>)"
  | laptop where "i < length (calls h)" "cl_pc (calls h ! i) = Waiting" "cl_promise (calls h ! i) = Some laptop"
      "h' = set_call i ((calls h ! i)\<lparr>cl_pc := Returned laptop\<rparr>) h"
  using assms by (auto simp: call_step_def request_of_def Let_def split: if_splits call_pc.splits)

text \<open>What the invariant says of a call does not depend on its place.\<close>

lemma request_of_pc [simp]: "request_of (c\<lparr>cl_pc := pc\<rparr>) = request_of c" "answer_for aid (c\<lparr>cl_pc := pc\<rparr>) = answer_for aid c"
  "request_of (c\<lparr>cl_promise := p\<rparr>) = request_of c" "answer_for aid (c\<lparr>cl_promise := p\<rparr>) = answer_for aid c"
  by (simp_all add: request_of_def answer_for_def)

lemma set_call_simps [simp]:
  "shared (set_call i c h) = shared h" "promises (set_call i c h) = promises h"
  "arq_lock (set_call i c h) = arq_lock h" "admin_at (set_call i c h) = admin_at h"
  "calls (set_call i c h) = (calls h)[i := c]"
  by (simp_all add: set_call_def)

lemma notify_one_simps [simp]:
  "shared (notify_one h) = shared h" "promises (notify_one h) = promises h"
  "arq_lock (notify_one h) = arq_lock h" "calls (notify_one h) = calls h"
  "admin_at (notify_one h) = (if admin_at h = Asleep then Woken else admin_at h)"
  by (simp_all add: notify_one_def)

lemma nth_update_keep: "g c = g (xs ! i) \<Longrightarrow> g (xs[i := c] ! j) = g (xs ! j)"
  by (cases "i < length xs"; cases "j = i") (simp_all add: list_update_beyond)

lemma data_ok_pc [simp]: "data_ok f (set_call i ((calls h ! i)\<lparr>cl_pc := pc\<rparr>) h) = data_ok f h"
proof -
  let ?c = "(calls h ! i)\<lparr>cl_pc := pc\<rparr>"
  have "request_of ((calls h)[i := ?c] ! j) = request_of (calls h ! j)"
    "cl_order ((calls h)[i := ?c] ! j) = cl_order (calls h ! j)"
    "cl_promise ((calls h)[i := ?c] ! j) = cl_promise (calls h ! j)" for j
    by (rule nth_update_keep; simp)+
  then show ?thesis by (simp add: data_ok_def served_def)
qed

lemma call_step_data:
  assumes "data_ok f h" and "admin_ok aid h" and "call_ok aid h i" and "call_step i h = Some h'"
  shows "data_ok f h'"
  using assms(4)
proof (cases rule: call_step_cases)
  case 1
  have "data_ok f (h\<lparr>arq_lock := Caller i\<rparr>)" using assms(1) 1(1) by (simp add: data_ok_def served_def)
  then show ?thesis using data_ok_pc [of f i _ "h\<lparr>arq_lock := Caller i\<rparr>"] by (simp add: 1(4))
next
  case 2
  let ?h = "h\<lparr>shared := (shared h)\<lparr>arq := arq (shared h) @ [request_of (calls h ! i)]\<rparr>, promises := promises h @ [i]\<rparr>"
  have "i \<notin> set (promises h)" using assms(3) 2(2) by (simp add: call_ok_def Let_def)
  then have "data_ok f ?h" using assms(1) 2(1) by (simp add: data_ok_def served_def)
  then show ?thesis using data_ok_pc [of f i _ ?h] by (simp add: 2(3))
next
  case 3
  have "served (notify_one h) = served h" by (intro ext) (simp add: served_def)
  then have "data_ok f (notify_one h)" using assms(1) by (simp add: data_ok_def)
  then show ?thesis using data_ok_pc [of f i _ "notify_one h"] by (simp add: 3(3))
next
  case 4
  have "data_ok f (h\<lparr>arq_lock := Nobody\<rparr>)" using assms(1) by (simp add: data_ok_def served_def)
  then show ?thesis using data_ok_pc [of f i _ "h\<lparr>arq_lock := Nobody\<rparr>"] by (simp add: 4(3))
next
  case (5 laptop)
  then show ?thesis using assms(1) by simp
qed

lemma hand_ok_pc [simp]: "hand_ok aid (set_call i ((calls h ! i)\<lparr>cl_pc := pc\<rparr>) h) = hand_ok aid h"
proof -
  let ?c = "(calls h ! i)\<lparr>cl_pc := pc\<rparr>"
  have "request_of ((calls h)[i := ?c] ! j) = request_of (calls h ! j)"
    "answer_for aid ((calls h)[i := ?c] ! j) = answer_for aid (calls h ! j)" for j
    by (rule nth_update_keep; simp)+
  then show ?thesis by (simp add: hand_ok_def split: admin_pc.split)
qed

lemma hand_ok_fields [simp]:
  "hand_ok aid (h\<lparr>arq_lock := l\<rparr>) = hand_ok aid h" "hand_ok aid (h\<lparr>shared := s\<rparr>) = hand_ok aid h"
  "hand_ok aid (h\<lparr>promises := ps\<rparr>) = hand_ok aid h" "hand_ok aid (notify_one h) = hand_ok aid h"
  by (simp_all add: hand_ok_def split: admin_pc.split)

lemma call_step_hand:
  assumes "hand_ok aid h" and "call_step i h = Some h'"
  shows "hand_ok aid h'"
  using assms(2)
proof (cases rule: call_step_cases)
  case 1
  then show ?thesis using assms(1) hand_ok_pc [of aid i _ "h\<lparr>arq_lock := Caller i\<rparr>"] by simp
next
  case 2
  let ?h = "h\<lparr>shared := (shared h)\<lparr>arq := arq (shared h) @ [request_of (calls h ! i)]\<rparr>, promises := promises h @ [i]\<rparr>"
  show ?thesis using assms(1) hand_ok_pc [of aid i _ ?h] by (simp add: 2(3))
next
  case 3
  then show ?thesis using assms(1) hand_ok_pc [of aid i _ "notify_one h"] by simp
next
  case 4
  then show ?thesis using assms(1) hand_ok_pc [of aid i _ "h\<lparr>arq_lock := Nobody\<rparr>"] by simp
next
  case (5 laptop)
  then show ?thesis using assms(1) by simp
qed

text \<open>Who is at the notification has the mutex.\<close>

lemma notifying_locks:
  "\<forall>j < length (calls h). call_ok aid h j \<Longrightarrow> j < length (calls h) \<Longrightarrow> cl_pc (calls h ! j) = Notifying \<Longrightarrow>
   arq_lock h = Caller j"
  by (auto simp: call_ok_def Let_def)

definition wake_ok :: "handoff \<Rightarrow> bool" where
  "wake_ok h \<longleftrightarrow> (admin_at h = Asleep \<and> promises h \<noteq> [] \<longrightarrow> (\<exists>i < length (calls h). cl_pc (calls h ! i) = Notifying))"

lemma call_step_wake:
  assumes "wake_ok h" and "\<forall>j < length (calls h). call_ok aid h j" and "call_step i h = Some h'"
  shows "wake_ok h'"
  using assms(3)
proof (cases rule: call_step_cases)
  case 1
  have "\<not> (\<exists>j < length (calls h). cl_pc (calls h ! j) = Notifying)"
    using notifying_locks [OF assms(2)] 1(3) by fastforce
  then show ?thesis using assms(1) by (auto simp: wake_ok_def 1(4))
next
  case 2
  then show ?thesis unfolding wake_ok_def by (intro impI exI [of _ i]) simp
next
  case 3
  then show ?thesis by (simp add: wake_ok_def)
next
  case 4
  have "call_ok aid h i" using assms(2) 4(1) by simp
  then have "arq_lock h = Caller i" using 4(2) by (simp add: call_ok_def Let_def)
  then have "\<not> (\<exists>j < length (calls h). cl_pc (calls h ! j) = Notifying)"
    using notifying_locks [OF assms(2)] 4(2) by fastforce
  then show ?thesis using assms(1) by (auto simp: wake_ok_def 4(3))
next
  case (5 laptop)
  have "\<exists>j < length (calls h). cl_pc ((calls h)[i := c] ! j) = Notifying"
    if "j < length (calls h)" "cl_pc (calls h ! j) = Notifying" for j c
    using that 5(2) by (intro exI [of _ j]) (cases "j = i", simp_all)
  then show ?thesis using assms(1) by (auto simp: wake_ok_def 5(4))
qed

lemma call_step_admin:
  assumes "admin_ok aid h" and "\<forall>j < length (calls h). call_ok aid h j" and "call_step i h = Some h'"
  shows "admin_ok aid h'"
proof -
  have ok: "arq_lock h = Admin \<longleftrightarrow> admin_locks (admin_at h)" "admin_at h = Taking \<longrightarrow> promises h \<noteq> []"
    "wake_ok h" "hand_ok aid h"
    using assms(1) by (simp_all add: admin_ok_def wake_ok_def)
  have "wake_ok h'" "hand_ok aid h'"
    using call_step_wake [OF ok(3) assms(2,3)] call_step_hand [OF ok(4) assms(3)] by simp_all
  moreover have "(arq_lock h' = Admin \<longleftrightarrow> admin_locks (admin_at h')) \<and> (admin_at h' = Taking \<longrightarrow> promises h' \<noteq> [])"
    using assms(3)
  proof (cases rule: call_step_cases)
    case 4
    have "call_ok aid h i" using assms(2) 4(1) by simp
    then have "arq_lock h = Caller i" using 4(2) by (simp add: call_ok_def Let_def)
    then show ?thesis using ok(1,2) by (simp add: 4(3))
  qed (use ok(1,2) in simp_all)
  ultimately show ?thesis by (simp add: admin_ok_def wake_ok_def)
qed

lemma call_step_calls:
  assumes "admin_ok aid h" and "\<forall>j < length (calls h). call_ok aid h j" and "call_step i h = Some h'"
    and "j < length (calls h)"
  shows "call_ok aid h' j"
proof -
  have j: "call_ok aid h j" using assms(2,4) by simp
  have i: "call_ok aid h i" if "i < length (calls h)" using assms(2) that by simp
  show ?thesis
    using assms(3)
  proof (cases rule: call_step_cases)
    case 1
    then show ?thesis using j i assms(4) by (cases "j = i") (auto simp: call_ok_def Let_def)
  next
    case 2
    then show ?thesis using j i assms(4) by (cases "j = i") (auto simp: call_ok_def Let_def)
  next
    case 3
    then show ?thesis using j i assms(4) by (cases "j = i") (auto simp: call_ok_def Let_def)
  next
    case 4
    then show ?thesis using j i assms(4) by (cases "j = i") (auto simp: call_ok_def Let_def)
  next
    case (5 laptop)
    then show ?thesis using j i assms(4) by (cases "j = i") (auto simp: call_ok_def Let_def)
  qed
qed

lemma call_step_length: "call_step i h = Some h' \<Longrightarrow> length (calls h') = length (calls h)"
  by (elim call_step_cases) simp_all

lemma call_step_inv: "handoff_inv f h \<Longrightarrow> call_step i h = Some h' \<Longrightarrow> handoff_inv f h'"
  using call_step_data [of f h "admin_id f" i h'] call_step_admin [of "admin_id f" h i h']
    call_step_calls [of "admin_id f" h i h'] call_step_length [of i h h']
  by (auto simp: handoff_inv_def elim: call_step_cases)

text \<open>A step of the admin thread; with the invariant it does not fail.\<close>

lemma admin_step_cases:
  assumes "admin_step silent h = Some r" and "handoff_inv f h" and "log_room (length (calls h)) f"
  obtains "admin_at h = Locking" "arq_lock h = Nobody" "r = Inr (h\<lparr>arq_lock := Admin, admin_at := Testing\<rparr>)"
  | "admin_at h = Testing" "r = Inr (h\<lparr>admin_at := if promises h = [] then Guarding else Taking\<rparr>)"
  | "admin_at h = Guarding" "promises h = []" "r = Inr (h\<lparr>arq_lock := Nobody, admin_at := Asleep\<rparr>)"
  | "admin_at h = Guarding" "promises h \<noteq> []" "r = Inr (h\<lparr>admin_at := Taking\<rparr>)"
  | "admin_at h = Woken" "arq_lock h = Nobody" "r = Inr (h\<lparr>arq_lock := Admin, admin_at := Guarding\<rparr>)"
  | i rest where "admin_at h = Taking" "promises h = i # rest"
      "r = Inr (h\<lparr>shared := (shared h)\<lparr>arq := map (\<lambda>i. request_of (calls h ! i)) rest\<rparr>, promises := rest,
         admin_at := Releasing i (request_of (calls h ! i))\<rparr>)"
  | i req where "admin_at h = Releasing i req" "r = Inr (h\<lparr>arq_lock := Nobody, admin_at := Working i req\<rparr>)"
  | i t where "admin_at h = Working i (request_of (calls h ! i))" "i < length (calls h)"
      "smr_log t = smr_log (shared h) @ [order_op (cl_order (calls h ! i))]"
      "arq t = arq (shared h)" "admin_id t = admin_id f" "log_room 1 (shared h) \<longrightarrow> rm_ok t"
      "r = Inr (h\<lparr>shared := t, admin_at := Fulfilling i (answer_for (admin_id f) (calls h ! i))\<rparr>)"
  | i where "admin_at h = Fulfilling i (answer_for (admin_id f) (calls h ! i))" "i < length (calls h)"
      "cl_promise (calls h ! i) = None"
      "r = Inr (set_call i ((calls h ! i)\<lparr>cl_promise := Some (answer_for (admin_id f) (calls h ! i))\<rparr>)
         (h\<lparr>admin_at := Locking\<rparr>))"
proof -
  have inv: "\<forall>i < length (calls h). call_ok (admin_id f) h i" "admin_ok (admin_id f) h" "data_ok f h"
    using assms(2) by (simp_all add: handoff_inv_def)
  have queue: "arq (shared h) = map (\<lambda>i. request_of (calls h ! i)) (promises h)"
    "rm_ok (shared h)" "admin_id (shared h) = admin_id f"
    using inv(3) by (simp_all add: data_ok_def)
  have hand: "hand_ok (admin_id f) h" "admin_at h = Taking \<longrightarrow> promises h \<noteq> []"
    using inv(2) by (simp_all add: admin_ok_def)
  show ?thesis
  proof (cases "admin_at h")
    case Taking
    then obtain i rest where "promises h = i # rest" using hand(2) by (cases "promises h") auto
    then show ?thesis using that(6) assms(1) Taking queue(1) by (simp add: admin_step_def)
  next
    case (Working i req)
    have i: "i < length (calls h)" "req = request_of (calls h ! i)" using hand(1) Working by (simp_all add: hand_ok_def)
    obtain t where t: "AdminThread_round (admin_id f) req (shared h) = Inr (SetAdminId (admin_id f) (ar_laptop req), t)"
      "only_net (apply_locally (request_op req) (primary_form (shared h))) t"
      using AdminThread_round_eq [OF queue(2)] by blast
    have l: "SetAdminId (admin_id f) (ar_laptop req) = answer_for (admin_id f) (calls h ! i)"
      by (simp add: i(2) request_of_def answer_for_def laptop_request_def laptop_for_def)
    have "log_room 1 (shared h) \<longrightarrow> rm_ok t" using AdminThread_round_rm_ok [OF queue(2) _ t(1)] by blast
    moreover have "smr_log t = smr_log (shared h) @ [order_op (cl_order (calls h ! i))]"
      "arq t = arq (shared h)" "admin_id t = admin_id f"
      by (simp_all add: only_net_fields [OF t(2)] queue(3) i(2) request_of_def order_op_request)
    moreover have "r = Inr (h\<lparr>shared := t, admin_at := Fulfilling i (answer_for (admin_id f) (calls h ! i))\<rparr>)"
      using assms(1) Working by (auto simp: admin_step_def t(1) queue(3) l split: if_splits)
    ultimately show ?thesis using that(8) Working i by blast
  next
    case (Fulfilling i laptop)
    have i: "i < length (calls h)" "laptop = answer_for (admin_id f) (calls h ! i)"
      using hand(1) Fulfilling by (simp_all add: hand_ok_def)
    then have "cl_promise (calls h ! i) = None"
      using inv(1) Fulfilling by (cases "cl_promise (calls h ! i)") (auto simp: call_ok_def Let_def)
    then show ?thesis using that(9) assms(1) Fulfilling i by (simp add: admin_step_def)
  qed (use assms(1) queue(1) that in \<open>auto simp: admin_step_def split: if_splits\<close>)
qed

lemma served_count:
  assumes "data_ok f h" and "i < length (calls h)" and "\<not> served h i" and "log_room (length (calls h)) f"
  shows "log_room 1 (shared h)"
proof -
  obtain ks where ks: "distinct ks" "set ks = {i. i < length (calls h) \<and> served h i}"
    "smr_log (shared h) = smr_log f @ map (\<lambda>i. order_op (cl_order (calls h ! i))) ks"
    using assms(1) by (auto simp: data_ok_def)
  have "set ks \<subseteq> {..< length (calls h)} - {i}" using ks(2) assms(3) by auto
  then have "length ks \<le> card ({..< length (calls h)} - {i})"
    using distinct_card [OF ks(1)] card_mono [of "{..< length (calls h)} - {i}" "set ks"] by simp
  then have "length ks + 1 \<le> length (calls h)" using assms(2) by simp
  then show ?thesis using assms(4) ks(3) by (simp add: log_room_def)
qed

text \<open>The data under a step of the admin thread that leaves the log as it is and serves nobody.\<close>

lemma data_ok_admin:
  assumes "data_ok f h" and "served (h\<lparr>admin_at := a\<rparr>) = served h"
  shows "data_ok f (h\<lparr>admin_at := a\<rparr>)"
  using assms(1) unfolding data_ok_def assms(2) by simp

lemma data_ok_unlock: "data_ok f h \<Longrightarrow> (\<forall>i. l \<noteq> Caller i) \<Longrightarrow> data_ok f (h\<lparr>arq_lock := l\<rparr>)"
  by (simp add: data_ok_def served_def)

lemma data_ok_lock_admin:
  assumes "data_ok f h" and "\<forall>i. l \<noteq> Caller i" and "served (h\<lparr>admin_at := a\<rparr>) = served h"
  shows "data_ok f (h\<lparr>arq_lock := l, admin_at := a\<rparr>)"
proof -
  have "served (h\<lparr>arq_lock := l, admin_at := a\<rparr>) = served (h\<lparr>arq_lock := l\<rparr>)"
    using assms(3) by (simp add: served_def fun_eq_iff)
  then show ?thesis using data_ok_admin [OF data_ok_unlock [OF assms(1,2)]] by simp
qed

lemma served_idle:
  "(\<forall>j laptop. admin_at h \<noteq> Fulfilling j laptop) \<Longrightarrow> (\<forall>j laptop. a \<noteq> Fulfilling j laptop) \<Longrightarrow>
   served (h\<lparr>admin_at := a\<rparr>) = served h"
  by (simp add: served_def fun_eq_iff)

lemma admin_step_data:
  assumes "admin_step silent h = Some (Inr h')" and "handoff_inv f h" and "log_room (length (calls h)) f"
  shows "data_ok f h'"
proof -
  have inv: "\<forall>i < length (calls h). call_ok (admin_id f) h i" "data_ok f h"
    using assms(2) by (simp_all add: handoff_inv_def)
  note keep = data_ok_admin [OF inv(2) served_idle] data_ok_lock_admin [OF inv(2) _ served_idle]
  show ?thesis
    using assms
  proof (cases rule: admin_step_cases)
    case (6 i rest)
    let ?h = "h\<lparr>shared := (shared h)\<lparr>arq := map (\<lambda>i. request_of (calls h ! i)) rest\<rparr>, promises := rest\<rparr>"
    have "data_ok f ?h" using inv(2) 6(2) by (simp add: data_ok_def served_def)
    then have "data_ok f (?h\<lparr>admin_at := Releasing i (request_of (calls h ! i))\<rparr>)"
      using 6(1) by (intro data_ok_admin served_idle) simp_all
    then show ?thesis using 6(3) by simp
  next
    case (8 i t)
    have fresh: "\<not> served h i"
      using inv(1) [rule_format, OF 8(2)] 8(1) by (auto simp: served_def call_ok_def Let_def)
    obtain ks where ks: "distinct ks" "set ks = {i. i < length (calls h) \<and> served h i}"
      "smr_log (shared h) = smr_log f @ map (\<lambda>i. order_op (cl_order (calls h ! i))) ks"
      using inv(2) by (auto simp: data_ok_def)
    have now: "served h' j \<longleftrightarrow> served h j \<or> j = i" for j
      using 8(1,7) by (auto simp: served_def)
    have "distinct (ks @ [i]) \<and> set (ks @ [i]) = {j. j < length (calls h) \<and> served h' j}
        \<and> smr_log t = smr_log f @ map (\<lambda>j. order_op (cl_order (calls h ! j))) (ks @ [i])"
      using ks 8(2,3) fresh by (auto simp: now)
    moreover have "rm_ok t" using served_count [OF inv(2) 8(2) fresh assms(3)] 8(6) by simp
    moreover have "arq t = map (\<lambda>i. request_of (calls h ! i)) (promises h)" "admin_id t = admin_id f"
      using inv(2) 8(4,5) by (simp_all add: data_ok_def)
    moreover have "shared h' = t" "promises h' = promises h" "arq_lock h' = arq_lock h" "calls h' = calls h"
      using 8(7) by simp_all
    moreover have "distinct (promises h)" "set (promises h) \<subseteq> {..< length (calls h)}"
      "\<forall>i. arq_lock h = Caller i \<longrightarrow> i < length (calls h)"
      using inv(2) by (simp_all add: data_ok_def)
    ultimately show ?thesis
      unfolding data_ok_def by (intro conjI exI [of _ "ks @ [i]"]) simp_all
  next
    case (9 i)
    let ?c = "(calls h ! i)\<lparr>cl_promise := Some (answer_for (admin_id f) (calls h ! i))\<rparr>"
    have same: "request_of ((calls h)[i := ?c] ! j) = request_of (calls h ! j)"
      "cl_order ((calls h)[i := ?c] ! j) = cl_order (calls h ! j)" for j
      by (rule nth_update_keep; simp)+
    have "served h' j \<longleftrightarrow> served h j" if "j < length (calls h)" for j
      using 9(1,2,4) by (cases "j = i") (auto simp: served_def)
    then have "{j. j < length (calls h) \<and> served h' j} = {j. j < length (calls h) \<and> served h j}" by blast
    then show ?thesis using inv(2) 9(4) by (simp add: data_ok_def same)
  qed (use keep in simp_all)
qed

lemma admin_step_length: "admin_step silent h = Some (Inr h') \<Longrightarrow> length (calls h') = length (calls h)"
  by (auto simp: admin_step_def split: admin_pc.splits list.splits if_splits)

lemma admin_step_calls:
  assumes "admin_step silent h = Some (Inr h')" and "handoff_inv f h" and "log_room (length (calls h)) f"
    and "j < length (calls h)"
  shows "call_ok (admin_id f) h' j"
proof -
  have j: "call_ok (admin_id f) h j" using assms(2,4) by (simp add: handoff_inv_def)
  have lock: "arq_lock h = Admin \<longleftrightarrow> admin_locks (admin_at h)" and dist: "distinct (promises h)"
    using assms(2) by (simp_all add: handoff_inv_def admin_ok_def data_ok_def)
  show ?thesis
    using assms(1-3)
  proof (cases rule: admin_step_cases)
    case 1
    then show ?thesis using j by (auto simp: call_ok_def Let_def)
  next
    case 2
    then show ?thesis using j by (auto simp: call_ok_def Let_def)
  next
    case 3
    then show ?thesis using j lock by (auto simp: call_ok_def Let_def)
  next
    case 4
    then show ?thesis using j by (auto simp: call_ok_def Let_def)
  next
    case 5
    then show ?thesis using j by (auto simp: call_ok_def Let_def)
  next
    case (6 i rest)
    then show ?thesis using j dist by (auto simp: call_ok_def Let_def)
  next
    case (7 i req)
    then show ?thesis using j lock by (auto simp: call_ok_def Let_def)
  next
    case (8 i t)
    then show ?thesis using j by (auto simp: call_ok_def Let_def)
  next
    case (9 i)
    then show ?thesis using j assms(4) by (cases "j = i") (auto simp: call_ok_def Let_def)
  qed
qed

lemma admin_step_admin:
  assumes "admin_step silent h = Some (Inr h')" and "handoff_inv f h" and "log_room (length (calls h)) f"
  shows "admin_ok (admin_id f) h'"
proof -
  have lock: "arq_lock h = Admin \<longleftrightarrow> admin_locks (admin_at h)" and hand: "hand_ok (admin_id f) h"
    and sub: "set (promises h) \<subseteq> {..< length (calls h)}"
    using assms(2) by (simp_all add: handoff_inv_def admin_ok_def data_ok_def)
  show ?thesis
    using assms
  proof (cases rule: admin_step_cases)
    case 1
    then show ?thesis by (simp add: admin_ok_def hand_ok_def)
  next
    case 2
    then show ?thesis using lock by (simp add: admin_ok_def hand_ok_def)
  next
    case 3
    then show ?thesis by (simp add: admin_ok_def hand_ok_def)
  next
    case 4
    then show ?thesis using lock by (simp add: admin_ok_def hand_ok_def)
  next
    case 5
    then show ?thesis by (simp add: admin_ok_def hand_ok_def)
  next
    case (6 i rest)
    then show ?thesis using lock sub by (simp add: admin_ok_def hand_ok_def)
  next
    case (7 i req)
    then show ?thesis using hand by (simp add: admin_ok_def hand_ok_def)
  next
    case (8 i t)
    then show ?thesis using lock by (simp add: admin_ok_def hand_ok_def)
  next
    case (9 i)
    then show ?thesis using lock by (simp add: admin_ok_def hand_ok_def)
  qed
qed

lemma admin_step_inv:
  assumes "admin_step silent h = Some r" and "handoff_inv f h" and "log_room (length (calls h)) f"
  obtains h' where "r = Inr h'" "handoff_inv f h'"
proof -
  obtain h' where h': "r = Inr h'" by (rule admin_step_cases [OF assms]) auto
  then have step: "admin_step silent h = Some (Inr h')" using assms(1) by simp
  then show ?thesis
    using that h' admin_step_data [OF step assms(2,3)] admin_step_admin [OF step assms(2,3)]
      admin_step_calls [OF step assms(2,3)] admin_step_length [OF step]
    by (auto simp: handoff_inv_def)
qed

text \<open>The other two kinds of step.\<close>

lemma spurious_inv:
  assumes "handoff_inv f h" and "admin_at h = Asleep"
  shows "handoff_inv f (h\<lparr>admin_at := Woken\<rparr>)"
proof -
  have "data_ok f (h\<lparr>admin_at := Woken\<rparr>)"
    using assms by (intro data_ok_admin served_idle) (simp_all add: handoff_inv_def)
  then show ?thesis
    using assms by (auto simp: handoff_inv_def call_ok_def admin_ok_def hand_ok_def Let_def)
qed

lemma elsewhere_inv:
  assumes "handoff_inv f h" and "elsewhere_ok (shared h) g"
  shows "handoff_inv f (h\<lparr>shared := g\<rparr>)"
proof -
  have "call_ok (admin_id f) (h\<lparr>shared := g\<rparr>) i = call_ok (admin_id f) h i" for i
    by (simp add: call_ok_def)
  moreover have "admin_ok (admin_id f) (h\<lparr>shared := g\<rparr>) = admin_ok (admin_id f) h"
    by (simp add: admin_ok_def)
  moreover have "data_ok f (h\<lparr>shared := g\<rparr>)"
    using assms by (simp add: handoff_inv_def data_ok_def elsewhere_ok_def served_def)
  ultimately show ?thesis using assms(1) by (simp add: handoff_inv_def)
qed

lemma handoff_step_inv:
  assumes "handoff_step silent e h = Some r" and "handoff_inv f h" and "log_room (length (calls h)) f"
  obtains h' where "r = Inr h'" "handoff_inv f h'" "length (calls h') = length (calls h)"
proof (cases e)
  case (CallStep i)
  then obtain h' where "r = Inr h'" "call_step i h = Some h'" using assms(1) by auto
  then show ?thesis using that call_step_inv [OF assms(2)] call_step_length by blast
next
  case AdminThreadStep
  then have step: "admin_step silent h = Some r" using assms(1) by simp
  obtain h' where "r = Inr h'" "handoff_inv f h'" using admin_step_inv [OF step assms(2,3)] by blast
  then show ?thesis using that step admin_step_length by blast
next
  case SpuriousWakeup
  then show ?thesis using that assms(1) spurious_inv [OF assms(2)] by (auto split: if_splits)
next
  case (Elsewhere g)
  then show ?thesis using that assms(1) elsewhere_inv [OF assms(2)] by (auto split: if_splits)
qed

section \<open>How long a schedule can be\<close>

text \<open>What a call, a queued request and the admin thread can still do, in steps.\<close>

fun call_steps :: "call_pc \<Rightarrow> nat" where
  "call_steps Asking = 14"
| "call_steps Pushing = 13"
| "call_steps Notifying = 5"
| "call_steps Unlocking = 2"
| "call_steps Waiting = 1"
| "call_steps (Returned laptop) = 0"

fun admin_steps :: "admin_pc \<Rightarrow> nat" where
  "admin_steps Locking = 3"
| "admin_steps Testing = 2"
| "admin_steps Guarding = 1"
| "admin_steps Asleep = 0"
| "admin_steps Woken = 2"
| "admin_steps Taking = 0"
| "admin_steps (Releasing i req) = 6"
| "admin_steps (Working i req) = 5"
| "admin_steps (Fulfilling i laptop) = 4"

definition steps_left :: "handoff \<Rightarrow> nat" where
  "steps_left h = (\<Sum>c \<leftarrow> calls h. call_steps (cl_pc c)) + 7 * length (promises h) + admin_steps (admin_at h)"

fun extra_steps :: "handoff_event \<Rightarrow> nat" where
  "extra_steps SpuriousWakeup = 3"
| "extra_steps (Elsewhere g) = 1"
| "extra_steps e = 0"

lemma sum_calls_update:
  assumes "i < length cs"
  shows "(\<Sum>c \<leftarrow> cs[i := c']. g c) + g (cs ! i) = (\<Sum>c \<leftarrow> cs. g c) + (g c' :: nat)"
  using assms by (induction cs arbitrary: i) (auto split: nat.split)

lemma steps_set_pc:
  assumes "i < length (calls h)"
  shows "steps_left (set_call i ((calls h ! i)\<lparr>cl_pc := pc\<rparr>) h) + call_steps (cl_pc (calls h ! i)) = steps_left h + call_steps pc"
  using sum_calls_update [OF assms, of "\<lambda>c. call_steps (cl_pc c)" "(calls h ! i)\<lparr>cl_pc := pc\<rparr>"]
  by (simp add: steps_left_def)

lemma call_step_steps:
  assumes "call_step i h = Some h'"
  shows "steps_left h' < steps_left h"
  using assms
proof (cases rule: call_step_cases)
  case 1
  let ?h = "h\<lparr>arq_lock := Caller i\<rparr>"
  have "steps_left ?h = steps_left h" by (simp add: steps_left_def)
  then show ?thesis using steps_set_pc [of i ?h Pushing] 1(1,2) by (simp add: 1(4))
next
  case 2
  let ?h = "h\<lparr>shared := (shared h)\<lparr>arq := arq (shared h) @ [request_of (calls h ! i)]\<rparr>, promises := promises h @ [i]\<rparr>"
  have "steps_left ?h = steps_left h + 7" by (simp add: steps_left_def)
  then show ?thesis using steps_set_pc [of i ?h Notifying] 2(1,2) by (simp add: 2(3))
next
  case 3
  have "steps_left (notify_one h) \<le> steps_left h + 2" by (simp add: steps_left_def)
  then show ?thesis using steps_set_pc [of i "notify_one h" Unlocking] 3(1,2) by (simp add: 3(3))
next
  case 4
  let ?h = "h\<lparr>arq_lock := Nobody\<rparr>"
  have "steps_left ?h = steps_left h" by (simp add: steps_left_def)
  then show ?thesis using steps_set_pc [of i ?h Waiting] 4(1,2) by (simp add: 4(3))
next
  case (5 laptop)
  then show ?thesis using steps_set_pc [of i h "Returned laptop"] by simp
qed

lemma steps_promise [simp]: "steps_left (set_call i ((calls h ! i)\<lparr>cl_promise := p\<rparr>) h) = steps_left h"
proof -
  have "map (\<lambda>c. call_steps (cl_pc c)) ((calls h)[i := (calls h ! i)\<lparr>cl_promise := p\<rparr>]) = map (\<lambda>c. call_steps (cl_pc c)) (calls h)"
    by (cases "i < length (calls h)") (simp_all add: map_update list_update_beyond list_update_same_conv)
  then show ?thesis by (simp add: steps_left_def)
qed

lemma admin_step_steps:
  assumes "admin_step silent h = Some (Inr h')" and "handoff_inv f h" and "log_room (length (calls h)) f"
  shows "steps_left h' < steps_left h"
  using assms
proof (cases rule: admin_step_cases)
  case (9 i)
  have "steps_left (h\<lparr>admin_at := Locking\<rparr>) < steps_left h" using 9(1) by (simp add: steps_left_def)
  then show ?thesis using steps_promise [of i _ "h\<lparr>admin_at := Locking\<rparr>"] 9(4) by simp
qed (simp_all add: steps_left_def)

lemma handoff_step_steps:
  assumes "handoff_step silent e h = Some (Inr h')" and "handoff_inv f h" and "log_room (length (calls h)) f"
  shows "steps_left h' + 1 \<le> steps_left h + extra_steps e"
proof (cases e)
  case (CallStep i)
  then show ?thesis using assms(1) call_step_steps [of i h] by auto
next
  case AdminThreadStep
  then show ?thesis using assms admin_step_steps [of silent h h' f] by auto
next
  case SpuriousWakeup
  then show ?thesis using assms(1) by (auto simp: steps_left_def split: if_splits)
next
  case (Elsewhere g)
  then show ?thesis using assms(1) by (auto simp: steps_left_def split: if_splits)
qed

lemma handoff_run_inv:
  assumes "handoff_run silent es h = Some r" and "handoff_inv f h" and "log_room (length (calls h)) f"
  shows "\<exists>h'. r = Inr h' \<and> handoff_inv f h' \<and> length (calls h') = length (calls h)
    \<and> steps_left h' + length es \<le> steps_left h + (\<Sum>e \<leftarrow> es. extra_steps e)"
  using assms
proof (induction es arbitrary: h)
  case (Cons e es)
  then obtain r1 where r1: "handoff_step silent e h = Some r1" by (auto split: option.splits)
  obtain h1 where h1: "r1 = Inr h1" "handoff_inv f h1" "length (calls h1) = length (calls h)"
    by (rule handoff_step_inv [OF r1 Cons.prems(2,3)])
  have "steps_left h1 + 1 \<le> steps_left h + extra_steps e"
    using handoff_step_steps [OF _ Cons.prems(2,3)] r1 h1(1) by simp
  moreover have "handoff_run silent es h1 = Some r" using Cons.prems(1) r1 h1(1) by simp
  then obtain h' where "r = Inr h'" "handoff_inv f h'" "length (calls h') = length (calls h1)"
    "steps_left h' + length es \<le> steps_left h1 + (\<Sum>e \<leftarrow> es. extra_steps e)"
    using Cons.IH [OF _ h1(2)] Cons.prems(3) h1(3) by auto
  ultimately show ?case using h1(3) by auto
qed auto

section \<open>Nobody is left waiting\<close>

definition call_returned :: "call \<Rightarrow> bool" where
  "call_returned c \<longleftrightarrow> (\<exists>laptop. cl_pc c = Returned laptop)"

text \<open>The round of the admin thread hangs on a peer.\<close>

definition hangs :: "(nat \<Rightarrow> bool) \<Rightarrow> handoff \<Rightarrow> bool" where
  "hangs silent h \<longleftrightarrow> (\<exists>i req. admin_at h = Working i req)
     \<and> peer_range (shared h) \<noteq> [] \<and> silent (length (smr_log (shared h)))"

lemma blocked_lock:
  assumes "handoff_inv f h" and "\<forall>i. call_step i h = None" and "\<not> admin_locks (admin_at h)"
  shows "arq_lock h = Nobody"
proof (cases "arq_lock h")
  case (Caller i)
  then have i: "i < length (calls h)" "call_ok (admin_id f) h i"
    using assms(1) by (simp_all add: handoff_inv_def data_ok_def)
  then have "call_locks (cl_pc (calls h ! i))" using Caller by (simp add: call_ok_def Let_def)
  then have "call_step i h \<noteq> None"
    using i(1) by (cases "cl_pc (calls h ! i)") (simp_all add: call_step_def Let_def)
  then show ?thesis using assms(2) by simp
qed (use assms in \<open>simp_all add: handoff_inv_def admin_ok_def\<close>)

lemma blocked_done:
  assumes "handoff_inv f h" and "\<forall>i. call_step i h = None" and "admin_step silent h = None" and "\<not> hangs silent h"
  shows "(\<forall>c \<in> set (calls h). call_returned c) \<and> admin_at h = Asleep"
proof -
  have inv: "\<forall>i < length (calls h). call_ok (admin_id f) h i" "admin_ok (admin_id f) h" "data_ok f h"
    using assms(1) by (simp_all add: handoff_inv_def)
  have "admin_at h \<in> {Locking, Asleep, Woken}"
    using assms(3,4)
    by (cases "admin_at h") (auto simp: admin_step_def hangs_def split: list.splits if_splits)
  then have free: "arq_lock h = Nobody" using blocked_lock [OF assms(1,2)] by auto
  then have asleep: "admin_at h = Asleep"
    using assms(3) \<open>admin_at h \<in> {Locking, Asleep, Woken}\<close> by (auto simp: admin_step_def)
  have idle: "cl_pc (calls h ! i) = Waiting \<and> cl_promise (calls h ! i) = None \<or> call_returned (calls h ! i)"
    if "i < length (calls h)" for i
    using assms(2) [rule_format, of i] that free
    by (cases "cl_pc (calls h ! i)") (simp_all add: call_step_def call_returned_def Let_def)
  then have "promises h = []"
    using inv(2) asleep by (fastforce simp: admin_ok_def call_returned_def)
  have "call_returned (calls h ! i)" if "i < length (calls h)" for i
  proof (rule ccontr)
    assume "\<not> call_returned (calls h ! i)"
    then have "pushed (cl_pc (calls h ! i))" "cl_promise (calls h ! i) = None" using idle [OF that] by auto
    then show False
      using inv(1) that asleep \<open>promises h = []\<close> by (auto simp: call_ok_def Let_def)
  qed
  then show ?thesis using asleep by (auto simp: in_set_conv_nth)
qed

text \<open>The parameters of the calls stay as they are.\<close>

lemma map_update_keep: "g c = g (xs ! i) \<Longrightarrow> map g (xs[i := c]) = map g xs"
  by (cases "i < length xs") (simp_all add: map_update list_update_beyond list_update_same_conv)

definition parameters :: "handoff \<Rightarrow> (CustomerOrder \<times> cint) list" where
  "parameters h = map (\<lambda>c. (cl_order c, cl_engineer c)) (calls h)"

lemma parameters_call: "call_step i h = Some h' \<Longrightarrow> parameters h' = parameters h"
  unfolding parameters_def by (erule call_step_cases) (simp_all add: map_update_keep)

lemma parameters_admin: "admin_step silent h = Some (Inr h') \<Longrightarrow> parameters h' = parameters h"
  by (auto simp: parameters_def admin_step_def map_update_keep split: admin_pc.splits list.splits if_splits)

lemma parameters_step: "handoff_step silent e h = Some (Inr h') \<Longrightarrow> parameters h' = parameters h"
  by (cases e) (auto dest: parameters_call parameters_admin simp: parameters_def split: if_splits)

lemma parameters_run: "handoff_run silent es h = Some (Inr h') \<Longrightarrow> parameters h' = parameters h"
  by (induction es arbitrary: h) (auto dest: parameters_step split: option.splits sum.splits)

lemma parameters_start: "parameters (handoff_start orders f) = orders"
  by (simp add: parameters_def handoff_start_def comp_def split_beta)

lemma parameters_nth:
  "i < length (calls h) \<Longrightarrow> cl_order (calls h ! i) = fst (parameters h ! i) \<and> cl_engineer (calls h ! i) = snd (parameters h ! i)"
  by (simp add: parameters_def)

lemma steps_start: "steps_left (handoff_start orders f) = 14 * length orders + 3"
proof -
  have "(\<Sum>c \<leftarrow> map (\<lambda>(order, eng). \<lparr>cl_order = order, cl_engineer = eng, cl_pc = Asking, cl_promise = None\<rparr>) orders.
      call_steps (cl_pc c)) = 14 * length orders"
    by (induction orders) auto
  then show ?thesis by (simp add: steps_left_def handoff_start_def)
qed

lemma extra_steps_count:
  "(\<Sum>e \<leftarrow> es. extra_steps e) = 3 * length (filter (\<lambda>e. e = SpuriousWakeup) es)
     + length (filter (\<lambda>e. \<exists>g. e = Elsewhere g) es)"
proof (induction es)
  case (Cons e es)
  then show ?case by (cases e) auto
qed simp

text \<open>
  C11. Every order is answered. Any number of calls of \<^verbatim>\<open>CreateRegularLaptop\<close> and the admin thread, started on a
  well-formed node with an empty queue and room in its operation log, with blocking on the mutex, sleeping in the wait, spurious wake-ups and
  other threads' work in between: no schedule fails or goes on for ever (its length is bounded by the number of
  calls, spurious wake-ups and other steps); no two threads are between lock and unlock; a call that has returned
  has its own laptop; and when neither a call nor the admin thread can make a step, either the admin thread's
  round hangs on a peer that does not answer, or all calls have returned, the queue is empty, and the operation
  log has grown by exactly one operation for each call.
\<close>

theorem every_order_answered:
  assumes "rm_ok f" and "arq f = []" and "log_room (length orders) f"
    and "handoff_run silent es (handoff_start orders f) = Some r"
  shows "\<exists>h. r = Inr h
    \<and> length es \<le> 14 * length orders + 3 + 3 * length (filter (\<lambda>e. e = SpuriousWakeup) es)
        + length (filter (\<lambda>e. \<exists>g. e = Elsewhere g) es)
    \<and> (\<forall>i < length orders. \<forall>j < length orders. call_locks (cl_pc (calls h ! i)) \<longrightarrow>
         \<not> admin_locks (admin_at h) \<and> (call_locks (cl_pc (calls h ! j)) \<longrightarrow> i = j))
    \<and> (\<forall>i < length orders. \<forall>laptop. cl_pc (calls h ! i) = Returned laptop \<longrightarrow>
         laptop = laptop_for (fst (orders ! i)) (snd (orders ! i)) (admin_id f))
    \<and> ((\<forall>i. handoff_step silent (CallStep i) h = None) \<and> handoff_step silent AdminThreadStep h = None \<longrightarrow>
         hangs silent h
         \<or> (\<forall>i < length orders. \<exists>laptop. cl_pc (calls h ! i) = Returned laptop) \<and> arq (shared h) = []
           \<and> (\<exists>ks. distinct ks \<and> set ks = {..< length orders}
                \<and> smr_log (shared h) = smr_log f @ map (\<lambda>i. order_op (fst (orders ! i))) ks))"
proof -
  have n: "length (calls (handoff_start orders f)) = length orders" by (simp add: handoff_start_def)
  obtain h where h: "r = Inr h" "handoff_inv f h" "length (calls h) = length orders"
    "steps_left h + length es \<le> 14 * length orders + 3 + (\<Sum>e \<leftarrow> es. extra_steps e)"
    using handoff_run_inv [OF assms(4) handoff_inv_start [OF assms(1,2)]] assms(3) by (auto simp: n steps_start)
  have pars: "parameters h = orders"
    using parameters_run [of silent es "handoff_start orders f" h] assms(4) h(1) by (simp add: parameters_start)
  have inv: "\<forall>i < length orders. call_ok (admin_id f) h i" "admin_ok (admin_id f) h" "data_ok f h"
    using h(2,3) by (simp_all add: handoff_inv_def)
  have own: "cl_order (calls h ! i) = fst (orders ! i)" "cl_engineer (calls h ! i) = snd (orders ! i)" if "i < length orders" for i
    using parameters_nth [of i h] that h(3) pars by simp_all
  have excl: "\<not> admin_locks (admin_at h) \<and> (call_locks (cl_pc (calls h ! j)) \<longrightarrow> i = j)"
    if "i < length orders" "j < length orders" "call_locks (cl_pc (calls h ! i))" for i j
    using inv(1) [rule_format, OF that(1)] inv(1) [rule_format, OF that(2)] inv(2) that(3)
    by (auto simp: call_ok_def admin_ok_def Let_def)
  have answer: "laptop = laptop_for (fst (orders ! i)) (snd (orders ! i)) (admin_id f)"
    if "i < length orders" "cl_pc (calls h ! i) = Returned laptop" for i laptop
    using inv(1) that own [OF that(1)] by (auto simp: call_ok_def answer_for_def Let_def)
  have stuck: "(\<forall>i < length orders. \<exists>laptop. cl_pc (calls h ! i) = Returned laptop) \<and> arq (shared h) = []
      \<and> (\<exists>ks. distinct ks \<and> set ks = {..< length orders}
           \<and> smr_log (shared h) = smr_log f @ map (\<lambda>i. order_op (fst (orders ! i))) ks)"
    if "\<forall>i. handoff_step silent (CallStep i) h = None" "handoff_step silent AdminThreadStep h = None" "\<not> hangs silent h"
  proof -
    have all: "\<forall>i < length orders. \<exists>laptop. cl_pc (calls h ! i) = Returned laptop" "admin_at h = Asleep"
      using blocked_done [OF h(2), of silent] that h(3) nth_mem [of _ "calls h"] by (auto simp: call_returned_def)
    have each: "i \<notin> set (promises h) \<and> served h i" if i: "i < length orders" for i
    proof -
      obtain laptop where "cl_pc (calls h ! i) = Returned laptop" using all(1) i by blast
      then show ?thesis using inv(1) [rule_format, OF i] by (auto simp: call_ok_def served_def Let_def)
    qed
    then have "promises h = []"
      using inv(3) h(3) by (cases "promises h") (auto simp: data_ok_def)
    moreover have "{i. i < length (calls h) \<and> served h i} = {..< length orders}"
      using each by (auto simp: h(3))
    ultimately obtain ks where ks: "distinct ks" "set ks = {..< length orders}" "arq (shared h) = []"
      "smr_log (shared h) = smr_log f @ map (\<lambda>i. order_op (cl_order (calls h ! i))) ks"
      using inv(3) by (auto simp: data_ok_def)
    have "map (\<lambda>i. order_op (cl_order (calls h ! i))) ks = map (\<lambda>i. order_op (fst (orders ! i))) ks"
      using ks(2) own(1) by (intro map_cong) auto
    then show ?thesis using all(1) ks by metis
  qed
  show ?thesis
    using h(1,4) excl answer stuck by (intro exI [of _ h]) (auto simp: extra_steps_count)
qed

text \<open>The steps of the connections' threads in the model of whole nodes are such steps of other threads.\<close>

lemma phase_step_elsewhere:
  assumes "shared_ok f" and "log_room 1 f" and "phase_ok p"
    and step: "phase_step p eng stub f = Some (Inr (p', stub', g))" and "p \<noteq> Backup" and "\<not> is_placed p'"
  shows "elsewhere_ok f g"
proof -
  have ok: "rm_ok g" using phase_step_ok [OF assms(1-3) step] by (simp add: shared_ok_def)
  have "arq g = arq f \<and> smr_log g = smr_log f \<and> admin_id g = admin_id f"
  proof (cases p)
    case Identify
    then show ?thesis using step identify_step_result [of stub f p' stub' g] by simp
  next
    case (Copying txn)
    then show ?thesis using step CopyTranlogReplica_only_net only_net_fields by fastforce
  next
    case (Applying t valid recs nl cs)
    then show ?thesis
      using step assms(6)
      by (cases "(t, valid, recs, nl, cs, eng, f)" rule: apply_step.cases) (auto simp: Let_def)
  qed (use step assms(5) in \<open>auto simp: serving_step_def reply_step_def file_step_def mark_step_def
      store_txn_log_record_def store_cust_record_txn_def split: prod.splits if_splits\<close>)
  then show ?thesis using ok by (simp add: elsewhere_ok_def)
qed

text \<open>
  A single call, which finds the admin thread asleep and after which that sleeps again, does what the two steps
  of the other theories do: \<open>CreateRegularLaptop\<close> of the sequential model.
\<close>

definition alone :: "handoff_event list" where
  "alone = replicate 3 AdminThreadStep @ replicate 4 (CallStep 0) @ replicate 6 AdminThreadStep
     @ [CallStep 0] @ replicate 3 AdminThreadStep"

lemma CreateRegularLaptop_handoff:
  assumes "arq f = []" and "CreateRegularLaptop order eng f = Inr (laptop, f')"
  shows "handoff_run (\<lambda>k. False) alone (handoff_start [(order, eng)] f) =
    Some (Inr \<lparr>shared = f', promises = [], arq_lock = Nobody, admin_at = Asleep,
      calls = [\<lparr>cl_order = order, cl_engineer = eng, cl_pc = Returned laptop, cl_promise = Some laptop\<rparr>]\<rparr>)"
proof -
  note round = CreateRegularLaptop_alone [OF assms]
  have same: "f\<lparr>arq := []\<rparr> = f" using assms(1) by (cases f) simp
  show ?thesis
    by (simp add: alone_def eval_nat_numeral handoff_start_def admin_step_def call_step_def Let_def set_call_def
        notify_one_def assms(1) same round)
qed

lemma every_order_answered_witness:
  "\<exists>h. handoff_run (\<lambda>k. False) alone (handoff_start [(SetOrder 0 51 1 new_CustomerOrder, 1)] demo_rm) = Some (Inr h)
     \<and> length alone \<le> 17 \<and> (\<exists>laptop. cl_pc (calls h ! 0) = Returned laptop)
     \<and> smr_log (shared h) = [order_op (SetOrder 0 51 1 new_CustomerOrder)]"
proof -
  let ?order = "SetOrder 0 51 1 new_CustomerOrder" and ?silent = "\<lambda>k :: nat. False"
  have rm: "rm_ok demo_rm" "arq demo_rm = []" using rm_ready_demo by (simp_all add: rm_ready_def)
  obtain laptop f where "CreateRegularLaptop ?order 1 demo_rm = Inr (laptop, f)"
    using CreateRegularLaptop_eq [OF rm] by blast
  note run = CreateRegularLaptop_handoff [OF rm(2) this]
  let ?h = "\<lparr>shared = f, promises = [], arq_lock = Nobody, admin_at = Asleep,
      calls = [\<lparr>cl_order = ?order, cl_engineer = 1, cl_pc = Returned laptop, cl_promise = Some laptop\<rparr>]\<rparr>"
  have "\<forall>i. handoff_step ?silent (CallStep i) ?h = None" "handoff_step ?silent AdminThreadStep ?h = None" "\<not> hangs ?silent ?h"
    by (auto simp: call_step_def admin_step_def hangs_def Let_def not_le less_Suc_eq_0_disj)
  moreover have "log_room (length [(?order, 1 :: cint)]) demo_rm" by simp
  note facts = every_order_answered [OF rm this run]
  have "filter (\<lambda>e. e = SpuriousWakeup) alone = []" "filter (\<lambda>e. \<exists>g. e = Elsewhere g) alone = []"
    by (simp_all add: alone_def)
  ultimately have "length alone \<le> 17" "\<exists>ks. distinct ks \<and> set ks = {..< Suc 0}
      \<and> smr_log f = map (\<lambda>i. order_op (fst ([(?order, 1 :: cint)] ! i))) ks"
    using facts by auto
  moreover have "ks = [0]" if "distinct ks" "set ks = {..< Suc 0}" for ks :: "nat list"
  proof -
    have "length ks = 1" using distinct_card [OF that(1)] that(2) by simp
    then show ?thesis using that(2) by (cases ks) auto
  qed
  ultimately have "smr_log f = [order_op ?order]" by fastforce
  then show ?thesis using run \<open>length alone \<le> 17\<close> by simp
qed

end
