(* ===== verification/CommitRace.thy ===== *)
theory CommitRace
  imports Concurrent History
begin

text \<open>
  Two connections of one resource manager at the same time: a schedule in which one commit reads the log
  records that another has released, and one in which a commit falls between the check and the vote of a prepare.
  A transaction manager serves its clients one after the other, so the two connections are those of two
  transaction managers that share the resource manager, which has a thread for each of them.
\<close>

section \<open>Two commits at once\<close>

text \<open>The loop of a commit alone, in a well-formed node: it reaches the assignment to the transaction log.\<close>

lemma leads_swapping:
  assumes "i < length (threads n)" and "others_quiet n i" and "rm_ready f"
    and "log_room (length (logged u f)) f"
  shows "\<exists>nl cs g. leads i (at_phase n i (Finding u) stub f) (at_phase n i (Swapping u nl cs) stub g)
    \<and> txn_log g = txn_log f"
proof -
  let ?eng = "th_engineer (threads n ! i)"
  have ok: "rm_ok f" "arq f = []" and ids: "\<forall>r \<in> set (logged u f). tl_txn_id r = u"
    using assms(3) log_ok_find [of "txn_log f" u]
    by (cases "map_find u (txn_log f)"; simp add: rm_ready_def logged_def)+
  obtain nl cs g where loop: "commit_records u ?eng (logged u f) ([], [], f) = Inr (nl, cs, g)"
    "only_net (apply_ops (map rec_op (logged u f)) f) g"
    using commit_records_eq [OF ok assms(4) ids] by blast
  have find: "leads i (at_phase n i (Finding u) stub f) (at_phase n i (find_step u f) stub f)"
    by (rule leads_step [OF assms(1,2)]) (simp_all add: find_step_def split: option.split)
  have "leads i (at_phase n i (find_step u f) stub f) (at_phase n i (Swapping u nl cs) stub g)"
    using loop(1) leads_commit_records [OF assms(1,2) ok(2)]
    by (auto simp: find_step_def logged_def split: option.splits)
  then show ?thesis
    using leads_trans [OF find] only_net_fields(10) [OF loop(2)] by auto
qed

lemma thread_event_here:
  assumes "i < length (threads n)"
    and "phase_step (th_phase (threads n ! i)) (th_engineer (threads n ! i)) (th_stub (threads n ! i)) (factory n)
      = Some (Inr (p, stub, f))"
    and "\<not> is_placed p"
  shows "run_event (ThreadStep i) n = Some (Inr \<lparr>factory = f,
     threads = (map (th_phase_update (forget (invalidates (th_phase (threads n ! i)) (factory n)))) (threads n))
       [i := (threads n ! i)\<lparr>th_stub := stub, th_phase := p\<rparr>], owners = owners n\<rparr>)"
  using assms by (simp add: thread_event_def Let_def)

lemma at_phase_here:
  "owners n = [] \<Longrightarrow> at_phase n i (th_phase (threads n ! i)) (th_stub (threads n ! i)) (factory n) = n"
  using list_update_id [of "threads n" i] by (cases n) (simp add: at_phase_def)

lemma leads_commit_message:
  assumes "owners n = []" and "i < length (threads n)" and "others_quiet n i"
    and "th_phase (threads n ! i) = Identify" and "conn_ok (th_stub (threads n ! i))"
    and "rx (th_stub (threads n ! i)) = id_segment ''TMCommit'' x # Segment (net_bytes t) # r"
  shows "leads i n (at_phase n i (Finding t) ((th_stub (threads n ! i))\<lparr>rx := r\<rparr>) (factory n))"
proof -
  let ?s = "th_stub (threads n ! i)"
  have "identify_step ?s (factory n) = Inr (Finding t, ?s\<lparr>rx := r\<rparr>, factory n)"
    using Id_segment [OF assms(5,6)] TxnId_segment [of "?s\<lparr>rx := Segment (net_bytes t) # r\<rparr>" t r] assms(5)
    by (simp add: identify_step_def conn_ok_def short_msg_def)
  then show ?thesis
    using leads_step [OF assms(2,3), of Identify ?s "factory n"] at_phase_here [OF assms(1), of i] assms(4)
    by simp
qed

text \<open>
  While thread \<open>i\<close> is in its loop, thread \<open>j\<close> replaces the transaction log; the next step of \<open>i\<close> is undefined.
\<close>

lemma swap_under_loop:
  assumes "i < length (threads n)" and "j < length (threads n)" and "i \<noteq> j"
    and "th_phase (threads n ! i) = Finding t" and "map_find t (txn_log (factory n)) = Some recs"
    and "th_phase (threads n ! j) = Swapping u nl cs"
  shows "run_events [ThreadStep i, ThreadStep j, ThreadStep i] n = Some (Inl Undefined)"
proof -
  let ?n1 = "\<lparr>factory = factory n,
     threads = (threads n)[i := (threads n ! i)\<lparr>th_phase := Applying t True recs [] []\<rparr>], owners = owners n\<rparr>"
  have none: "map (th_phase_update (forget (invalidates (Finding t) f))) ts = ts" for f and ts :: "thread list"
  proof (rule map_idI)
    fix th :: thread
    have "invalidates (Finding t) f = (\<lambda>u. False)" by (rule ext) simp
    then show "th_phase_update (forget (invalidates (Finding t) f)) th = th" by (cases th) simp
  qed
  have one: "run_event (ThreadStep i) n = Some (Inr ?n1)"
    using thread_event_here [OF assms(1), of "Applying t True recs [] []" "th_stub (threads n ! i)" "factory n"]
    by (simp add: assms(4,5) find_step_def none)
  obtain n2 where two: "run_event (ThreadStep j) ?n1 = Some (Inr n2)"
    "th_phase (threads n2 ! i) = Applying t False recs [] []" "i < length (threads n2)"
    using thread_event_here [of j ?n1 "CommitLogging u cs" "th_stub (threads n ! j)" "(factory n)\<lparr>txn_log := nl\<rparr>"]
      assms(1,2,3,6) by (simp add: nth_list_update)
  have "run_event (ThreadStep i) n2 = Some (Inl Undefined)"
    using two(2,3) by (simp add: thread_event_def)
  then show ?thesis using one two(1) by (simp del: run_event.simps)
qed

text \<open>
  C22. Two commits that overlap have undefined behaviour: when two connections of a resource manager have both
  sent a commit and the transaction of one is in the log, there is an order of the threads' steps in which the
  assignment \<^verbatim>\<open>txn_log = new_txn_log\<close> of one commit frees the records the other commit is iterating over, and
  the other goes on with them; the mutex of the transaction log is not held across the loop.
\<close>

theorem overlapping_commits_undefined:
  assumes "rm_ready (factory n)" and "owners n = []" and "i < length (threads n)" and "j < length (threads n)"
    and "i \<noteq> j" and "\<forall>k < length (threads n). \<not> iterating (th_phase (threads n ! k))"
    and "th_phase (threads n ! i) = Identify" and "conn_ok (th_stub (threads n ! i))"
    and "rx (th_stub (threads n ! i)) = id_segment ''TMCommit'' x # Segment (net_bytes t) # r"
    and "th_phase (threads n ! j) = Identify" and "conn_ok (th_stub (threads n ! j))"
    and "rx (th_stub (threads n ! j)) = id_segment ''TMCommit'' y # Segment (net_bytes u) # r'"
    and "map_find t (txn_log (factory n)) = Some recs"
    and "log_room (length (logged u (factory n))) (factory n)"
  shows "\<exists>es. set es \<subseteq> {ThreadStep i, ThreadStep j, AdminStep} \<and> run_events es n = Some (Inl Undefined)"
proof -
  let ?f = "factory n"
  have quiet: "others_quiet n i" "others_quiet n j" using assms(6) by (simp_all add: others_quiet_def)
  let ?n1 = "at_phase n i (Finding t) ((th_stub (threads n ! i))\<lparr>rx := r\<rparr>) ?f"
  have one: "leads i n ?n1"
    by (rule leads_commit_message [OF assms(2,3) quiet(1) assms(7-9)])
  have n1: "owners ?n1 = []" "j < length (threads ?n1)" "threads ?n1 ! j = threads n ! j" "factory ?n1 = ?f"
    using assms(3-5) by (simp_all add: at_phase_def)
  have quiet1: "others_quiet ?n1 j"
    using assms(3,6) by (auto simp: at_phase_def others_quiet_def nth_list_update)
  let ?s = "(th_stub (threads n ! j))\<lparr>rx := r'\<rparr>"
  have two: "leads j ?n1 (at_phase ?n1 j (Finding u) ?s ?f)"
    using leads_commit_message [OF n1(1,2) quiet1] assms(10-12) unfolding n1(3,4) by blast
  obtain nl cs g where three: "leads j (at_phase ?n1 j (Finding u) ?s ?f) (at_phase ?n1 j (Swapping u nl cs) ?s g)"
    "txn_log g = txn_log ?f"
    using leads_swapping [OF n1(2) quiet1 assms(1,14)] by blast
  let ?n3 = "at_phase ?n1 j (Swapping u nl cs) ?s g"
  have "run_events [ThreadStep i, ThreadStep j, ThreadStep i] ?n3 = Some (Inl Undefined)"
    using assms(3-5,13) three(2) by (intro swap_under_loop) (auto simp: at_phase_def)
  moreover obtain es es' where "set es \<subseteq> {ThreadStep i, AdminStep}" "run_events es n = Some (Inr ?n1)"
    "set es' \<subseteq> {ThreadStep j, AdminStep}" "run_events es' ?n1 = Some (Inr ?n3)"
    using one leads_trans [OF two three(1)] by (auto simp: leads_def)
  ultimately show ?thesis
    by (intro exI [of _ "es @ es' @ [ThreadStep i, ThreadStep j, ThreadStep i]"])
      (auto simp: run_events_append simp del: run_events.simps)
qed

text \<open>Transactions 7 and 8 are prepared; two connections commit them.\<close>

definition commit_conn :: "cint \<Rightarrow> ServerStub" where
  "commit_conn t = demo_conn [id_segment ''TMCommit'' (demo_conn []), Segment (net_bytes t)]"

definition committing_node :: node where
  "committing_node = \<lparr>factory = two_prepared,
     threads = map (\<lambda>t. \<lparr>th_stub = commit_conn t, th_engineer = t, th_phase = Identify\<rparr>) [7, 8], owners = []\<rparr>"

lemma overlapping_commits_undefined_witness:
  "\<exists>es. run_events es committing_node = Some (Inl Undefined)"
proof -
  obtain recs where "map_find 7 (txn_log two_prepared) = Some recs"
    using two_prepared_facts(4) by (cases "map_find 7 (txn_log two_prepared)") (simp_all add: logged_def)
  moreover have "log_room (length (logged 8 two_prepared)) two_prepared" by (simp add: two_prepared_facts)
  moreover have "\<forall>k < length (threads committing_node). \<not> iterating (th_phase (threads committing_node ! k))"
    by (simp add: committing_node_def less_Suc_eq)
  ultimately show ?thesis
    using overlapping_commits_undefined [of committing_node 0 1 "demo_conn []" 7 "[]" "demo_conn []" 8 "[]" recs]
      two_prepared_facts(1) by (auto simp: committing_node_def commit_conn_def)
qed

section \<open>A commit between check and vote\<close>

lemma leads_prepare_message:
  assumes "owners n = []" and "i < length (threads n)" and "others_quiet n i"
    and "th_phase (threads n ! i) = Identify" and "conn_ok (th_stub (threads n ! i))"
    and "rx (th_stub (threads n ! i)) = id_segment ''TMPrepare'' x # Segment (Transaction_Marshal e txn) # r"
    and "fits txn" and "reads_consistent (readRecords txn) (customer_record (factory n))"
  shows "leads i n (at_phase n i (Filing True txn) ((th_stub (threads n ! i))\<lparr>rx := r\<rparr>) (factory n))"
proof -
  let ?s = "th_stub (threads n ! i)" and ?f = "factory n"
  have "identify_step ?s ?f = Inr (Checking txn (readRecords txn), ?s\<lparr>rx := r\<rparr>, ?f)"
    using Id_segment [OF assms(5,6)] Txn_segment [of "?s\<lparr>rx := Segment (Transaction_Marshal e txn) # r\<rparr>" e txn r]
      assms(5,7) by (simp add: identify_step_def conn_ok_def short_msg_def)
  then have "leads i (at_phase n i Identify ?s ?f) (at_phase n i (Checking txn (readRecords txn)) (?s\<lparr>rx := r\<rparr>) ?f)"
    by (intro leads_step [OF assms(2,3)]) simp_all
  also have "leads i (at_phase n i (Checking txn (readRecords txn)) (?s\<lparr>rx := r\<rparr>) ?f)
      (at_phase n i (Filing True txn) (?s\<lparr>rx := r\<rparr>) ?f)"
    using leads_checking [OF assms(2,3), of txn "readRecords txn" "?s\<lparr>rx := r\<rparr>" ?f] assms(8) by simp
  finally show ?thesis using at_phase_here [OF assms(1), of i] assms(4) by simp
qed

lemma leads_positive_vote:
  assumes "i < length (threads n)" and "others_quiet n i" and "rm_ready f" and "fits txn" and "conn_ok s"
  shows "\<exists>g. leads i (at_phase n i (Filing True txn) s f)
      (at_phase n i Identify (snd (SendResponseReplicationReq ''Ok'' s)) g)
    \<and> only_net (prepared_state txn f) g \<and> rm_ready g"
proof -
  have "store_txn_log_in_txn_map txn f = Inr (prepared_state txn f)"
    using assms(3) by (simp add: store_txn_log_eq rm_ready_def)
  from leads_store [OF assms(1,2) this, of True s]
  have one: "leads i (at_phase n i (Filing True txn) s f) (at_phase n i (Copying txn) s (prepared_state txn f))"
    by simp
  obtain g where g: "CopyTranlogReplica txn (prepared_state txn f) = Inr g" "only_net (prepared_state txn f) g"
    using CopyTranlogReplica_net [OF assms(4), of "prepared_state txn f"] assms(3)
    by (auto simp: rm_ready_def rm_ok_def)
  have "leads i (at_phase n i (Copying txn) s (prepared_state txn f)) (at_phase n i (Answering txn) s g)"
    by (rule leads_step [OF assms(1,2)]) (simp_all add: g(1))
  also have "leads i (at_phase n i (Answering txn) s g)
      (at_phase n i Identify (snd (SendResponseReplicationReq ''Ok'' s)) g)"
    by (rule leads_reply [OF assms(1,2)]) simp
  finally show ?thesis
    using leads_trans [OF one] g(2) rm_ready_prepared [OF assms(3)] only_net_rm_ready [OF g(2)] by blast
qed

lemma leads_commit_conversation:
  assumes "owners n = []" and "i < length (threads n)" and "others_quiet n i"
    and "th_phase (threads n ! i) = Identify" and "conn_ok (th_stub (threads n ! i))"
    and "rx (th_stub (threads n ! i)) = id_segment ''TMCommit'' x # Segment (net_bytes u) # r"
    and "rm_ready (factory n)" and "log_room (length (logged u (factory n))) (factory n)"
  shows "\<exists>s g. leads i n (at_phase n i Identify s g) \<and> rm_ready g
    \<and> only_net (committed_state u (logged u (factory n)) (factory n)) g"
proof -
  let ?f = "factory n" and ?s = "(th_stub (threads n ! i))\<lparr>rx := r\<rparr>"
  obtain g where g: "commit_txn u (th_engineer (threads n ! i)) ?f = Inr g"
    "only_net (committed_state u (logged u ?f) ?f) g"
    using commit_txn_eq [of ?f u "th_engineer (threads n ! i)"] assms(7,8) by (auto simp: rm_ready_def)
  have "leads i n (at_phase n i (Finding u) ?s ?f)"
    by (rule leads_commit_message [OF assms(1-6)])
  then have "leads i n (at_phase n i Identify (snd (SendResponseReplicationReq ''Done commit'' ?s)) g)"
    using leads_commit [OF assms(2,3) rm_readyD(3) [OF assms(7)] g(1), of ?s] leads_trans by blast
  moreover have "rm_ready g"
    using rm_ready_committed [OF assms(7,8)] only_net_rm_ready [OF g(2)] by simp
  ultimately show ?thesis using g(2) by blast
qed

text \<open>
  The check of one prepare, the whole commit of another transaction, and the vote: \<open>n'\<close> is the node after it.
\<close>

lemma leads_stale_vote:
  assumes "rm_ready (factory n)" and "owners n = []" and "i < length (threads n)" and "j < length (threads n)"
    and "i \<noteq> j" and "\<forall>k < length (threads n). \<not> iterating (th_phase (threads n ! k))"
    and "th_phase (threads n ! i) = Identify" and "conn_ok (th_stub (threads n ! i))"
    and "rx (th_stub (threads n ! i)) = id_segment ''TMPrepare'' x # Segment (Transaction_Marshal e txn) # r"
    and "fits txn" and "reads_consistent (readRecords txn) (customer_record (factory n))"
    and "th_phase (threads n ! j) = Identify" and "conn_ok (th_stub (threads n ! j))"
    and "rx (th_stub (threads n ! j)) = id_segment ''TMCommit'' y # Segment (net_bytes u) # r'"
    and "log_room (length (logged u (factory n))) (factory n)"
  shows "\<exists>es n' g. run_events es n = Some (Inr n') \<and> rm_ready (factory n') \<and> owners n' = []
    \<and> i < length (threads n') \<and> others_quiet n' i \<and> th_phase (threads n' ! i) = Identify
    \<and> th_stub (threads n' ! i) = replied r ''Ok'' (th_stub (threads n ! i))
    \<and> only_net (committed_state u (logged u (factory n)) (factory n)) g \<and> only_net (prepared_state txn g) (factory n')"
proof -
  let ?f = "factory n" and ?s = "(th_stub (threads n ! i))\<lparr>rx := r\<rparr>"
  have quiet: "others_quiet n i" using assms(6) by (simp add: others_quiet_def)
  let ?n1 = "at_phase n i (Filing True txn) ?s ?f"
  have one: "leads i n ?n1"
    by (rule leads_prepare_message [OF assms(2,3) quiet assms(7-11)])
  have n1: "owners ?n1 = []" "j < length (threads ?n1)" "threads ?n1 ! j = threads n ! j" "factory ?n1 = ?f"
    using assms(3-5) by (simp_all add: at_phase_def)
  have quiet1: "others_quiet ?n1 j"
    using assms(3,6) by (auto simp: at_phase_def others_quiet_def nth_list_update)
  have msg: "th_phase (threads ?n1 ! j) = Identify" "conn_ok (th_stub (threads ?n1 ! j))"
    "rx (th_stub (threads ?n1 ! j)) = id_segment ''TMCommit'' y # Segment (net_bytes u) # r'"
    unfolding n1(3) by (rule assms(12-14))+
  obtain s g where g: "leads j ?n1 (at_phase ?n1 j Identify s g)" "rm_ready g"
    "only_net (committed_state u (logged u ?f) ?f) g"
    using leads_commit_conversation [OF n1(1,2) quiet1 msg] assms(1,15) unfolding n1(4) by blast
  let ?n2 = "at_phase ?n1 j Identify s g"
  have n2: "i < length (threads ?n2)" "others_quiet ?n2 i" "at_phase ?n2 i (Filing True txn) ?s g = ?n2"
    using assms(3-6) list_update_id [of "threads ?n2" i]
    by (auto simp: at_phase_def others_quiet_def nth_list_update)
  have reply: "snd (SendResponseReplicationReq ''Ok'' ?s) = replied r ''Ok'' (th_stub (threads n ! i))"
    by (rule reply_idle [OF assms(8)])
  obtain h where h: "leads i ?n2 (at_phase ?n2 i Identify (replied r ''Ok'' (th_stub (threads n ! i))) h)"
    "only_net (prepared_state txn g) h" "rm_ready h"
    using leads_positive_vote [OF n2(1,2) g(2) assms(10), of ?s] assms(8) n2(3) reply by auto
  let ?n3 = "at_phase ?n2 i Identify (replied r ''Ok'' (th_stub (threads n ! i))) h"
  obtain es es' es'' where "run_events es n = Some (Inr ?n1)" "run_events es' ?n1 = Some (Inr ?n2)"
    "run_events es'' ?n2 = Some (Inr ?n3)"
    using one g(1) h(1) by (auto simp: leads_def)
  then have "run_events (es @ es' @ es'') n = Some (Inr ?n3)" by (simp add: run_events_append)
  moreover have "owners ?n3 = []" "i < length (threads ?n3)" "others_quiet ?n3 i" "factory ?n3 = h"
    "th_phase (threads ?n3 ! i) = Identify" "th_stub (threads ?n3 ! i) = replied r ''Ok'' (th_stub (threads n ! i))"
    using n2(1,2) by (auto simp: at_phase_def others_quiet_def)
  ultimately show ?thesis using g(3) h(2,3) by (metis (no_types))
qed

text \<open>
  C23. A lost update: no lock is held from the comparison of the reads to the vote. When one connection has sent
  the prepare and the commit of a transaction whose reads are current, and another the commit of a transaction
  that writes one of the customers read, there is an order of the threads' steps in which the second is
  committed in between; the first is then committed on top of it, although a store that runs one after the
  other would refuse it.
\<close>

theorem stale_transaction_commits:
  assumes "rm_ready (factory n)" and "nothing_pending (factory n)" and "owners n = []"
    and "i < length (threads n)" and "j < length (threads n)" and "i \<noteq> j"
    and "\<forall>k < length (threads n). \<not> iterating (th_phase (threads n ! k))"
    and "th_phase (threads n ! i) = Identify" and "conn_ok (th_stub (threads n ! i))"
    and "rx (th_stub (threads n ! i)) = [id_segment ''TMPrepare'' x, Segment (Transaction_Marshal e txn),
          id_segment ''TMCommit'' z, Segment (net_bytes (txn_id txn))]"
    and "fits txn" and "txn_accepts txn (customer_record (factory n))"
    and "th_phase (threads n ! j) = Identify" and "conn_ok (th_stub (threads n ! j))"
    and "rx (th_stub (threads n ! j)) = id_segment ''TMCommit'' y # Segment (net_bytes u) # r" and "u \<noteq> txn_id txn"
    and "log_room (length (logged u (factory n)) + length (writeRecords txn)) (factory n)"
    and m: "m = imap.write_all (map rec_write (logged u (factory n))) (customer_record (factory n))"
    and "rec \<in> set (readRecords txn)" and "map_find (cr_customer_id rec) m = Some v" and "v \<noteq> cr_last_order rec"
  shows "\<not> txn_accepts txn m
    \<and> (\<exists>es n'. run_events es n = Some (Inr n') \<and> customer_record (factory n') = txn_write txn m)"
proof -
  let ?f = "factory n" and ?t = "txn_id txn"
  let ?c = "committed_state u (logged u ?f) ?f"
  have room: "log_room (length (logged u ?f)) ?f" using assms(17) by (simp add: log_room_def)
  have reads: "reads_consistent (readRecords txn) (customer_record ?f)" using assms(12) by (simp add: txn_accepts_def)
  obtain es n1 g where n1: "run_events es n = Some (Inr n1)" "rm_ready (factory n1)" "owners n1 = []"
    "i < length (threads n1)" "others_quiet n1 i" "th_phase (threads n1 ! i) = Identify"
    "th_stub (threads n1 ! i) = replied [id_segment ''TMCommit'' z, Segment (net_bytes ?t)] ''Ok'' (th_stub (threads n ! i))"
    and g: "only_net ?c g" "only_net (prepared_state txn g) (factory n1)"
    using leads_stale_vote [OF assms(1,3-11) reads assms(13-15) room] by blast
  have conn: "conn_ok (th_stub (threads n1 ! i))"
    "rx (th_stub (threads n1 ! i)) = [id_segment ''TMCommit'' z, Segment (net_bytes ?t)]"
    using assms(9) by (simp_all add: n1(7))
  have "map_find ?t (txn_log g) = None"
    using assms(16) by (simp add: only_net_fields [OF g(1)] committed_state_def Let_def)
  moreover have "rm_ready g"
    using rm_ready_committed [OF assms(1) room] only_net_rm_ready [OF g(1)] by simp
  ultimately have log: "logged ?t (factory n1) = prepare_records txn"
    using logged_prepared [of g ?t txn] logged_only_net [OF g(2)] by (simp add: rm_ready_def rm_ok_def)
  have "length (prepare_records txn) \<le> length (writeRecords txn)"
    by (simp add: prepare_records_def length_takeWhile_le)
  then have room1: "log_room (length (logged ?t (factory n1))) (factory n1)"
    using assms(17) by (simp add: log log_room_only_net [OF g(2)] log_room_only_net [OF g(1)])
      (simp add: log_room_def committed_state_def Let_def)
  obtain s h where h: "leads i n1 (at_phase n1 i Identify s h)"
    "only_net (committed_state ?t (prepare_records txn) (factory n1)) h"
    using leads_commit_conversation [OF n1(3-6) conn n1(2) room1] unfolding log by blast
  have idle: "nothing_pending (factory n1)"
    using nothing_pending_apply_ops [OF assms(2)]
    by (simp add: nothing_pending_only_net [OF g(2)] nothing_pending_only_net [OF g(1)])
      (simp add: nothing_pending_def committed_state_def Let_def)
  have "customer_record (factory n1) = m"
    by (simp add: only_net_fields [OF g(2)] only_net_fields [OF g(1)] committed_customer_record [OF assms(2)] m)
  then have "customer_record h = txn_write txn m"
    by (simp add: only_net_fields [OF h(2)] committed_customer_record [OF idle] rec_write_prepare_records txn_write_def)
  moreover obtain es' where "run_events es' n1 = Some (Inr (at_phase n1 i Identify s h))"
    using h(1) by (auto simp: leads_def)
  ultimately have "run_events (es @ es') n = Some (Inr (at_phase n1 i Identify s h))
      \<and> customer_record (factory (at_phase n1 i Identify s h)) = txn_write txn m"
    using n1(1) by (simp add: run_events_append at_phase_def)
  moreover have "\<not> txn_accepts txn m"
    using assms(19-21) by (auto simp: txn_accepts_def reads_consistent_iff)
  ultimately show ?thesis by blast
qed

text \<open>Transaction 9 has read customer 0 at order 50; transaction 7, which moves it to 51, is committed.\<close>

definition stale_node :: node where
  "stale_node = \<lparr>factory = two_prepared,
     threads = [\<lparr>th_stub = demo_conn [id_segment ''TMPrepare'' (demo_conn []),
         Segment (Transaction_Marshal BigEndian (demo_txn 9 0)), id_segment ''TMCommit'' (demo_conn []),
         Segment (net_bytes (txn_id (demo_txn 9 0)))], th_engineer = 0, th_phase = Identify\<rparr>,
       \<lparr>th_stub = commit_conn 7, th_engineer = 1, th_phase = Identify\<rparr>],
     owners = []\<rparr>"

lemma stale_transaction_commits_witness:
  "\<not> txn_accepts (demo_txn 9 0) [(0, 51), (1, 50)]
   \<and> (\<exists>es n'. run_events es stale_node = Some (Inr n')
        \<and> customer_record (factory n') = txn_write (demo_txn 9 0) [(0, 51), (1, 50)])"
proof -
  let ?f = "factory stale_node"
  have f: "?f = two_prepared" by (simp add: stale_node_def)
  have records: "customer_record two_prepared = [(0, 50), (1, 50)]" by (simp add: two_prepared_def)
  have quiet: "\<forall>k < length (threads stale_node). \<not> iterating (th_phase (threads stale_node ! k))"
    by (simp add: stale_node_def less_Suc_eq)
  have accepts: "txn_accepts (demo_txn 9 0) (customer_record ?f)" by (simp add: f records txn_accepts_def)
  have m: "[(0, 51), (1, 50)] = imap.write_all (map rec_write (logged 7 ?f)) (customer_record ?f)"
    by (simp add: f records two_prepared_facts rec_write_def mk_TxnLogRequest_def imap.write_all_def)
  have room: "log_room (length (logged 7 ?f) + length (writeRecords (demo_txn 9 0))) ?f"
    by (simp add: f two_prepared_facts)
  have new: "7 \<noteq> txn_id (demo_txn 9 0)" by simp
  have ready: "rm_ready ?f" "nothing_pending ?f" by (simp_all add: f two_prepared_facts)
  have shape: "owners stale_node = []" "0 < length (threads stale_node)" "1 < length (threads stale_node)" "0 \<noteq> (1 :: nat)"
    by (simp_all add: stale_node_def)
  show ?thesis
    by (rule stale_transaction_commits [OF ready shape quiet _ _ _ fits_demo accepts _ _ _ new room m,
          where rec = "\<lparr>cr_customer_id = 0, cr_last_order = 50\<rparr>" and v = 51])
      (simp_all add: stale_node_def commit_conn_def)
qed

end
