(* ===== verification/Spec2Isabelle.thy ===== *)
theory Spec2Isabelle
  imports Startup Wire System Experiment Timer Console WriteAhead Handoff CommitRace
begin

text \<open>
  A model of the laptop-ordering system with two-phase commit, persistence and primary-backup
  replication, and its properties.

  \<^bold>\<open>The program.\<close> A client reads the last order numbers of some customers from a resource manager, builds a
  transaction of what it read and what it wants to write, and sends it to the transaction manager.
  The transaction manager connects to every resource manager cluster (to the primary, or else to the
  backup), asks each in turn to prepare the transaction, and tells all of them to commit or to abort
  it. A resource manager keeps the records in a map, the prepared and committed writes in a
  transaction log, both of them also in a file each, and replicates what it applies to its backups.

  \<^bold>\<open>Theories and sources\<close> (a theory imports those whose operations its operations call):
  \<^item> \<open>Prelude\<close>: C integers and their bytes, buffers and C strings, the error values, loops.
  \<^item> \<open>StdMap\<close>: \<^verbatim>\<open>std::map<int, T>\<close> as a list in key order; the locale \<open>int_map\<close> is what its clients rely on.
  \<^item> \<open>TextIO\<close>: how streams print and read integers.
  \<^item> \<open>Messages\<close> (\<^verbatim>\<open>Messages.h/.cpp\<close>): the message classes, \<^verbatim>\<open>Marshal\<close> and \<^verbatim>\<open>Unmarshal\<close>, the raw memory
    images; the locale \<open>fixed_codec\<close>, interpreted for the four structures that are sent as they lie
    in memory and for marshalled orders and laptops.
  \<^item> \<open>Sockets\<close> (\<^verbatim>\<open>Socket\<close>, \<^verbatim>\<open>ClientSocket\<close>, \<^verbatim>\<open>ServerSocket\<close>), \<open>Stubs\<close> (\<^verbatim>\<open>ClientStub\<close>, \<^verbatim>\<open>ServerStub\<close>): one
    function per method.
  \<^item> \<open>Persistence\<close>, \<open>Factory\<close>, \<open>Handlers\<close> (\<^verbatim>\<open>ServerThread.h/.cpp\<close>): the record \<open>LaptopFactory\<close> has the class's
    fields and the two files; the files' writers and readers, the admin thread and both sides of the
    replication, the transaction handlers and the dispatcher.
  \<^item> \<open>CrashPoints\<close>: the states of the two files while a commit writes them.
  \<^item> \<open>Admin\<close>, \<open>ResourceManager\<close>: the exact effect of each operation (\<open>prepared_state\<close>, \<open>committed_state\<close>,
    \<open>aborted_state\<close>, up to the state of the peers' connections: \<open>only_net\<close>), the step relation
    \<open>rm_step\<close>, reachable states and the invariant \<open>node_inv\<close>.
  \<^item> \<open>NodeProperties\<close>: vote, commit, abort, durability. \<open>Replication\<close>: commits and replays at a backup, by
    the locale \<open>replicated_log\<close>. \<open>Sessions\<close>: whole connections from bytes to bytes. \<open>Failover\<close>: crashes and
    the first commit.
  \<^item> \<open>TransactionManager\<close> (\<^verbatim>\<open>TransactionManager.cpp\<close>): one run, arguments, accept loop.
  \<^item> \<open>TwoPhase\<close>: the contract of a participant (locale \<open>participant\<close>) and all-or-nothing from it.
    \<open>History\<close>: the contract over sequences of transactions (locale \<open>participant_history\<close>), and the
    refinement of a single store.
  \<^item> \<open>Client\<close> (\<^verbatim>\<open>ClientThread\<close>, \<^verbatim>\<open>ClientMain.cpp\<close>, \<^verbatim>\<open>experiment\<close> of \<^verbatim>\<open>Experimental.cpp\<close>), \<open>Experiment\<close> (its \<^verbatim>\<open>main\<close>),
    \<open>Timer\<close> (\<^verbatim>\<open>ClientTimer\<close>), \<open>Console\<close> (what the classes print, the client's input), \<open>Startup\<close> (\<^verbatim>\<open>ServerMain.cpp\<close>), \<open>Wire\<close>: properties of the formats.
  \<^item> \<open>Threads\<close> (\<^verbatim>\<open>ServerThread.cpp\<close> again, by steps): the connection threads of one resource manager and its
    admin thread in every order. \<open>Concurrent\<close>: the functions of \<open>Factory\<close> and \<open>Handlers\<close> are one of these orders.
    \<open>Interleavings\<close>, \<open>WriteAhead\<close>: what holds in all of them. \<open>CommitRace\<close>: two commits at once, a commit
    between the check and the vote of a prepare.
  \<^item> \<open>Handoff\<close> (\<^verbatim>\<open>CreateRegularLaptop\<close> and \<^verbatim>\<open>AdminThread\<close> of \<^verbatim>\<open>ServerThread.cpp\<close>, operation by operation): the
    mutex, the condition variable and the promises of the queue; every order is answered.
  \<^item> \<open>System\<close> and this theory: the protocol end to end, one transaction and the whole accept loop.

  \<^bold>\<open>Modelling.\<close> \<^verbatim>\<open>int\<close> is \<^typ>\<open>32 word\<close>; signed overflow wraps. Objects are records passed and returned.
  A function that can leave the defined part of C++ returns a \<open>crash\<close> on the left of a sum: \<^verbatim>\<open>exit\<close>, an uncaught
  exception, stack overflow, undefined behaviour. A missing return is undefined behaviour where the caller
  uses or destroys the value (\<^verbatim>\<open>SendTxnId\<close>, \<^verbatim>\<open>readInt\<close>, \<^verbatim>\<open>ReceiveTxnRequest\<close>); the results of the recovery
  functions are not used by anyone, and their missing returns are taken as harmless, as they are in the
  unoptimised build of the \<^verbatim>\<open>Makefile\<close>. Memory that is read before it is written, and the bytes behind a short
  message or a ten-byte reply buffer that the stubs read, have a content (\<open>junk\<close>, \<open>uninit\<close>) over which the
  theorems quantify. The kernel is a script in each socket's state: what the next
  \<^verbatim>\<open>recv\<close>, \<^verbatim>\<open>send\<close>, \<^verbatim>\<open>connect\<close>, \<^verbatim>\<open>accept\<close> do; the theorems quantify over scripts, and where two programs talk, a
  theorem states that each one's script is the other's output. A \<^verbatim>\<open>recv\<close> returns bytes of one segment only, and at the
  end of the script it reports the peer's close: a peer that keeps its connection open and sends nothing, for which
  it would wait, occurs in \<open>Handoff\<close> only, as a round of the admin thread that hangs.

  \<^bold>\<open>Bounds.\<close> The dispatcher calls itself through the handlers without returning; the model carries the depth
  of the stack, and a lemma of \<open>Sessions\<close> shows that any depth above the size of the input gives the
  same result. All other loops terminate by a measure on the script or the text that is left. Operation logs
  stay below \<open>2 ^ 31\<close> entries (\<open>log_room\<close>), transactions within the 200000 bytes of the stubs' buffers
  (\<open>fits\<close>); a property of \<open>Wire\<close> shows what happens beyond. A schedule of \<open>Handoff\<close> is at most 14 steps long per call,
  and 3 more for the admin thread and for each spurious wake-up, not counting other threads' steps.

  \<^bold>\<open>Properties.\<close> Agreement of the decision with the votes and of every node with the decision, the effect of each handler and of whole connections, invariants and durability
  of reachable nodes, replication, the client's view, formats; and what goes wrong: lost votes, reused ids,
  concurrent prepares, cut messages, the first commit after a start, reconnection, missing returns.

  \<^bold>\<open>Concurrency.\<close> In the sequential theories a request is served completely before the next one. In \<open>Threads\<close>
  a step of a handler ends where it gives up a mutex, waits for the admin thread, or has answered; a round of
  the admin thread and a copy of a transaction to the peers are one step each. In \<open>Handoff\<close> placing an order and
  answering it are taken apart into the operations on \<^verbatim>\<open>arq_lock\<close>, \<^verbatim>\<open>arq_cv\<close>, the queue and the promise, with threads
  that block, sleep and are woken; the round stays one step. The other mutexes are held over straight-line code
  that waits for nothing, and have no state. The write threads of a client
  have their schedule as a parameter.

  \<^bold>\<open>Crashes.\<close> \<open>rm_step\<close> crashes and restarts a node between two requests, with the files written in one go. A crash
  inside a commit, with the files as far as they have been written, is in \<open>CrashPoints\<close> and the property on
  recovered records. Write errors of an open file are not modelled.

  \<^bold>\<open>Not modelled.\<close> Data races inside such a step, the log output of the servers, the error streams, the texts of
  the kernel's errors (a parameter of the client program), the format of the timer's statistics, SIGPIPE, and the numbers of descriptors (a closed one is never another connection's). Floating-point
  durations are an ordered type with an addition without laws.
\<close>

section \<open>The whole protocol\<close>

text \<open>
  C1. Two-phase commit end to end. A client's transaction arrives at the transaction manager; the
  transaction manager and the connection threads of all resource managers run on each other's bytes:
  what each resource manager receives is exactly what the transaction manager sent it, and the other
  way round. Then the client is told \<^verbatim>\<open>Success\<close> when every node found the transaction's reads current,
  and \<^verbatim>\<open>Failed\<close> otherwise; on success every node's customer records have exactly the transaction's
  valid writes, and on failure no node's records have changed.
\<close>

theorem two_phase_commit_atomic:
  assumes "n = nat (sint rms_count)" and "n \<le> length rms" and "length rmNodes = n"
    and "conn_ok client" and "rx client = [Segment (Transaction_Marshal e req)]"
    and txn: "txn = setTxnId t req"
    and ok: "ok \<longleftrightarrow> (\<forall>i < n. txn_accepts txn (customer_record (f i)))"
    and asked: "\<And>i. was_asked i \<longleftrightarrow> (\<forall>j < i. txn_accepts txn (customer_record (f j)))"
    and ready: "\<forall>i < n. txn_ready txn (f i)" and "fits req"
    and conn: "\<forall>i < n. conn_ok (c i) \<and> quiet (c i) \<and> sent (c i) = []
      \<and> rx (c i) = tm_messages (was_asked i) ok txn (stub i)"
    and up: "\<forall>i < n. up (rm_output (was_asked i) (vote_of txn (f i)) (done_msg ok) (c i)) (stub i)"
  shows "\<exists>client' nodes'. transaction_manager client rms_count rms stub rmNodes t =
      Inr (client', nodes', t + 1)
    \<and> sent client' = sent client @ msg_bytes 10 (if ok then ''Success'' else ''Failed'') client
    \<and> (\<forall>i < n. sent (nodes' ! i) = pending (rx (c i))
        \<and> (\<exists>c' f'. EngineerIFAThread (Suc (Suc (Suc d))) (c i) eng (f i) = Inr (c', f')
            \<and> sent c' = pending (rm_output (was_asked i) (vote_of txn (f i)) (done_msg ok) (c i))
            \<and> customer_record f' = (if ok then txn_write txn (customer_record (f i))
                else customer_record (f i))))"
proof -
  from transaction_exchange [OF assms(1-6) ok asked ready \<open>fits req\<close> conn up, where d = d and eng = eng]
  obtain client' nodes' where run: "transaction_manager client rms_count rms stub rmNodes t =
      Inr (client', nodes', t + 1)"
    "sent client' = sent client @ msg_bytes 10 (if ok then ''Success'' else ''Failed'') client"
    and each: "\<forall>i < n. sent (nodes' ! i) = pending (rx (c i))
      \<and> (\<exists>c' f1 f'. EngineerIFAThread (Suc (Suc (Suc d))) (c i) eng (f i) = Inr (c', f')
          \<and> sent c' = pending (rm_output (was_asked i) (vote_of txn (f i)) (done_msg ok) (c i))
          \<and> decided eng txn ok (f i) f1 f')"
    by blast
  show ?thesis
    using run each by (intro exI [of _ client'] exI [of _ nodes']) (blast dest: decided_records)
qed

text \<open>Witness: two resource managers, customer 0 at order 50 on both, moved to order 51.\<close>

definition demo_tm_stub :: ClientStub where
  "demo_tm_stub = dialing [Established (rm_output True ''Ok'' ''Done commit'' (demo_conn [])) []]"

definition demo_rm_conn :: ServerStub where
  "demo_rm_conn = demo_conn (tm_messages True True (demo_txn 7 0) demo_tm_stub)"

lemma rm_output_demo: "rm_output a v d demo_rm_conn = rm_output a v d (demo_conn [])"
  using msg_bytes_junk [of demo_rm_conn "demo_conn []"]
  by (simp add: rm_output_def id_segment_def demo_rm_conn_def)

lemma demo_accepts: "txn_accepts (demo_txn 7 0) (customer_record demo_rm)"
  by (simp add: txn_accepts_def)

lemma two_phase_commit_atomic_witness:
  "\<exists>client' nodes'. transaction_manager demo_client 2 (demo_rms @ demo_rms) (\<lambda>i. demo_tm_stub)
       [dialing [], dialing []] 7 = Inr (client', nodes', 8)
     \<and> sent client' = msg_bytes 10 ''Success'' demo_client
     \<and> (\<exists>c' f'. EngineerIFAThread (Suc (Suc (Suc 0))) demo_rm_conn 1 demo_rm = Inr (c', f')
         \<and> customer_record f' = [(0, 51), (1, 50)])"
proof -
  have txn: "demo_txn 7 0 = setTxnId 7 (demo_txn 0 0)"
    by (simp add: demo_txn_def setTxnId_def)
  have ready: "\<forall>i < 2 :: nat. txn_ready (demo_txn 7 0) demo_rm" by simp
  have conn: "\<forall>i < 2 :: nat. conn_ok demo_rm_conn \<and> quiet demo_rm_conn \<and> sent demo_rm_conn = []
      \<and> rx demo_rm_conn = tm_messages True True (demo_txn 7 0) demo_tm_stub"
    by (simp add: demo_rm_conn_def)
  have vote: "vote_of (demo_txn 7 0) demo_rm = ''Ok''" by (simp only: vote_of_def demo_accepts if_True)
  have up: "\<forall>i < 2 :: nat. up (rm_output True (vote_of (demo_txn 7 0) demo_rm) (done_msg True) demo_rm_conn)
      demo_tm_stub"
    by (simp add: rm_output_demo demo_tm_stub_def done_msg_def vote up_dialing)
  have written: "txn_write (demo_txn 7 0) (customer_record demo_rm) = [(0, 51), (1, 50)]"
    by (simp add: txn_write_def CustomerOrder_IsValid_def order_write_def imap.write_all_def)
  from two_phase_commit_atomic [where n = 2 and rms_count = 2 and rms = "demo_rms @ demo_rms"
      and rmNodes = "[dialing [], dialing []]" and ok = True and f = "\<lambda>i. demo_rm"
      and was_asked = "\<lambda>i. True" and c = "\<lambda>i. demo_rm_conn" and stub = "\<lambda>i. demo_tm_stub"
      and d = 0 and eng = 1,
      OF _ _ _ demo_client_facts(1,2) txn _ _ ready fits_demo conn up]
  have "\<exists>client' nodes'. transaction_manager demo_client 2 (demo_rms @ demo_rms) (\<lambda>i. demo_tm_stub)
       [dialing [], dialing []] 7 = Inr (client', nodes', 7 + 1)
     \<and> sent client' = sent demo_client @ msg_bytes 10 ''Success'' demo_client
     \<and> (\<exists>c' f'. EngineerIFAThread (Suc (Suc (Suc 0))) demo_rm_conn 1 demo_rm = Inr (c', f')
         \<and> customer_record f' = txn_write (demo_txn 7 0) (customer_record demo_rm))"
    using demo_accepts by (auto dest!: spec [of _ "0 :: nat"])
  then show ?thesis unfolding written by simp
qed

section \<open>A history of transactions\<close>

text \<open>The accept loop over the clients of a history, from the runs of the transaction manager.\<close>

lemma tm_serve_history:
  assumes "backlog listen = map (\<lambda>r. Some ([Segment (Transaction_Marshal e r)], [])) reqs"
    and "length oks = length reqs"
    and run: "\<And>j. j < length reqs \<Longrightarrow> \<exists>client' nodes'. transaction_manager (client_conn listen e (reqs ! j))
        rms_count rms (stubs j) rmNodes (of_nat j) = Inr (client', nodes', of_nat j + 1)
      \<and> sent client' = msg_bytes 10 (if oks ! j then ''Success'' else ''Failed'') listen"
  shows "tm_serve listen rms_count rms stubs rmNodes 0 0 =
    Inr (map (\<lambda>ok. msg_bytes 10 (if ok then ''Success'' else ''Failed'') listen) oks)"
proof -
  let ?ps = "map (\<lambda>r. ([Segment (Transaction_Marshal e r)], [] :: tx_event list)) reqs"
  let ?reply = "\<lambda>ok. msg_bytes 10 (if ok then ''Success'' else ''Failed'') listen"
  have "tm_serve listen rms_count rms stubs rmNodes 0 0 = Inr (map (\<lambda>j. ?reply (oks ! j)) [0 ..< length ?ps])"
  proof (rule tm_serve_all, simp add: assms(1) comp_def, intro allI impI)
    fix j
    assume "j < length ?ps"
    then show "\<exists>client' nodes'.
        transaction_manager (new_ServerSocket (host listen) (mem_ok listen) (junk listen) (?ps ! j) (IsNagleOn listen))
          rms_count rms (stubs (0 + j)) rmNodes (0 + of_nat j) = Inr (client', nodes', 0 + of_nat j + 1)
        \<and> sent client' = ?reply (oks ! j)"
      using run [of j] by (simp add: client_conn_def split del: if_split)
  qed
  moreover have "map (\<lambda>j. ?reply (oks ! j)) [0 ..< length ?ps] = map ?reply oks"
    by (rule nth_equalityI) (simp_all add: assms(2))
  ultimately show ?thesis by simp
qed

text \<open>
  C2. The service refines one store. The transaction manager takes any number of clients from its accept loop,
  one after the other; its runs and the resource managers' connection threads run on each other's bytes.
  All nodes start with the same records. Then every client is told \<^verbatim>\<open>Success\<close> or \<^verbatim>\<open>Failed\<close> as a single store
  would decide that runs the transactions in this order, every node answers every message, and every
  node ends with that store's records.
\<close>

theorem service_refines_store:
  assumes "n = nat (sint rms_count)" and "n \<le> length rms" and "length rmNodes = n" and "0 < n"
    and "mem_ok listen" and reqs: "\<forall>r \<in> set reqs. fits r"
    and clients: "backlog listen = map (\<lambda>r. Some ([Segment (Transaction_Marshal e r)], [])) reqs"
    and txns: "txns = map (\<lambda>j. setTxnId (of_nat j) (reqs ! j)) [0 ..< length reqs]"
    and store: "rm_history.serial txns d = (oks, d')"
    and start: "\<forall>i < n. history_ready txns (F 0 i) \<and> customer_record (F 0 i) = d"
    and links: "\<forall>j < length reqs. \<forall>i < n. linked (oks ! j \<or> i = 0) (oks ! j) (txns ! j) (c j i) (stubs j i)"
    and nodes: "\<forall>j < length reqs. \<forall>i < n.
      F (Suc j) i = snd (projr (EngineerIFAThread (Suc (Suc (Suc depth))) (c j i) eng (F j i)))"
  shows "tm_serve listen rms_count rms stubs rmNodes 0 0 =
      Inr (map (\<lambda>ok. msg_bytes 10 (if ok then ''Success'' else ''Failed'') listen) oks)
    \<and> (\<forall>i < n. customer_record (F (length reqs) i) = d')
    \<and> (\<forall>j < length reqs. \<forall>i < n.
        (\<exists>client' nodes'. transaction_manager (client_conn listen e (reqs ! j)) rms_count rms (stubs j)
            rmNodes (of_nat j) = Inr (client', nodes', of_nat j + 1)
          \<and> sent (nodes' ! i) = pending (rx (c j i)))
        \<and> (\<exists>c'. EngineerIFAThread (Suc (Suc (Suc depth))) (c j i) eng (F j i) = Inr (c', F (Suc j) i)
          \<and> sent c' = pending (rm_output (oks ! j \<or> i = 0) (vote_msg (oks ! j)) (done_msg (oks ! j)) (c j i))))"
proof -
  let ?serial = "\<lambda>j. snd (rm_history.serial (take j txns) d)"
  have oks: "oks = fst (rm_history.serial txns d)" and d': "d' = snd (rm_history.serial txns d)"
    by (simp_all add: store)
  have len: "length txns = length reqs" "length oks = length reqs"
    using rm_history.serial_length [of txns d] by (simp_all add: txns oks)
  note step = history_step [OF assms(1-4) \<open>mem_ok listen\<close> reqs _ txns oks, where e = e and depth = depth and eng = eng]
  have inv: "\<forall>i < n. history_ready (drop j txns) (F j i) \<and> customer_record (F j i) = ?serial j"
    if "j \<le> length reqs" for j
    using that
  proof (induction j)
    case 0
    then show ?case using start by simp
  next
    case (Suc j)
    then have j: "j < length reqs" by simp
    show ?case
      using step [OF j Suc.IH [OF Suc_leD [OF Suc.prems]], of "c j" "stubs j"] links nodes j by fastforce
  qed
  have run: "\<exists>client' nodes'. transaction_manager (client_conn listen e (reqs ! j)) rms_count rms (stubs j) rmNodes
        (of_nat j) = Inr (client', nodes', of_nat j + 1)
      \<and> sent client' = msg_bytes 10 (if oks ! j then ''Success'' else ''Failed'') listen
      \<and> (\<forall>i < n. sent (nodes' ! i) = pending (rx (c j i)))" if j: "j < length reqs" for j
    using step [OF j inv, of "c j" "stubs j"] links j by simp
  have session: "\<exists>c'. EngineerIFAThread (Suc (Suc (Suc depth))) (c j i) eng (F j i) = Inr (c', F (Suc j) i)
      \<and> sent c' = pending (rm_output (oks ! j \<or> i = 0) (vote_msg (oks ! j)) (done_msg (oks ! j)) (c j i))"
    if j: "j < length reqs" and i: "i < n" for j i
    using step [OF j inv, of "c j" "stubs j"] links nodes j i by fastforce
  have served: "tm_serve listen rms_count rms stubs rmNodes 0 0
      = Inr (map (\<lambda>ok. msg_bytes 10 (if ok then ''Success'' else ''Failed'') listen) oks)"
    using run by (intro tm_serve_history [OF clients len(2)]) blast
  have records: "\<forall>i < n. customer_record (F (length reqs) i) = d'"
    using inv [OF order_refl] len by (simp add: d')
  have "\<exists>client' nodes'. transaction_manager (client_conn listen e (reqs ! j)) rms_count rms (stubs j)
        rmNodes (of_nat j) = Inr (client', nodes', of_nat j + 1) \<and> sent (nodes' ! i) = pending (rx (c j i))"
    if "j < length reqs" and "i < n" for j i
    using run [OF that(1)] that(2) by blast
  then show ?thesis using served records session by blast
qed

text \<open>
  Witness: two resource managers, customer 0 at order 50 on both, and two clients who both read order 50
  and write order 51; the second one is refused, by the first node asked.
\<close>

definition demo_link :: "bool \<Rightarrow> bool \<Rightarrow> ClientStub" where
  "demo_link was_asked ok = dialing [Established (rm_output was_asked (vote_msg ok) (done_msg ok) (demo_conn [])) []]"

definition demo_history_stub :: "nat \<Rightarrow> nat \<Rightarrow> ClientStub" where
  "demo_history_stub j i = demo_link (j = 0 \<or> i = 0) (j = 0)"

definition demo_history_conn :: "nat \<Rightarrow> nat \<Rightarrow> ServerStub" where
  "demo_history_conn j i = demo_conn (tm_messages (j = 0 \<or> i = 0) (j = 0) (demo_txn (of_nat j) 0) (demo_history_stub j i))"

fun demo_node :: "nat \<Rightarrow> nat \<Rightarrow> LaptopFactory" where
  "demo_node 0 i = demo_rm"
| "demo_node (Suc j) i =
     snd (projr (EngineerIFAThread (Suc (Suc (Suc 0))) (demo_history_conn j i) 1 (demo_node j i)))"

definition demo_clients :: ServerSocket where
  "demo_clients = listening\<lparr>backlog :=
     [Some ([Segment (Transaction_Marshal LittleEndian (demo_txn 0 0))], []),
      Some ([Segment (Transaction_Marshal LittleEndian (demo_txn 0 0))], [])]\<rparr>"

lemma demo_linked: "linked was_asked ok txn (demo_conn (tm_messages was_asked ok txn (demo_link was_asked ok)))
    (demo_link was_asked ok)"
proof -
  let ?c = "demo_conn (tm_messages was_asked ok txn (demo_link was_asked ok))"
  have "rm_output was_asked (vote_msg ok) (done_msg ok) ?c
      = rm_output was_asked (vote_msg ok) (done_msg ok) (demo_conn [])"
    using msg_bytes_junk [of ?c "demo_conn []"]
    by (cases was_asked) (simp_all add: rm_output_def id_segment_def)
  then have "up (rm_output was_asked (vote_msg ok) (done_msg ok) ?c) (demo_link was_asked ok)"
    by (simp only: demo_link_def up_dialing)
  then show ?thesis unfolding linked_def by simp
qed

lemma service_refines_store_witness:
  "tm_serve demo_clients 2 (demo_rms @ demo_rms) demo_history_stub [dialing [], dialing []] 0 0 =
     Inr [msg_bytes 10 ''Success'' demo_clients, msg_bytes 10 ''Failed'' demo_clients]
   \<and> customer_record (demo_node 2 1) = [(0, 51), (1, 50)]"
proof -
  let ?reqs = "[demo_txn 0 0, demo_txn 0 0]"
  have txn: "setTxnId k (demo_txn 0 0) = demo_txn k 0" for k
    by (simp add: demo_txn_def setTxnId_def)
  have txns: "[demo_txn 0 0, demo_txn 1 0] = map (\<lambda>j. setTxnId (of_nat j) (?reqs ! j)) [0 ..< length ?reqs]"
    by (simp add: txn upt_rec)
  have serial: "rm_history.serial [demo_txn 0 0, demo_txn 1 0] [(0, 50), (1, 50)]
      = ([True, False], [(0, 51), (1, 50)])"
    by (simp add: txn_accepts_def txn_write_def CustomerOrder_IsValid_def order_write_def imap.write_all_def)
  have start: "\<forall>i < 2 :: nat. history_ready [demo_txn 0 0, demo_txn 1 0] (demo_node 0 i)
      \<and> customer_record (demo_node 0 i) = [(0, 50), (1, 50)]"
    by (simp add: history_ready_def)
  have links: "\<forall>j < length ?reqs. \<forall>i < 2 :: nat. linked ([True, False] ! j \<or> i = 0) ([True, False] ! j)
      ([demo_txn 0 0, demo_txn 1 0] ! j) (demo_history_conn j i) (demo_history_stub j i)"
    unfolding demo_history_conn_def demo_history_stub_def
    by (simp add: less_Suc_eq numeral_2_eq_2 all_conj_distrib) (simp add: demo_linked)
  have clients: "mem_ok demo_clients"
    "backlog demo_clients = map (\<lambda>r. Some ([Segment (Transaction_Marshal LittleEndian r)], [])) ?reqs"
    by (simp_all add: demo_clients_def listening_def new_Socket_def Socket.extend_def ServerSocket.fields_def)
  have nodes: "\<forall>j < length ?reqs. \<forall>i < 2 :: nat. demo_node (Suc j) i
      = snd (projr (EngineerIFAThread (Suc (Suc (Suc 0))) (demo_history_conn j i) 1 (demo_node j i)))"
    by simp
  have "2 = nat (sint (2 :: cint))" "2 \<le> length (demo_rms @ demo_rms)" "length [dialing [], dialing []] = 2"
    "(0 :: nat) < 2" "\<forall>r \<in> set ?reqs. fits r" by simp_all
  from service_refines_store [OF this(1-4) clients(1) this(5) clients(2) txns serial start links nodes]
  have served: "tm_serve demo_clients 2 (demo_rms @ demo_rms) demo_history_stub [dialing [], dialing []] 0 0
      = Inr (map (\<lambda>ok. msg_bytes 10 (if ok then ''Success'' else ''Failed'') demo_clients) [True, False])"
    and records: "\<forall>i < 2. customer_record (demo_node (length ?reqs) i) = [(0, 51), (1, 50)]"
    by blast+
  have len: "length ?reqs = 2" by simp
  show ?thesis
    using served records [unfolded len, rule_format, of 1] by (simp del: demo_node.simps)
qed

end
